(* ===== verification/Prelude.thy ===== *)
theory Prelude
  imports Main "HOL-Library.Word"
begin

text \<open>
  What every other theory of the development shares: the machine types of the C sources, the
  reasons why a run of the program stops, the outcome monad in which the statement sequences
  are written, the memory operations (\<open>memcpy\<close>, byte order) and the protocol constants of
  \<open>include/sharedConstants.h\<close>.

  The machine is the one the checked-in binaries are built for: bytes of 8 bits, 32-bit
  \<open>int\<close> in two's complement, little endian. A C \<open>int\<close> is a HOL \<open>int\<close>; where
  the code stores a value that may not fit, the conversion \<open>s32\<close> is written out.
\<close>

unbundle bit_operations_syntax

named_theorems run_simps \<open>rewriting a sequence of statements to its outcome\<close>
named_theorems mem_simps \<open>reading back what was stored in a byte array\<close>
named_theorems seq_simps \<open>sequence numbers as natural numbers below two to the 31\<close>

section \<open>Machine types\<close>

type_synonym byte = "8 word"
type_synonym u16 = "16 word"
type_synonym u32 = "32 word"

definition s32 :: "u32 \<Rightarrow> int" where
  "s32 w = sint w"

definition wrap32 :: "int \<Rightarrow> int" where
  "wrap32 i = sint (word_of_int i :: 32 word)"

text \<open>The remainder of C truncates towards zero: it has the sign of the dividend.\<close>

definition c_rem :: "int \<Rightarrow> int \<Rightarrow> int" where
  "c_rem a b = sgn a * (\<bar>a\<bar> mod \<bar>b\<bar>)"

lemma c_rem_nat: "c_rem (int a) (int b) = int (a mod b)"
  by (cases a) (simp_all add: c_rem_def zmod_int)

section \<open>Why a run stops\<close>

text \<open>
  \<open>Exit\<close> is a call of \<open>exit\<close> with its status; \<open>Fault\<close> is undefined behaviour of the C
  program (an access outside an array, a remainder by zero); \<open>Waiting\<close> says that the
  process is blocked in a system call and nothing more has happened yet.
\<close>

datatype fault = OutOfBounds | DivByZero

datatype halt = Exit int | Fault fault | Waiting

datatype ('s, 'a) outcome = Ret 'a 's | Stop halt 's

fun bindO :: "('s, 'a) outcome \<Rightarrow> ('a \<Rightarrow> 's \<Rightarrow> ('s, 'b) outcome) \<Rightarrow> ('s, 'b) outcome" where
  "bindO (Ret a s) f = f a s"
| "bindO (Stop h s) f = Stop h s"

fun liftO :: "(halt + 'a) \<Rightarrow> 's \<Rightarrow> ('s, 'a) outcome" where
  "liftO (Inl h) s = Stop h s"
| "liftO (Inr a) s = Ret a s"

fun bindE :: "(halt + 'a) \<Rightarrow> ('a \<Rightarrow> halt + 'b) \<Rightarrow> halt + 'b" where
  "bindE (Inl h) f = Inl h"
| "bindE (Inr a) f = f a"

fun state_of :: "('s, 'a) outcome \<Rightarrow> 's" where
  "state_of (Ret a s) = s"
| "state_of (Stop h s) = s"

lemma bindO_eq_Ret [run_simps]:
  "bindO m f = Ret b t \<longleftrightarrow> (\<exists>a s. m = Ret a s \<and> f a s = Ret b t)"
  by (cases m) auto

lemma bindO_eq_Stop [run_simps]:
  "bindO m f = Stop h t \<longleftrightarrow> m = Stop h t \<or> (\<exists>a s. m = Ret a s \<and> f a s = Stop h t)"
  by (cases m) auto

lemma liftO_eq_Ret [run_simps]: "liftO r s = Ret a t \<longleftrightarrow> r = Inr a \<and> t = s"
  by (cases r) auto

lemma liftO_eq_Stop [run_simps]: "liftO r s = Stop h t \<longleftrightarrow> r = Inl h \<and> t = s"
  by (cases r) auto

lemma bindE_eq_Inr [run_simps]: "bindE r f = Inr b \<longleftrightarrow> (\<exists>a. r = Inr a \<and> f a = Inr b)"
  by (cases r) auto

lemma bindE_eq_Inl [run_simps]: "bindE r f = Inl h \<longleftrightarrow> r = Inl h \<or> (\<exists>a. r = Inr a \<and> f a = Inl h)"
  by (cases r) auto

lemma bindO_assoc: "bindO (bindO m f) g = bindO m (\<lambda>a s. bindO (f a s) g)"
  by (cases m) auto

text \<open>
  \<open>ends r Q R\<close>: the run does not fault; it returns with \<open>Q\<close>, or a call of \<open>exit\<close> has ended
  the process in a state with \<open>R\<close>.
\<close>

definition ends :: "('s, 'a) outcome \<Rightarrow> ('a \<Rightarrow> 's \<Rightarrow> bool) \<Rightarrow> ('s \<Rightarrow> bool) \<Rightarrow> bool" where
  "ends r Q R \<longleftrightarrow> (case r of Ret a s \<Rightarrow> Q a s | Stop h s \<Rightarrow> (\<exists>i. h = Exit i) \<and> R s)"

lemma ends_Ret [simp]: "ends (Ret a s) Q R \<longleftrightarrow> Q a s"
  by (simp add: ends_def)

lemma ends_Stop [simp]: "ends (Stop h s) Q R \<longleftrightarrow> (\<exists>i. h = Exit i) \<and> R s"
  by (simp add: ends_def)

lemma ends_mono:
  "ends r Q R \<Longrightarrow> (\<And>a s. Q a s \<Longrightarrow> Q' a s) \<Longrightarrow> (\<And>s. R s \<Longrightarrow> R' s) \<Longrightarrow> ends r Q' R'"
  by (cases r) auto

lemma ends_bindO:
  "ends m (\<lambda>a s. ends (f a s) Q R) R \<Longrightarrow> ends (bindO m f) Q R"
  by (cases m) auto

lemma bindO_cong [fundef_cong]:
  "m = m' \<Longrightarrow> (\<And>a s. m' = Ret a s \<Longrightarrow> f a s = g a s) \<Longrightarrow> bindO m f = bindO m' g"
  by (cases m') auto

section \<open>Byte arrays\<close>

text \<open>
  \<open>memcpy dst off src n\<close> copies \<open>n\<close> bytes of \<open>src\<close> to \<open>dst + off\<close>. A negative
  length becomes a huge \<open>size_t\<close>, so it leaves the arrays as a too large one does.
\<close>

definition memcpy :: "byte list \<Rightarrow> nat \<Rightarrow> byte list \<Rightarrow> int \<Rightarrow> halt + byte list" where
  "memcpy dst off src n =
     (if n < 0 \<or> length src < nat n \<or> length dst < off + nat n then Inl (Fault OutOfBounds)
      else Inr (take off dst @ take (nat n) src @ drop (off + nat n) dst))"

lemma memcpy_ok [mem_simps]:
  "0 \<le> n \<Longrightarrow> nat n \<le> length src \<Longrightarrow> off + nat n \<le> length dst \<Longrightarrow>
   memcpy dst off src n = Inr (take off dst @ take (nat n) src @ drop (off + nat n) dst)"
  by (simp add: memcpy_def)

lemma memcpy_length: "memcpy dst off src n = Inr dst' \<Longrightarrow> length dst' = length dst"
  by (auto simp: memcpy_def split: if_splits)

lemma memcpy_negative: "n < 0 \<Longrightarrow> memcpy dst off src n = Inl (Fault OutOfBounds)"
  by (simp add: memcpy_def)

text \<open>The bytes of a 32-bit and of a 16-bit value in memory, lowest first.\<close>

definition bytes32 :: "u32 \<Rightarrow> byte list" where
  "bytes32 w = [ucast w, ucast (drop_bit 8 w), ucast (drop_bit 16 w), ucast (drop_bit 24 w)]"

definition word32 :: "byte list \<Rightarrow> u32" where
  "word32 bs = ucast (bs ! 0) OR push_bit 8 (ucast (bs ! 1))
     OR push_bit 16 (ucast (bs ! 2)) OR push_bit 24 (ucast (bs ! 3))"

definition bytes16 :: "u16 \<Rightarrow> byte list" where
  "bytes16 w = [ucast w, ucast (drop_bit 8 w)]"

text \<open>\<open>htonl\<close> and \<open>ntohl\<close> of the C library on a little-endian host: the bytes are reversed.\<close>

definition htonl :: "u32 \<Rightarrow> u32" where
  "htonl w = word32 (rev (bytes32 w))"

definition ntohl :: "u32 \<Rightarrow> u32" where
  "ntohl w = word32 (rev (bytes32 w))"

lemma length_bytes32 [simp]: "length (bytes32 w) = 4"
  by (simp add: bytes32_def)

lemma length_bytes16 [simp]: "length (bytes16 w) = 2"
  by (simp add: bytes16_def)

lemma byte_no_high_bit: "8 \<le> n \<Longrightarrow> \<not> bit (b :: byte) n"
  using bit_imp_le_length [of b n] by auto

lemma word32_bytes32 [mem_simps]: "word32 (bytes32 w) = w"
proof (rule bit_word_eqI)
  fix n assume "n < LENGTH(32)"
  then consider "n < 8" | "8 \<le> n" "n < 16" | "16 \<le> n" "n < 24" | "24 \<le> n" "n < 32"
    by fastforce
  then show "bit (word32 (bytes32 w)) n = bit w n"
    by cases (auto simp: word32_def bytes32_def bit_simps)
qed

lemma bytes32_word32: "bytes32 (word32 [a, b, c, d]) = [a, b, c, d]"
  unfolding word32_def bytes32_def
  by (auto intro!: bit_word_eqI simp: bit_simps byte_no_high_bit)

lemma bytes32_word32_rev: "bytes32 (word32 (rev (bytes32 w))) = rev (bytes32 w)"
  by (simp add: bytes32_def bytes32_word32 [unfolded bytes32_def])

lemma ntohl_htonl [mem_simps]: "ntohl (htonl w) = w"
  by (simp add: ntohl_def htonl_def bytes32_word32_rev word32_bytes32)

lemma htonl_ntohl [mem_simps]: "htonl (ntohl w) = w"
  using ntohl_htonl [of w] by (simp add: ntohl_def htonl_def)

lemma word32_take_bytes32 [mem_simps]: "word32 (take 4 (bytes32 w @ xs)) = w"
  by (simp add: word32_bytes32)

section \<open>Protocol constants and flags\<close>

abbreviation (input) MAX_PAYLOAD_SIZE :: nat where "MAX_PAYLOAD_SIZE \<equiv> 1400"
abbreviation (input) MAX_FILENAME_LENGTH :: nat where "MAX_FILENAME_LENGTH \<equiv> 100"
abbreviation (input) PDU_HEADER_SIZE :: nat where "PDU_HEADER_SIZE \<equiv> 7"
abbreviation (input) MAX_PDU_SIZE :: nat where "MAX_PDU_SIZE \<equiv> 1407"
abbreviation (input) SIZE_OF_BUFFER_SIZE :: nat where "SIZE_OF_BUFFER_SIZE \<equiv> 4"
abbreviation (input) SIZE_OF_WINDOW_SIZE :: nat where "SIZE_OF_WINDOW_SIZE \<equiv> 4"
abbreviation (input) START_SEQ_NUM :: u32 where "START_SEQ_NUM \<equiv> 0"
abbreviation (input) SETUP_SEQ_NUM :: u32 where "SETUP_SEQ_NUM \<equiv> 0"

text \<open>
  \<open>enum FLAG\<close>. The value \<open>CRC_ERROR\<close> of that enumeration is no flag but the result of
  \<open>checkChecksum\<close>; with \<open>CRC_GOOD\<close> of \<open>pduHelpers.h\<close> it makes a type of its own.
\<close>

datatype FLAG = RR | SREJ | FNAME | FNAME_STATUS | END_OF_FILE | DATA | RESENT_DATA_SREJ
  | RESENT_DATA_TIMEOUT | FNAME_OK | FNAME_BAD | FNAME_OK_ACK | EOF_ACK

fun flag_code :: "FLAG \<Rightarrow> byte" where
  "flag_code RR = 5"
| "flag_code SREJ = 6"
| "flag_code FNAME = 8"
| "flag_code FNAME_STATUS = 9"
| "flag_code END_OF_FILE = 10"
| "flag_code DATA = 16"
| "flag_code RESENT_DATA_SREJ = 17"
| "flag_code RESENT_DATA_TIMEOUT = 18"
| "flag_code FNAME_OK = 32"
| "flag_code FNAME_BAD = 33"
| "flag_code FNAME_OK_ACK = 34"
| "flag_code EOF_ACK = 35"

datatype crc_status = CRC_GOOD | CRC_ERROR

lemma flag_code_inj: "flag_code f = flag_code g \<longleftrightarrow> f = g"
  by (cases f; cases g) simp_all

section \<open>Sequence numbers as natural numbers\<close>

text \<open>
  The transfers of the safety theorems have fewer than \<open>2 ^ 31\<close> blocks, so a sequence number
  is the image of a natural number on which \<open>unat\<close>, the order and the conversion to \<open>int\<close>
  are exact.
\<close>

lemma unat_seq [seq_simps]: "k < 2 ^ 31 \<Longrightarrow> unat (of_nat k :: u32) = k"
  by (simp add: unat_of_nat take_bit_nat_eq_self)

lemma s32_seq [seq_simps]: "k < 2 ^ 31 \<Longrightarrow> s32 (of_nat k) = int k"
  unfolding s32_def
  by (simp add: signed_take_bit_int_eq_self signed_of_nat)

lemma wrap32_seq [seq_simps]: "- (2 ^ 31) \<le> i \<Longrightarrow> i < 2 ^ 31 \<Longrightarrow> wrap32 i = i"
  unfolding wrap32_def
  by (simp add: sint_sbintrunc' signed_take_bit_int_eq_self)

lemma seq_less [seq_simps]:
  "j < 2 ^ 31 \<Longrightarrow> k < 2 ^ 31 \<Longrightarrow> (of_nat j :: u32) < of_nat k \<longleftrightarrow> j < k"
  by (simp add: word_less_nat_alt unat_seq)

lemma seq_le [seq_simps]:
  "j < 2 ^ 31 \<Longrightarrow> k < 2 ^ 31 \<Longrightarrow> (of_nat j :: u32) \<le> of_nat k \<longleftrightarrow> j \<le> k"
  by (simp add: word_le_nat_alt unat_seq)

lemma seq_eq [seq_simps]:
  "j < 2 ^ 31 \<Longrightarrow> k < 2 ^ 31 \<Longrightarrow> (of_nat j :: u32) = of_nat k \<longleftrightarrow> j = k"
  by (metis unat_seq)

lemma seq_Suc: "(of_nat k :: u32) + 1 = of_nat (Suc k)"
  by simp

section \<open>Lists\<close>

lemma take_chunk_append: "take (k * b) bs @ take b (drop (k * b) bs) = take (Suc k * b) bs"
  by (metis add.commute mult_Suc take_add)

lemma sorted_wrt_append_last:
  "sorted_wrt (\<le>) xs \<Longrightarrow> (\<And>x. x \<in> set xs \<Longrightarrow> x \<le> y) \<Longrightarrow> sorted_wrt (\<le>) (xs @ [y :: nat])"
  by (simp add: sorted_wrt_append)

text \<open>Two numbers of one window of \<open>n\<close> with the same index are the same.\<close>

lemma mod_window_inj:
  assumes "j mod n = k mod n" "m \<le> j" "j < m + n" "m \<le> k" "k < m + (n::nat)"
  shows "j = k"
proof -
  have *: "x = y" if "x mod n = y mod n" "x \<le> y" "m \<le> x" "y < m + n" for x y
  proof -
    from that have "n dvd y - x" by (metis mod_eq_dvd_iff_nat)
    moreover from that have "y - x < n" by linarith
    ultimately have "y - x = 0" using nat_dvd_not_less by blast
    with that show ?thesis by simp
  qed
  show ?thesis
    using * [of j k] * [of k j] assms nat_le_linear [of j k] by auto
qed

end
