(* ===== verification/PollLib.thy ===== *)
theory PollLib
  imports Prelude
begin

text \<open>
  \<open>src/pollLib.c\<close>: the poll set (a growing array of \<open>struct pollfd\<close> indexed by socket
  number) as data, \<open>pollCall\<close> over an answer of the kernel, and the retry rule of
  \<open>processPoll\<close>. The operations that need memory are in \<open>Process\<close>. The invariant \<open>pollset_ok\<close> says that the recorded size is the size of the
  array and that every descriptor in use lies inside it.
\<close>

section \<open>The poll set\<close>

record pollfd =
  pfd :: int
  pevents :: int

record pollset =
  pollFileDescriptors :: "pollfd list"
  maxFileDescriptor :: int
  currentPollSetSize :: int

abbreviation (input) POLL_SET_SIZE :: int where "POLL_SET_SIZE \<equiv> 10"
abbreviation (input) POLLIN :: int where "POLLIN \<equiv> 1"
abbreviation (input) POLLHUP :: int where "POLLHUP \<equiv> 16"
abbreviation (input) NON_BLOCKING :: int where "NON_BLOCKING \<equiv> 0"
abbreviation (input) SHORT_TIME :: int where "SHORT_TIME \<equiv> 1000"
abbreviation (input) LONG_TIME :: int where "LONG_TIME \<equiv> 10000"

definition zero_pollfd :: pollfd where
  "zero_pollfd = \<lparr>pfd = 0, pevents = 0\<rparr>"

text \<open>The static variables before \<open>setupPollSet\<close>.\<close>

definition static_pollset :: pollset where
  "static_pollset = \<lparr>pollFileDescriptors = [], maxFileDescriptor = 0, currentPollSetSize = 0\<rparr>"

definition set_pollfd :: "int \<Rightarrow> pollfd \<Rightarrow> pollset \<Rightarrow> halt + pollset" where
  "set_pollfd i e ps =
     (if 0 \<le> i \<and> nat i < length (pollFileDescriptors ps)
      then Inr (ps\<lparr>pollFileDescriptors := (pollFileDescriptors ps)[nat i := e]\<rparr>)
      else Inl (Fault OutOfBounds))"

definition removeFromPollSet :: "int \<Rightarrow> pollset \<Rightarrow> halt + pollset" where
  "removeFromPollSet socketNumber ps = set_pollfd socketNumber zero_pollfd ps"

text \<open>
  \<open>pollCall\<close> given what \<open>poll\<close> returned: its value and the \<open>revents\<close> of the first
  \<open>maxFileDescriptor\<close> entries. The loop takes the first entry with an event.
\<close>

fun first_ready :: "int \<Rightarrow> int list \<Rightarrow> int" where
  "first_ready i [] = - 1"
| "first_ready i (r # revents) = (if 0 < r then i else first_ready (i + 1) revents)"

definition pollCall_result :: "int \<Rightarrow> int list \<Rightarrow> halt + int" where
  "pollCall_result pollValue revents =
     (if pollValue < 0 then Inl (Exit (- 1))
      else if 0 < pollValue then Inr (first_ready 0 revents) else Inr (- 1))"

text \<open>
  \<open>processPoll\<close> given the value of \<open>pollCall\<close>: the next state and the new \<open>tryCount\<close>.
\<close>

definition processPoll_result ::
  "int \<Rightarrow> int \<Rightarrow> int \<Rightarrow> 'a \<Rightarrow> 'a \<Rightarrow> 'a \<Rightarrow> 'a \<times> int" where
  "processPoll_result pollValue tryCount maxTries pollTimeoutState receivedDataState doneState =
     (let tryCount = tryCount + 1 in
      if 0 < pollValue then (receivedDataState, 0)
      else if maxTries \<le> tryCount then (doneState, tryCount)
      else (pollTimeoutState, tryCount))"

section \<open>The invariant of the poll set\<close>

definition pollset_ok :: "pollset \<Rightarrow> bool" where
  "pollset_ok ps \<longleftrightarrow> int (length (pollFileDescriptors ps)) = currentPollSetSize ps
     \<and> 0 \<le> maxFileDescriptor ps \<and> maxFileDescriptor ps \<le> currentPollSetSize ps
     \<and> (\<forall>i < length (pollFileDescriptors ps). pollFileDescriptors ps ! i = zero_pollfd
          \<or> pollFileDescriptors ps ! i = \<lparr>pfd = int i, pevents = POLLIN\<rparr>)"

definition is_polled :: "int \<Rightarrow> pollset \<Rightarrow> bool" where
  "is_polled s ps \<longleftrightarrow> 0 \<le> s \<and> s < maxFileDescriptor ps \<and> nat s < length (pollFileDescriptors ps)
     \<and> pollFileDescriptors ps ! nat s = \<lparr>pfd = s, pevents = POLLIN\<rparr>"

lemma set_pollfd_inside:
  "pollset_ok ps \<Longrightarrow> 0 \<le> i \<Longrightarrow> i < currentPollSetSize ps \<Longrightarrow>
   set_pollfd i e ps = Inr (ps\<lparr>pollFileDescriptors := (pollFileDescriptors ps)[nat i := e]\<rparr>)"
  by (auto simp: set_pollfd_def pollset_ok_def)

lemma set_pollfd_ok:
  assumes "pollset_ok ps" "e = zero_pollfd \<or> e = \<lparr>pfd = int i, pevents = POLLIN\<rparr>"
  shows "pollset_ok (ps\<lparr>pollFileDescriptors := (pollFileDescriptors ps)[i := e]\<rparr>)"
proof -
  have "(pollFileDescriptors ps)[i := e] ! k = zero_pollfd \<or>
      (pollFileDescriptors ps)[i := e] ! k = \<lparr>pfd = int k, pevents = POLLIN\<rparr>"
    if "k < length (pollFileDescriptors ps)" for k
    using assms that by (cases "k = i") (simp_all add: pollset_ok_def)
  with assms(1) show ?thesis by (simp add: pollset_ok_def)
qed

lemma first_ready_spec:
  "first_ready i rs = r \<Longrightarrow> 0 \<le> i \<Longrightarrow>
   (r = - 1 \<and> (\<forall>x \<in> set rs. x \<le> 0)) \<or>
   (\<exists>k < length rs. r = i + int k \<and> 0 < rs ! k \<and> (\<forall>j < k. rs ! j \<le> 0))"
proof (induction i rs rule: first_ready.induct)
  case (2 i x rs)
  show ?case
  proof (cases "0 < x")
    case False
    with 2 consider "r = - 1" "\<forall>x \<in> set rs. x \<le> 0"
      | k where "k < length rs" "r = i + 1 + int k" "0 < rs ! k" "\<forall>j < k. rs ! j \<le> 0"
      by auto
    then show ?thesis
    proof cases
      case 2
      then have "\<forall>j < Suc k. (x # rs) ! j \<le> 0" using False by (auto simp: less_Suc_eq_0_disj)
      then show ?thesis using 2 by (intro disjI2 exI [of _ "Suc k"]) auto
    qed (use False in auto)
  qed (use 2 in force)
qed simp

end
