(* ===== verification/Checksum.thy ===== *)
theory Checksum
  imports Prelude
begin

text \<open>
  \<open>in_cksum\<close> of \<open>lib/libcpe464/checksum.c\<close>, the Internet checksum on which every PDU relies,
  and the arithmetic behind it: the sum of the 16-bit words modulo 65535. The lemmas relate
  the 32-bit accumulator with its carry folding to that sum, show that a buffer which holds
  its own checksum sums up to zero, and that changing one byte is always noticed.
\<close>

section \<open>The routine\<close>

text \<open>
  The loop reads the buffer as little-endian 16-bit words into a 32-bit \<open>int\<close>; a last odd
  byte is stored in the low byte of \<open>answer\<close> and added.
\<close>

definition word16 :: "byte \<Rightarrow> byte \<Rightarrow> u16" where
  "word16 lo hi = ucast lo OR push_bit 8 (ucast hi)"

fun cksum_loop :: "32 word \<Rightarrow> byte list \<Rightarrow> 32 word" where
  "cksum_loop acc (lo # hi # w) = cksum_loop (acc + ucast (word16 lo hi)) w"
| "cksum_loop acc [b] = acc + ucast (ucast b :: u16)"
| "cksum_loop acc [] = acc"

definition in_cksum :: "byte list \<Rightarrow> u16" where
  "in_cksum addr =
     (let acc = cksum_loop 0 addr;
          acc = signed_drop_bit 16 acc + (acc AND 0xffff);
          acc = acc + signed_drop_bit 16 acc
      in ucast (NOT acc))"

section \<open>The sum of the words\<close>

fun words_sum :: "byte list \<Rightarrow> nat" where
  "words_sum (lo # hi # w) = unat lo + 256 * unat hi + words_sum w"
| "words_sum [b] = unat b"
| "words_sum [] = 0"

definition fold_carry :: "nat \<Rightarrow> nat" where
  "fold_carry s = (let t = s div 65536 + s mod 65536 in (t + t div 65536) mod 65536)"

lemma unat_byte: "unat (b :: byte) < 256"
  using unsigned_less [of b, where ?'a = nat] by simp

lemma unat_u16: "unat (h :: u16) < 65536"
  using unsigned_less [of h, where ?'a = nat] by simp

lemma unat_ucast_byte: "unat (ucast (b :: byte) :: u16) = unat b"
  using unat_byte [of b] by (simp add: unsigned_ucast_eq take_bit_nat_eq_self)

lemma unat_ucast_u16: "unat (ucast (h :: u16) :: u32) = unat h"
  using unat_u16 [of h] by (simp add: unsigned_ucast_eq take_bit_nat_eq_self)

lemma unat_word16: "unat (word16 lo hi) = unat lo + 256 * unat hi"
proof -
  have "ucast lo AND push_bit 8 (ucast hi :: u16) = 0"
    by (rule bit_word_eqI) (auto simp: bit_simps byte_no_high_bit)
  then have "word16 lo hi = ucast lo + push_bit 8 (ucast hi)"
    by (simp add: word16_def disjunctive_add_eq_or)
  also have "\<dots> = ucast lo + 256 * ucast hi"
    by (simp add: push_bit_eq_mult mult.commute)
  finally show ?thesis
    using unat_byte [of lo] unat_byte [of hi]
    by (simp add: unat_word_ariths unat_ucast_byte)
qed

lemma words_sum_bound: "2 * words_sum bs \<le> 65535 * Suc (length bs)"
proof (induction bs rule: words_sum.induct)
  case (1 lo hi w)
  then show ?case using unat_byte [of lo] unat_byte [of hi] by simp
next
  case (2 b)
  then show ?case using unat_byte [of b] by simp
qed simp

lemma cksum_loop_words_sum:
  "unat s + words_sum bs < 2 ^ 32 \<Longrightarrow> unat (cksum_loop s bs) = unat s + words_sum bs"
proof (induction s bs rule: cksum_loop.induct)
  case (1 s lo hi w)
  then have "unat (s + ucast (word16 lo hi)) = unat s + (unat lo + 256 * unat hi)"
    by (simp add: unat_word_ariths unat_ucast_u16 unat_word16)
  with 1 show ?case by simp
next
  case (2 s b)
  then show ?case by (simp add: unat_word_ariths unat_ucast_u16 unat_ucast_byte)
qed simp

text \<open>A UDP datagram has fewer than 65536 bytes, for which the accumulator stays non-negative.\<close>

lemma words_sum_datagram:
  assumes "length bs < 65536" shows "words_sum bs < 2 ^ 31"
  using words_sum_bound [of bs] assms by simp

lemma unat_and_ffff: "unat (w AND 0xffff :: u32) = unat w mod 65536"
proof -
  have "w AND 0xffff = take_bit 16 w"
    by (simp add: take_bit_eq_mask mask_eq_exp_minus_1)
  then have "unat (w AND 0xffff) = take_bit 16 (unat w)"
    by (simp only: unsigned_take_bit_eq)
  then show ?thesis by (simp add: take_bit_eq_mod)
qed

lemma unat_shift_16:
  assumes "unat w < 2 ^ 31"
  shows "unat (signed_drop_bit 16 w :: u32) = unat w div 65536"
proof -
  have "\<not> bit w 31"
  proof
    assume "bit w 31"
    then have "bit (unat w) 31" by (simp add: bit_unsigned_iff)
    then have "odd (unat w div 2 ^ 31)" by (simp add: bit_iff_odd)
    with assms show False by simp
  qed
  then have "signed_drop_bit 16 w = drop_bit 16 w"
    by (intro bit_word_eqI) (auto simp: bit_simps dest: bit_imp_le_length)
  then have "unat (signed_drop_bit 16 w) = drop_bit 16 (unat w)"
    by (simp only: unat_drop_bit_eq)
  then show ?thesis by (simp add: drop_bit_eq_div)
qed

lemma unat_NOT_u16: "unat (NOT (x :: u16)) = 65535 - unat x"
proof -
  have "NOT x = - 1 - x" by (simp add: not_eq_complement)
  also have "unat (- 1 - x) = 65535 - unat x"
    by (subst unat_sub) (simp_all add: unsigned_minus_1_eq_mask mask_eq_exp_minus_1)
  finally show ?thesis .
qed

lemma unat_not_low: "unat (ucast (NOT w) :: u16) = 65535 - unat (w :: u32) mod 65536"
proof -
  have "(ucast (NOT w) :: u16) = NOT (ucast w)"
    by (rule bit_word_eqI) (auto simp: bit_simps)
  then show ?thesis
    by (simp only: unat_NOT_u16) (simp add: unsigned_ucast_eq take_bit_eq_mod)
qed

lemma fold_carry_facts:
  assumes "s < 2 ^ 31"
  shows "fold_carry s \<le> 65535" "fold_carry s mod 65535 = s mod 65535"
    "fold_carry s = 0 \<longleftrightarrow> s = 0"
proof -
  define q r where "q = s div 65536" and "r = s mod 65536"
  have s: "s = 65536 * q + r" by (simp add: q_def r_def)
  have q: "q < 32768" using assms by (simp add: q_def less_mult_imp_div_less)
  have r: "r < 65536" by (simp add: r_def)
  have f: "fold_carry s = (if q + r < 65536 then q + r else q + r - 65535)"
  proof (cases "q + r < 65536")
    case True
    then show ?thesis
      by (simp add: fold_carry_def q_def [symmetric] r_def [symmetric])
  next
    case False
    define d where "d = q + r - 65536"
    have d: "q + r = d + 65536" "d < 32768" using False q r by (simp_all add: d_def)
    have "(d + 1 + 65536) mod 65536 = d + 1"
      unfolding mod_add_self2 using d(2) by simp
    with d have "(q + r) div 65536 = 1" "(q + r + 1) mod 65536 = d + 1"
      by (simp_all add: add.commute add.left_commute)
    then show ?thesis using d
      by (simp add: fold_carry_def q_def [symmetric] r_def [symmetric])
  qed
  show "fold_carry s \<le> 65535" using q r by (auto simp: f)
  have "s = (q + r) + 65535 * q" by (simp add: s)
  then have sm: "s mod 65535 = (q + r) mod 65535"
    by (metis mod_mult_self2)
  show "fold_carry s mod 65535 = s mod 65535"
    unfolding sm f by (simp add: le_mod_geq)
  have "s = 0 \<longleftrightarrow> q + r = 0" by (simp add: s)
  then show "fold_carry s = 0 \<longleftrightarrow> s = 0" using q r unfolding f by auto
qed

section \<open>What the checksum is\<close>

lemma unat_in_cksum:
  assumes "length bs < 65536"
  shows "unat (in_cksum bs) = 65535 - fold_carry (words_sum bs)"
proof -
  let ?s = "words_sum bs"
  have s: "?s < 2 ^ 31" using assms by (rule words_sum_datagram)
  then have l: "unat (cksum_loop 0 bs) = ?s"
    using cksum_loop_words_sum [of 0 bs] by simp
  define t where "t = signed_drop_bit 16 (cksum_loop 0 bs) + (cksum_loop 0 bs AND 0xffff)"
  have q: "?s div 65536 < 32768" using s by (simp add: less_mult_imp_div_less)
  have t: "unat t = ?s div 65536 + ?s mod 65536"
    using s q l by (simp add: t_def unat_word_ariths unat_shift_16 unat_and_ffff)
  have "unat t < 131072" unfolding t using q by (simp add: add_strict_mono)
  moreover from this have "unat t div 65536 < 2" by simp
  ultimately have "unat (t + signed_drop_bit 16 t) = unat t + unat t div 65536"
    by (simp add: unat_word_ariths unat_shift_16)
  then show ?thesis
    by (simp add: in_cksum_def t_def [symmetric] Let_def unat_not_low fold_carry_def t)
qed

text \<open>A buffer is accepted exactly when its words sum up to a positive multiple of 65535.\<close>

lemma in_cksum_zero_iff:
  assumes "length bs < 65536"
  shows "in_cksum bs = 0 \<longleftrightarrow> 0 < words_sum bs \<and> words_sum bs mod 65535 = 0"
proof -
  let ?f = "fold_carry (words_sum bs)"
  have s: "words_sum bs < 2 ^ 31" using assms by (rule words_sum_datagram)
  have "in_cksum bs = 0 \<longleftrightarrow> 65535 - ?f = 0"
    using unat_in_cksum [OF assms] by (metis unat_eq_zero)
  also have "\<dots> \<longleftrightarrow> ?f = 65535" using fold_carry_facts(1) [OF s] by auto
  also have "\<dots> \<longleftrightarrow> 0 < ?f \<and> ?f mod 65535 = 0"
    using fold_carry_facts(1) [OF s] by (auto elim!: dvdE simp: mod_eq_0_iff_dvd)
  finally show ?thesis
    using fold_carry_facts(2,3) [OF s] by auto
qed

lemma words_sum_append:
  "even (length xs) \<Longrightarrow> words_sum (xs @ ys) = words_sum xs + words_sum ys"
  by (induction xs rule: words_sum.induct) auto

lemma words_sum_bytes16: "words_sum (bytes16 w) = unat w"
proof -
  have hi: "unat (ucast (drop_bit 8 w) :: byte) = unat w div 256"
    using unat_u16 [of w]
    by (simp only: unsigned_ucast_eq unat_drop_bit_eq)
      (simp add: drop_bit_eq_div take_bit_eq_mod less_mult_imp_div_less)
  have lo: "unat (ucast w :: byte) = unat w mod 256"
    by (simp add: unsigned_ucast_eq take_bit_eq_mod)
  show ?thesis by (simp add: bytes16_def hi lo)
qed

text \<open>
  Changing one byte moves the sum by less than 65535 in one direction, so it cannot stay a
  multiple of 65535.
\<close>

lemma words_sum_update:
  "i < length bs \<Longrightarrow>
   int (words_sum (bs[i := b])) =
     int (words_sum bs) + (int (unat b) - int (unat (bs ! i))) * (if even i then 1 else 256)"
proof (induction bs arbitrary: i rule: words_sum.induct)
  case (1 lo hi w)
  show ?case
  proof (cases i)
    case (Suc j)
    then show ?thesis using 1 by (cases j) (auto simp: algebra_simps)
  qed simp
qed (auto simp: less_Suc_eq)

lemma no_small_multiple:
  assumes "x < 256" "y < 256" "x \<noteq> (y :: nat)"
  shows "\<not> 65535 dvd (int x - int y) * (if e then 1 else 256)"
  using assms by (auto dest!: dvd_imp_le_int [rotated] split: if_splits)

lemma cksum_detects_byte_change:
  assumes "length bs < 65536" "in_cksum bs = 0" "i < length bs" "b \<noteq> bs ! i"
  shows "in_cksum (bs[i := b]) \<noteq> 0"
proof
  assume "in_cksum (bs[i := b]) = 0"
  then have "65535 dvd int (words_sum (bs[i := b]))"
    using assms(1) in_cksum_zero_iff [of "bs[i := b]"]
    by (simp add: mod_eq_0_iff_dvd flip: int_dvd_int_iff)
  moreover have "65535 dvd int (words_sum bs)"
    using assms(1,2) in_cksum_zero_iff [of bs]
    by (simp add: mod_eq_0_iff_dvd flip: int_dvd_int_iff)
  ultimately have "65535 dvd (int (unat b) - int (unat (bs ! i))) * (if even i then 1 else 256)"
    using words_sum_update [OF assms(3), of b] by (metis dvd_add_right_iff)
  moreover have "unat b \<noteq> unat (bs ! i)" using assms(4) by (metis word_unat_eq_iff)
  ultimately show False
    using no_small_multiple [OF unat_byte unat_byte] by blast
qed

section \<open>The reference definition\<close>

text \<open>
  RFC 1071 defines the checksum as the complement of the one's complement sum of the 16-bit words: every
  carry out of the top is added at the bottom again, at once.
\<close>

definition ones_add :: "u16 \<Rightarrow> u16 \<Rightarrow> u16" where
  "ones_add a b = (if a + b < a then a + b + 1 else a + b)"

fun ones_sum :: "byte list \<Rightarrow> u16" where
  "ones_sum [] = 0"
| "ones_sum [b] = ucast b"
| "ones_sum (lo # hi # w) = ones_add (word16 lo hi) (ones_sum w)"

lemma unat_ones_add:
  "unat (ones_add a b) = (if unat a + unat b < 65536 then unat a + unat b else unat a + unat b - 65535)"
proof (cases "unat a + unat b < 65536")
  case True
  then have "unat (a + b) = unat a + unat b" by (simp add: unat_word_ariths)
  with True show ?thesis by (simp add: ones_add_def word_less_nat_alt)
next
  case False
  then have eq: "unat (a + b) = unat a + unat b - 65536"
    using unat_u16 [of a] unat_u16 [of b] by (simp add: unat_word_ariths le_mod_geq)
  with False have "unat (a + b) < unat a" "unat (a + b) + 1 < 65536"
    using unat_u16 [of a] unat_u16 [of b] by linarith+
  then have "unat (a + b + 1) = unat (a + b) + 1" "a + b < a"
    by (simp_all add: unat_word_ariths(1) [of "a + b" 1] word_less_nat_alt)
  with False eq show ?thesis by (simp add: ones_add_def)
qed

lemma unat_ones_sum:
  "unat (ones_sum bs) mod 65535 = words_sum bs mod 65535" "unat (ones_sum bs) = 0 \<longleftrightarrow> words_sum bs = 0"
proof (induction bs rule: ones_sum.induct)
  case (3 lo hi w)
  let ?x = "unat (word16 lo hi)" and ?y = "unat (ones_sum w)"
  have add: "unat (ones_sum (lo # hi # w)) = (if ?x + ?y < 65536 then ?x + ?y else ?x + ?y - 65535)"
    by (simp add: unat_ones_add)
  then have "unat (ones_sum (lo # hi # w)) mod 65535 = (?x + ?y) mod 65535"
    by (simp add: le_mod_geq)
  also have "\<dots> = words_sum (lo # hi # w) mod 65535"
    using mod_add_cong [OF refl 3(1), of ?x] by (simp add: unat_word16 add.assoc)
  finally show "unat (ones_sum (lo # hi # w)) mod 65535 = words_sum (lo # hi # w) mod 65535" .
  have "unat (ones_sum (lo # hi # w)) = 0 \<longleftrightarrow> ?x = 0 \<and> ?y = 0" unfolding add by auto
  also have "\<dots> \<longleftrightarrow> words_sum (lo # hi # w) = 0" using 3(2) by (auto simp: unat_word16)
  finally show "unat (ones_sum (lo # hi # w)) = 0 \<longleftrightarrow> words_sum (lo # hi # w) = 0" .
qed (simp_all add: unat_ucast_byte)

lemma residue_unique:
  assumes "x \<le> 65535" "y \<le> 65535" "x mod 65535 = y mod 65535" "x = 0 \<longleftrightarrow> y = (0 :: nat)"
  shows "x = y"
proof -
  have r: "z mod 65535 = (if z = 65535 then 0 else z)" if "z \<le> 65535" for z :: nat
    using that by simp
  show ?thesis using assms(3,4) unfolding r [OF assms(1)] r [OF assms(2)] by (auto split: if_splits)
qed

text \<open>
  C24. \<open>in_cksum\<close> is the Internet checksum of RFC 1071: for a datagram its 32-bit
  accumulator with the two foldings at the end gives the complement of the one's complement sum of
  the 16-bit words, in which every carry is added back at once. This holds for even and odd
  lengths: of an odd length the last byte alone is read, as the low half of a word whose other
  half is zero, and nothing behind it.
\<close>

theorem in_cksum_is_the_ones_complement_sum:
  assumes "length addr < 65536"
  shows "in_cksum addr = NOT (ones_sum addr)"
proof -
  have s: "words_sum addr < 2 ^ 31" using assms by (rule words_sum_datagram)
  have "unat (ones_sum addr) \<le> 65535" using unat_u16 [of "ones_sum addr"] by linarith
  from residue_unique [OF fold_carry_facts(1) [OF s] this]
  have "fold_carry (words_sum addr) = unat (ones_sum addr)"
    unfolding fold_carry_facts(2,3) [OF s] unat_ones_sum by (simp only:)
  then have "unat (in_cksum addr) = 65535 - unat (ones_sum addr)" using unat_in_cksum [OF assms] by simp
  then have "unat (in_cksum addr) = unat (NOT (ones_sum addr))" unfolding unat_NOT_u16 .
  then show ?thesis by (rule word_unat_eq_iff [THEN iffD2])
qed

theorem in_cksum_is_the_ones_complement_sum_witness:
  "in_cksum [0xff, 0xff, 0x01, 0x80, 0x03] = NOT (ones_sum [0xff, 0xff, 0x01, 0x80, 0x03])
    \<and> NOT (ones_sum [0xff, 0xff, 0x01, 0x80, 0x03]) = 0x7ffb"
  by (rule conjI [OF in_cksum_is_the_ones_complement_sum]) (simp, code_simp)

end
