(* ===== verification/Floats.thy ===== *)
theory Floats
  imports Prelude "HOL-Library.Log_Nat"
begin

text \<open>
  The \<open>float\<close> and \<open>double\<close> values the error injection computes with: rational numbers with the
  rounding of IEEE 754 (to nearest, ties to even, gradual underflow) written out. A product of
  a buffer length and a draw is rounded, too; the lemma at the end says that it stays below
  the length, which keeps the chosen index inside the buffer.
\<close>

datatype cfloat = NaN | MInf | Num rat | PInf

text \<open>The comparison \<open><=\<close>; it is false when one side is not a number.\<close>

fun fle :: "cfloat \<Rightarrow> cfloat \<Rightarrow> bool" where
  "fle (Num a) (Num b) \<longleftrightarrow> a \<le> b"
| "fle NaN y \<longleftrightarrow> False"
| "fle x NaN \<longleftrightarrow> False"
| "fle MInf y \<longleftrightarrow> True"
| "fle x PInf \<longleftrightarrow> True"
| "fle PInf (Num b) \<longleftrightarrow> False"
| "fle PInf MInf \<longleftrightarrow> False"
| "fle (Num a) MInf \<longleftrightarrow> False"

section \<open>Rounding\<close>

text \<open>The exponent of a positive number: \<open>2 ^ ilog2 q \<le> q < 2 ^ (ilog2 q + 1)\<close>.\<close>

definition ilog2 :: "rat \<Rightarrow> int" where
  "ilog2 q = (if 1 \<le> q then int (floorlog 2 (nat \<lfloor>q\<rfloor>)) - 1
     else - int (floorlog 2 (nat (\<lceil>1 / q\<rceil> - 1))))"

definition round_even :: "rat \<Rightarrow> int" where
  "round_even r =
     (let n = \<lfloor>r\<rfloor>; d = r - of_int n in if d < 1 / 2 \<or> (d = 1 / 2 \<and> even n) then n else n + 1)"

text \<open>A significand of \<open>p\<close> bits, the last of which is worth at least \<open>2 ^ emin\<close>.\<close>

definition round_to :: "nat \<Rightarrow> int \<Rightarrow> rat \<Rightarrow> rat" where
  "round_to p emin q =
     (if q = 0 then 0
      else let u = 2 powi max (ilog2 \<bar>q\<bar> - int p + 1) emin in sgn q * of_int (round_even (\<bar>q\<bar> / u)) * u)"

definition to_double :: "rat \<Rightarrow> cfloat" where
  "to_double q = (let r = round_to 53 (- 1074) q in
     if 2 ^ 1024 \<le> r then PInf else if r \<le> - (2 ^ 1024) then MInf else Num r)"

definition to_float :: "rat \<Rightarrow> cfloat" where
  "to_float q = (let r = round_to 24 (- 149) q in
     if 2 ^ 128 \<le> r then PInf else if r \<le> - (2 ^ 128) then MInf else Num r)"

text \<open>The conversion of a \<open>double\<close> to \<open>float\<close>.\<close>

fun narrow :: "cfloat \<Rightarrow> cfloat" where
  "narrow (Num q) = to_float q"
| "narrow x = x"

lemma round_even_le: "of_int (round_even r) \<le> r + 1 / 2"
proof -
  have "of_int \<lfloor>r\<rfloor> \<le> r" by linarith
  then have "of_int \<lfloor>r\<rfloor> \<le> r + 1 / 2" by linarith
  moreover have "of_int (\<lfloor>r\<rfloor> + 1) \<le> r + 1 / 2" if "\<not> r - of_int \<lfloor>r\<rfloor> < 1 / 2"
    using that by (simp add: not_less)
  ultimately show ?thesis by (simp add: round_even_def Let_def)
qed

lemma ilog2_le:
  assumes "0 < q"
  shows "2 powi ilog2 q \<le> q"
proof (cases "1 \<le> q")
  case True
  let ?n = "nat \<lfloor>q\<rfloor>"
  have "1 \<le> \<lfloor>q\<rfloor>" using True by linarith
  then have n: "0 < ?n" by simp
  then have "0 < floorlog 2 ?n" by (simp add: floorlog_def)
  then obtain m where m: "floorlog 2 ?n = Suc m" using gr0_implies_Suc by blast
  from n have "(2::nat) ^ m \<le> ?n" using floorlog_bounds [of ?n 2] m by simp
  then have "(2::rat) ^ m \<le> of_nat ?n" by (metis of_nat_le_iff of_nat_numeral of_nat_power)
  also have "\<dots> = of_int \<lfloor>q\<rfloor>" using n by simp
  also have "\<dots> \<le> q" by linarith
  finally show ?thesis using True m by (simp add: ilog2_def power_int_of_nat)
next
  case False
  let ?n = "nat (\<lceil>1 / q\<rceil> - 1)" and ?k = "floorlog 2 (nat (\<lceil>1 / q\<rceil> - 1))"
  have inv: "1 < 1 / q" using False assms by simp
  then have "2 \<le> \<lceil>1 / q\<rceil>" by linarith
  then have n: "0 < ?n" by simp
  then have "?n < 2 ^ ?k" using floorlog_bounds [of ?n 2] by simp
  then have "int ?n < int (2 ^ ?k)" by (simp only: of_nat_less_iff)
  then have "\<lceil>1 / q\<rceil> \<le> 2 ^ ?k" using \<open>2 \<le> \<lceil>1 / q\<rceil>\<close> assms by simp
  then have "1 / q \<le> of_int (2 ^ ?k)" by (simp add: ceiling_le_iff)
  then have "1 / q \<le> 2 ^ ?k" by simp
  then have "1 / 2 ^ ?k \<le> q" using assms by (simp add: field_simps)
  then show ?thesis using False by (simp add: ilog2_def power_int_minus power_int_of_nat divide_inverse)
qed

lemma round_to_up:
  assumes "0 < q" "2 powi emin \<le> q / 2 ^ (p - 1)" "0 < p"
  shows "round_to p emin q \<le> q * (1 + 1 / 2 ^ p)"
proof -
  define e where "e = ilog2 q - int p + 1"
  define u :: rat where "u = 2 powi max e emin"
  have u0: "0 < u" by (simp add: u_def)
  have "e = ilog2 q - int (p - 1)" using assms(3) by (simp add: e_def)
  then have "(2::rat) powi e = 2 powi ilog2 q / 2 ^ (p - 1)"
    by (simp add: power_int_diff)
  then have "2 powi e \<le> q / 2 ^ (p - 1)" using ilog2_le [OF assms(1)] by (simp add: divide_right_mono)
  with assms(2) have u: "u \<le> q / 2 ^ (p - 1)" by (simp add: u_def max_def)
  have "round_to p emin q = of_int (round_even (q / u)) * u"
    using assms(1) by (simp add: round_to_def Let_def u_def e_def)
  also have "\<dots> \<le> (q / u + 1 / 2) * u" using u0 by (intro mult_right_mono round_even_le) simp
  also have "\<dots> = q + u / 2" using u0 by (simp add: field_simps)
  also have "\<dots> \<le> q + q / 2 ^ (p - 1) / 2" using u by simp
  also have "\<dots> = q * (1 + 1 / 2 ^ p)" using assms(3) by (cases p) (simp_all add: field_simps)
  finally show ?thesis .
qed

lemma round_to_minus_one: "round_to 53 (- 1074) (- 1) = - 1" "round_to 24 (- 149) (- 1) = - 1"
proof -
  have "floorlog 2 1 = 1" unfolding floorlog_def by simp
  then have log: "ilog2 1 = 0" unfolding ilog2_def by (simp del: floorlog_power)
  have powi: "(2::rat) powi (- 52) = 1 / 2 ^ 52" "(2::rat) powi (- 23) = 1 / 2 ^ 23"
    by (subst power_int_minus, simp only: power_int_numeral inverse_eq_divide)+
  have max: "max (0 - int 53 + 1) (- 1074) = - 52" "max (0 - int 24 + 1) (- 149) = - 23" by simp_all
  have signs: "\<bar>- 1 :: rat\<bar> = 1" "sgn (- 1 :: rat) = - 1" "(- 1 :: rat) \<noteq> 0" by simp_all
  have quot: "1 / (1 / 2 ^ 52 :: rat) = of_int (2 ^ 52)" "1 / (1 / 2 ^ 23 :: rat) = of_int (2 ^ 23)" by simp_all
  have even: "round_even (of_int n) = n" for n by (simp add: round_even_def)
  show "round_to 53 (- 1074) (- 1) = - 1" "round_to 24 (- 149) (- 1) = - 1"
    unfolding round_to_def signs log Let_def max powi quot even by simp_all
qed

section \<open>A random index\<close>

text \<open>
  \<open>(int)(n * drand48())\<close> for a draw of \<open>x / 2 ^ 48\<close>: the product is rounded to a \<open>double\<close> and
  then truncated.
\<close>

definition scaled :: "nat \<Rightarrow> nat \<Rightarrow> nat" where
  "scaled n x = nat \<lfloor>round_to 53 (- 1074) (of_nat n * (of_nat x / 2 ^ 48))\<rfloor>"

lemma scaled_less:
  assumes "0 < n" "x < 2 ^ 48"
  shows "scaled n x < n"
proof (cases "x = 0")
  case True
  then show ?thesis using assms(1) by (simp add: scaled_def round_to_def)
next
  case False
  let ?q = "of_nat n * (of_nat x / 2 ^ 48) :: rat"
  have n: "(1::rat) \<le> of_nat n" and x: "(1::rat) \<le> of_nat x" using assms(1) False by simp_all
  have "of_nat x \<le> (2 ^ 48 - 1 :: rat)"
  proof -
    have "x + 1 \<le> 2 ^ 48" using assms(2) by simp
    then have "(of_nat (x + 1) :: rat) \<le> of_nat (2 ^ 48)" by (simp only: of_nat_le_iff)
    then show ?thesis by simp
  qed
  then have q: "?q \<le> of_nat n * ((2 ^ 48 - 1) / 2 ^ 48)" using n by (intro mult_left_mono divide_right_mono) simp_all
  have "1 * 1 \<le> of_nat n * (of_nat x :: rat)" using n x by (intro mult_mono) simp_all
  then have low: "1 / 2 ^ 48 \<le> ?q" by (simp add: field_simps)
  have "(2::rat) powi (- 1074) \<le> 1 / 2 ^ 48 / 2 ^ 52"
    by (simp add: power_int_minus power_int_def divide_simps)
  also have "\<dots> \<le> ?q / 2 ^ 52" using low by (intro divide_right_mono) simp_all
  finally have tiny: "(2::rat) powi (- 1074) \<le> ?q / 2 ^ (53 - 1)" by simp
  have "0 < ?q" using n x by simp
  from round_to_up [OF this tiny] have "round_to 53 (- 1074) ?q \<le> ?q * (1 + 1 / 2 ^ 53)" by simp
  also have "\<dots> \<le> of_nat n * ((2 ^ 48 - 1) / 2 ^ 48) * (1 + 1 / 2 ^ 53)" using q by (intro mult_right_mono) simp_all
  also have "\<dots> < of_nat n" using n by (simp add: field_simps)
  finally have "\<lfloor>round_to 53 (- 1074) ?q\<rfloor> < int n" by (simp add: floor_less_iff)
  then show ?thesis using assms(1) by (simp add: scaled_def nat_less_iff)
qed

end
