(* ===== verification/CString.thy ===== *)
theory CString
  imports Floats
begin

text \<open>
  The string functions of the C library the programs call: \<open>strtol\<close>, \<open>atoi\<close>, \<open>atol\<close>,
  \<open>strtod\<close>, \<open>strtof\<close>, \<open>atof\<close> and \<open>strtok_r\<close>. A string is the list of its bytes before the
  terminating zero; \<open>c_string\<close> finds it in memory. Hexadecimal floating constants are left out.
\<close>

section \<open>Strings in memory\<close>

text \<open>The string at the start of a piece of memory: without a terminating zero it has no end.\<close>

definition c_string :: "byte list \<Rightarrow> halt + byte list" where
  "c_string bs = (if 0 \<in> set bs then Inr (takeWhile (\<lambda>b. b \<noteq> 0) bs) else Inl (Fault OutOfBounds))"

lemma c_string_ok: "0 \<notin> set s \<Longrightarrow> c_string (s @ 0 # rest) = Inr s"
  unfolding c_string_def by (induction s) auto

lemma c_string_split:
  assumes "c_string m = Inr s"
  obtains rest where "m = s @ 0 # rest" "0 \<notin> set s"
proof -
  have z: "0 \<in> set m" and s: "s = takeWhile (\<lambda>b. b \<noteq> 0) m" using assms by (auto simp: c_string_def split: if_splits)
  from z have ne: "dropWhile (\<lambda>b. b \<noteq> 0) m \<noteq> []" by (simp add: dropWhile_eq_Nil_conv)
  then have "hd (dropWhile (\<lambda>b. b \<noteq> 0) m) = 0" using hd_dropWhile [of "\<lambda>b. b \<noteq> 0" m] by simp
  with ne have "dropWhile (\<lambda>b. b \<noteq> 0) m = 0 # tl (dropWhile (\<lambda>b. b \<noteq> 0) m)" by (metis list.collapse)
  then have "m = s @ 0 # tl (dropWhile (\<lambda>b. b \<noteq> 0) m)"
    using takeWhile_dropWhile_id [of "\<lambda>b. b \<noteq> 0" m] unfolding s by simp
  moreover have "0 \<notin> set s" unfolding s by (auto dest: set_takeWhileD)
  ultimately show ?thesis using that by blast
qed

section \<open>Integers\<close>

definition isspace :: "byte \<Rightarrow> bool" where
  "isspace b \<longleftrightarrow> b = 32 \<or> (9 \<le> b \<and> b \<le> 13)"

definition isdigit :: "byte \<Rightarrow> bool" where
  "isdigit b \<longleftrightarrow> 48 \<le> b \<and> b \<le> 57"

definition digits_val :: "byte list \<Rightarrow> int" where
  "digits_val ds = foldl (\<lambda>v d. 10 * v + (uint d - 48)) 0 ds"

text \<open>An optional sign: whether it is a minus, and what follows it.\<close>

fun scan_sign :: "byte list \<Rightarrow> bool \<times> byte list" where
  "scan_sign [] = (False, [])"
| "scan_sign (c # s) = (if c = 45 then (True, s) else if c = 43 then (False, s) else (False, c # s))"

definition clamp_long :: "int \<Rightarrow> int" where
  "clamp_long i = max (- (2 ^ 63)) (min (2 ^ 63 - 1) i)"

text \<open>\<open>strtol\<close> to the base 10; \<open>None\<close> when no digit is found (the end pointer stays).\<close>

definition strtol :: "byte list \<Rightarrow> int option" where
  "strtol s =
     (case scan_sign (dropWhile isspace s) of (neg, r) \<Rightarrow>
        let ds = takeWhile isdigit r in
        if ds = [] then None else Some (clamp_long (if neg then - digits_val ds else digits_val ds)))"

definition atol :: "byte list \<Rightarrow> int" where
  "atol s = (case strtol s of None \<Rightarrow> 0 | Some i \<Rightarrow> i)"

text \<open>The \<open>long\<close> is cut to an \<open>int\<close>.\<close>

definition atoi :: "byte list \<Rightarrow> int" where
  "atoi s = wrap32 (atol s)"

text \<open>The decimal digits of a number, and how they are read back.\<close>

fun decimal :: "nat \<Rightarrow> byte list" where
  "decimal n = (if n < 10 then [of_nat (48 + n)] else decimal (n div 10) @ [of_nat (48 + n mod 10)])"

declare decimal.simps [simp del]

lemma digit_byte:
  assumes "d < 10"
  shows "isdigit (of_nat (48 + d))" "uint (of_nat (48 + d) :: byte) = 48 + int d"
proof -
  have "unat (of_nat (48 + d) :: byte) = 48 + d"
    using assms by (simp add: unat_of_nat take_bit_nat_eq_self del: of_nat_add of_nat_numeral)
  then show "uint (of_nat (48 + d) :: byte) = 48 + int d" "isdigit (of_nat (48 + d))"
    using assms by (simp_all add: isdigit_def word_le_nat_alt uint_nat)
qed

lemma decimal_digits: "\<forall>d \<in> set (decimal n). isdigit d" "decimal n \<noteq> []" "digits_val (decimal n) = int n"
proof (induction n rule: decimal.induct)
  case (1 n)
  show "\<forall>d \<in> set (decimal n). isdigit d" "decimal n \<noteq> []"
    using 1 digit_byte [of "n mod 10"] digit_byte [of n] by (simp_all add: decimal.simps [of n])
  show "digits_val (decimal n) = int n"
  proof (cases "n < 10")
    case True
    then show ?thesis using digit_byte(2) [of n] by (simp add: decimal.simps [of n] digits_val_def)
  next
    case False
    have "digits_val (decimal n) = 10 * digits_val (decimal (n div 10)) + int (n mod 10)"
      using False digit_byte(2) [of "n mod 10"] by (simp add: decimal.simps [of n] digits_val_def)
    also have "\<dots> = int (10 * (n div 10) + n mod 10)" by (simp only: 1(3) [OF False] of_nat_add of_nat_mult of_nat_numeral)
    also have "\<dots> = int n" by (simp only: mult_div_mod_eq)
    finally show ?thesis .
  qed
qed

lemma isdigit_plain: "isdigit d \<Longrightarrow> \<not> isspace d \<and> d \<noteq> 45 \<and> d \<noteq> 43 \<and> d \<noteq> 44 \<and> d \<noteq> 0"
  by (auto simp: isdigit_def isspace_def word_le_nat_alt)

text \<open>The number ends where a byte follows that is no digit.\<close>

lemma strtol_decimal:
  assumes "int n < 2 ^ 63" "rest = [] \<or> \<not> isdigit (hd rest)"
  shows "strtol (decimal n @ rest) = Some (int n)"
proof -
  obtain d ds where d: "decimal n = d # ds" using decimal_digits(2) [of n] by (cases "decimal n") auto
  have "isdigit d" using decimal_digits(1) [of n] d by simp
  then have "scan_sign (dropWhile isspace (decimal n @ rest)) = (False, decimal n @ rest)"
    using isdigit_plain [of d] by (simp add: d)
  moreover have "takeWhile isdigit (decimal n @ rest) = decimal n"
    using decimal_digits(1) [of n] assms(2) by (cases rest) (simp_all add: takeWhile_append2)
  ultimately show ?thesis
    using assms(1) decimal_digits(2,3) [of n] by (simp add: strtol_def clamp_long_def)
qed

lemma atoi_decimal: "n < 2 ^ 31 \<Longrightarrow> atoi (decimal n) = int n"
  using strtol_decimal [of n "[]"] by (simp add: atoi_def atol_def wrap32_seq)

lemma decimal_no_zero: "0 \<notin> set (decimal n)"
  using decimal_digits(1) [of n] isdigit_plain by blast

section \<open>Floating-point numbers\<close>

definition tolower :: "byte \<Rightarrow> byte" where
  "tolower b = (if 65 \<le> b \<and> b \<le> 90 then b + 32 else b)"

definition scan_exponent :: "byte list \<Rightarrow> int" where
  "scan_exponent s =
     (case s of
        [] \<Rightarrow> 0
      | c # r \<Rightarrow>
          if tolower c \<noteq> 101 then 0
          else (case scan_sign r of (neg, r) \<Rightarrow>
            let v = digits_val (takeWhile isdigit r) in if neg then - v else v))"

definition scan_fraction :: "byte list \<Rightarrow> byte list \<times> byte list" where
  "scan_fraction s =
     (case s of
        [] \<Rightarrow> ([], [])
      | c # r \<Rightarrow> if c = 46 then (takeWhile isdigit r, dropWhile isdigit r) else ([], s))"

text \<open>The exact value of a decimal constant.\<close>

definition scan_decimal :: "byte list \<Rightarrow> rat option" where
  "scan_decimal s =
     (let ip = takeWhile isdigit s in
      case scan_fraction (dropWhile isdigit s) of (fp, r) \<Rightarrow>
        if ip @ fp = [] then None
        else Some (of_int (digits_val (ip @ fp)) * 10 powi (scan_exponent r - int (length fp))))"

text \<open>
  \<open>conv\<close> is the conversion of the exact value to the floating-point format. The words are
  \<open>inf\<close> and \<open>nan\<close>.
\<close>

definition scan_float :: "(rat \<Rightarrow> cfloat) \<Rightarrow> byte list \<Rightarrow> cfloat option" where
  "scan_float conv s =
     (case scan_sign (dropWhile isspace s) of (neg, r) \<Rightarrow>
        let word = map tolower (take 3 r) in
        if word = [105, 110, 102] then Some (if neg then MInf else PInf)
        else if word = [110, 97, 110] then Some NaN
        else map_option (\<lambda>q. conv (if neg then - q else q)) (scan_decimal r))"

definition strtod :: "byte list \<Rightarrow> cfloat option" where
  "strtod s = scan_float to_double s"

definition strtof :: "byte list \<Rightarrow> cfloat option" where
  "strtof s = scan_float to_float s"

definition atof :: "byte list \<Rightarrow> cfloat" where
  "atof s = (case strtod s of None \<Rightarrow> Num 0 | Some x \<Rightarrow> x)"

section \<open>Tokens\<close>

text \<open>\<open>strtok_r\<close> with one delimiter: the next token and what is left after it.\<close>

definition strtok_r :: "byte \<Rightarrow> byte list \<Rightarrow> (byte list \<times> byte list) option" where
  "strtok_r delim s =
     (let r = dropWhile (\<lambda>b. b = delim) s in
      if r = [] then None
      else Some (takeWhile (\<lambda>b. b \<noteq> delim) r, drop 1 (dropWhile (\<lambda>b. b \<noteq> delim) r)))"

lemma strtok_r_shorter:
  assumes "strtok_r delim s = Some (tok, rest)"
  shows "length rest < length s"
proof -
  let ?r = "dropWhile (\<lambda>b. b = delim) s"
  have r: "?r \<noteq> []" and rest: "rest = drop 1 (dropWhile (\<lambda>b. b \<noteq> delim) ?r)"
    using assms by (auto simp: strtok_r_def Let_def split: if_splits)
  have "length rest \<le> length ?r - 1" using length_dropWhile_le [of "\<lambda>b. b \<noteq> delim" ?r] rest by simp
  moreover have "0 < length ?r" using r by simp
  ultimately show ?thesis using length_dropWhile_le [of "\<lambda>b. b = delim" s] by linarith
qed

end
