(* ===== verification/ErrorInjection.thy ===== *)
theory ErrorInjection
  imports Checksum CString "HOL-Library.Sublist"
begin

text \<open>
  The error injection under every send: \<open>PacketManager.cpp\<close> with the message events of
  \<open>MsgEvents/\<close>. \<open>drand48\<close> is the linear congruential generator POSIX prescribes; rates are
  \<open>float\<close>s. The buffers are PDUs, of at least seven bytes, so the sequence number that is
  read off their first four bytes is there.
\<close>

section \<open>The random numbers\<close>

type_synonym rand48 = "48 word"

definition srand48 :: "int \<Rightarrow> rand48" where
  "srand48 seedval = push_bit 16 (word_of_int (seedval mod 2 ^ 32)) OR 0x330E"

text \<open>A draw of \<open>x\<close> stands for \<open>x / 2 ^ 48\<close>.\<close>

definition drand48 :: "rand48 \<Rightarrow> nat \<times> rand48" where
  "drand48 r = (let r' = 0x5DEECE66D * r + 0xB in (unat r', r'))"

lemma drand48_bound: "drand48 r = (x, r') \<Longrightarrow> x < 2 ^ 48"
  using unsigned_less [of r', where ?'a = nat] by (auto simp: drand48_def Let_def)

section \<open>Message events\<close>

text \<open>
  The three classes with their members: the journal and the counts of \<open>infoSeqNo\<close>, what
  \<open>errorDrop\<close> drops, and nothing for \<open>errorFlipBits\<close>.
\<close>

datatype IMsgEvent =
    InfoSeqNo "u32 list" "u32 \<rightharpoonup> u32"
  | ErrorDrop bool "u32 list"
  | ErrorFlipBits

definition new_infoSeqNo :: IMsgEvent where
  "new_infoSeqNo = InfoSeqNo [] Map.empty"

definition new_errorDrop :: IMsgEvent where
  "new_errorDrop = ErrorDrop True []"

fun setDropAll :: "bool \<Rightarrow> IMsgEvent \<Rightarrow> IMsgEvent" where
  "setDropAll dropAll (ErrorDrop m_DropAll m_DropList) = ErrorDrop dropAll m_DropList"
| "setDropAll dropAll e = e"

fun setDropSpecific :: "u32 list \<Rightarrow> IMsgEvent \<Rightarrow> IMsgEvent" where
  "setDropSpecific dropList (ErrorDrop m_DropAll m_DropList) = ErrorDrop False dropList"
| "setDropSpecific dropList e = e"

text \<open>The results of \<open>run\<close>: 0 for no change, 1 for a change, 2 for a packet to be dropped.\<close>

definition infoSeqNo_run :: "u32 list \<Rightarrow> (u32 \<rightharpoonup> u32) \<Rightarrow> byte list \<Rightarrow> int \<times> IMsgEvent" where
  "infoSeqNo_run m_History m_Count buf =
     (let seqNo = ntohl (word32 (take 4 buf));
          n = (case m_Count seqNo of None \<Rightarrow> 0 | Some n \<Rightarrow> n)
      in (0, InfoSeqNo (m_History @ [seqNo]) (m_Count(seqNo \<mapsto> n + 1))))"

definition errorDrop_run :: "bool \<Rightarrow> u32 list \<Rightarrow> u32 \<Rightarrow> int" where
  "errorDrop_run m_DropAll m_DropList msgNo =
     (let toDrop = (if List.member m_DropList msgNo then True else m_DropAll) in if toDrop then 2 else 0)"

definition errorFlipBits_run :: "byte list \<Rightarrow> rand48 \<Rightarrow> int \<times> byte list \<times> rand48" where
  "errorFlipBits_run buf r =
     (case drand48 r of (x, r) \<Rightarrow>
        let byte_to_flip = scaled (length buf) x
        in (1, buf[byte_to_flip := buf ! byte_to_flip XOR 0xFF], r))"

text \<open>The call through the base class: the result, the buffer, the object and the generator.\<close>

fun run_event :: "IMsgEvent \<Rightarrow> byte list \<Rightarrow> u32 \<Rightarrow> rand48 \<Rightarrow> int \<times> byte list \<times> IMsgEvent \<times> rand48" where
  "run_event (InfoSeqNo m_History m_Count) buf msgNo r =
     (case infoSeqNo_run m_History m_Count buf of (n, e) \<Rightarrow> (n, buf, e, r))"
| "run_event (ErrorDrop m_DropAll m_DropList) buf msgNo r =
     (errorDrop_run m_DropAll m_DropList msgNo, buf, ErrorDrop m_DropAll m_DropList, r)"
| "run_event ErrorFlipBits buf msgNo r =
     (case errorFlipBits_run buf r of (n, buf, r) \<Rightarrow> (n, buf, ErrorFlipBits, r))"

text \<open>
  The loop over the events; a packet to be dropped ends it. The result is followed by the
  buffer, the events and the generator.
\<close>

fun runMsgEvents ::
  "IMsgEvent list \<Rightarrow> bool \<Rightarrow> byte list \<Rightarrow> u32 \<Rightarrow> rand48
   \<Rightarrow> int \<times> byte list \<times> IMsgEvent list \<times> rand48" where
  "runMsgEvents [] hasChanged buf msgNo r = (of_bool hasChanged, buf, [], r)"
| "runMsgEvents (e # ErrVec) hasChanged buf msgNo r =
     (case run_event e buf msgNo r of (nResult, buf, e, r) \<Rightarrow>
        if nResult = 2 then (2, buf, e # ErrVec, r)
        else (case runMsgEvents ErrVec (hasChanged \<or> nResult = 1) buf msgNo r of
          (n, buf, es, r) \<Rightarrow> (n, buf, e # es, r)))"

text \<open>\<open>report\<close> of \<open>infoSeqNo\<close>: the number of messages and of different sequence numbers.\<close>

definition infoSeqNo_report :: "u32 list \<Rightarrow> (u32 \<rightharpoonup> u32) \<Rightarrow> nat \<times> nat" where
  "infoSeqNo_report m_History m_Count = (length m_History, card (dom m_Count))"

section \<open>The packet manager\<close>

record PacketManager =
  m_ErrorRate :: cfloat
  m_MsgNo :: u32
  m_ErrorCase_Constant :: "IMsgEvent list"
  m_ErrorCase_Chance :: "IMsgEvent list"
  rand :: rand48

text \<open>The constructor, at the time \<open>now\<close>.\<close>

definition g_PktMgr :: "int \<Rightarrow> PacketManager" where
  "g_PktMgr now = \<lparr>m_ErrorRate = Num 0, m_MsgNo = 0, m_ErrorCase_Constant = [], m_ErrorCase_Chance = [],
     rand = srand48 now\<rparr>"

definition setRandSeed :: "int \<Rightarrow> PacketManager \<Rightarrow> PacketManager" where
  "setRandSeed seed pm = pm\<lparr>rand := srand48 seed\<rparr>"

definition setErrorRate :: "cfloat \<Rightarrow> PacketManager \<Rightarrow> PacketManager" where
  "setErrorRate rate pm = pm\<lparr>m_ErrorRate := rate\<rparr>"

text \<open>A null pointer is \<open>None\<close>; the first component is the value returned.\<close>

definition addMsgEvent_Standard :: "IMsgEvent option \<Rightarrow> PacketManager \<Rightarrow> int \<times> PacketManager" where
  "addMsgEvent_Standard msgErr pm =
     (case msgErr of
        None \<Rightarrow> (- 1, pm)
      | Some e \<Rightarrow> (0, pm\<lparr>m_ErrorCase_Constant := m_ErrorCase_Constant pm @ [e]\<rparr>))"

definition addMsgEvent_Random :: "IMsgEvent option \<Rightarrow> PacketManager \<Rightarrow> int \<times> PacketManager" where
  "addMsgEvent_Random msgErr pm =
     (case msgErr of
        None \<Rightarrow> (- 1, pm)
      | Some e \<Rightarrow> (0, pm\<lparr>m_ErrorCase_Chance := m_ErrorCase_Chance pm @ [e]\<rparr>))"

text \<open>The loop deletes the events from the back and counts them.\<close>

fun clearMsgEvents :: "IMsgEvent list \<Rightarrow> int \<times> IMsgEvent list" where
  "clearMsgEvents [] = (0, [])"
| "clearMsgEvents (e # ErrVec) =
     (case clearMsgEvents (butlast (e # ErrVec)) of (count, rest) \<Rightarrow> (count + 1, rest))"

text \<open>
  \<open>processEvents\<close>: the constant events always run; then, if the first draw, as a \<open>float\<close>, is
  within the error rate, one of the chance events, chosen by a second draw.
\<close>

definition processEvents ::
  "byte list \<Rightarrow> u32 \<Rightarrow> PacketManager \<Rightarrow> int \<times> byte list \<times> PacketManager" where
  "processEvents buf msgNo pm =
     (case runMsgEvents (m_ErrorCase_Constant pm) False buf msgNo (rand pm) of (nResult, buf, es, r) \<Rightarrow>
      let hasDropped = (nResult = 2); hasChanged = (if nResult = 1 then 1 else 0);
          pm = pm\<lparr>m_ErrorCase_Constant := es\<rparr> in
      case drand48 r of (x, r) \<Rightarrow>
      let randNum = to_float (of_nat x / 2 ^ 48) in
      if m_ErrorCase_Chance pm \<noteq> [] \<and> fle randNum (m_ErrorRate pm) then
        (case drand48 r of (x, r) \<Rightarrow>
         let randCase = scaled (length (m_ErrorCase_Chance pm)) x in
         case run_event (m_ErrorCase_Chance pm ! randCase) buf msgNo r of (nResult, buf, e, r) \<Rightarrow>
           ((if hasDropped \<or> nResult = 2 then 2 else nResult), buf,
            pm\<lparr>m_ErrorCase_Chance := (m_ErrorCase_Chance pm)[randCase := e], rand := r\<rparr>))
      else ((if hasDropped then 2 else hasChanged), buf, pm\<lparr>rand := r\<rparr>))"

text \<open>
  \<open>sendto_Err\<close>: what reaches the kernel's \<open>sendto\<close>, \<open>None\<close> for a packet dropped on
  purpose. An empty buffer is a call of \<open>exit(1)\<close>.
\<close>

definition sendto_Err :: "byte list \<Rightarrow> PacketManager \<Rightarrow> halt + (byte list option \<times> PacketManager)" where
  "sendto_Err buf pm =
     (if buf = [] then Inl (Exit 1)
      else
        let pm = pm\<lparr>m_MsgNo := m_MsgNo pm + 1\<rparr> in
        case processEvents buf (m_MsgNo pm) pm of (nResult, bufTmp, pm) \<Rightarrow>
          Inr ((if nResult = 0 \<or> nResult = 1 then Some bufTmp else None), pm))"

text \<open>
  \<open>send_Err\<close> on a connected socket. \<open>send\<close> is what the kernel's \<open>send\<close> returns for a buffer; the
  result is the value returned and the buffer that was given to the kernel, if any.
\<close>

definition send_Err ::
  "(byte list \<Rightarrow> int) \<Rightarrow> byte list \<Rightarrow> PacketManager \<Rightarrow> halt + (int \<times> byte list option \<times> PacketManager)" where
  "send_Err send buf pm =
     (if buf = [] then Inl (Exit 1)
      else
        let pm = pm\<lparr>m_MsgNo := m_MsgNo pm + 1\<rparr> in
        case processEvents buf (m_MsgNo pm) pm of (nResult, bufTmp, pm) \<Rightarrow>
          if nResult < 0 then Inr (nResult, None, pm)
          else if nResult = 0 \<or> nResult = 1 then
            let lenSent = send bufTmp in
            Inr (if lenSent = int (length bufTmp) then int (length buf) else lenSent, Some bufTmp, pm)
          else Inr (int (length buf), None, pm))"

section \<open>What is printed\<close>

text \<open>\<open>printType\<close>: the text for a flag and the number that is printed with it.\<close>

definition printType :: "int \<Rightarrow> byte list \<Rightarrow> string \<times> u32 option" where
  "printType flag buf =
     (let seqNumber = ntohl (word32 (take 4 buf)); inner = ntohl (word32 (take 4 (drop 7 buf))) in
      if flag = 1 then (''  -SETUP Init    '', None)
      else if flag = 2 then (''  -SETUP Response'', None)
      else if flag = 3 then (''  -Data #: '', Some seqNumber)
      else if flag = 4 then (''  -Resent Data #: '', Some seqNumber)
      else if flag = 5 then (''  -RR #:   '', Some inner)
      else if flag = 6 then (''  -SREJ #: '', Some inner)
      else if flag = 7 then (''  -Timeout resent data #: '', Some seqNumber)
      else if flag = 8 then (''  -FNAME request'', None)
      else if flag = 9 then (''  -FNAME response'', None)
      else if flag = 16 then (''  -Data #: '', Some seqNumber)
      else if flag = 17 then (''  -Resent Data #: '', Some seqNumber)
      else if flag = 18 then (''  -Timeout resent data #: '', Some seqNumber)
      else (''  -User defined '', None))"

text \<open>
  \<open>recv_Mod\<close> and \<open>recvfrom_Mod\<close> return what the kernel returned and print a line: the sequence
  number, the length, the flag, its text, and whether the packet is corrupted. \<open>buf\<close> is the
  buffer of the caller after the call.
\<close>

record recv_line =
  line_seqNo :: u32
  line_len :: int
  line_flags :: byte
  line_type :: "string \<times> u32 option"
  line_corrupted :: bool

definition recvfrom_Mod :: "byte list \<Rightarrow> int \<Rightarrow> int \<times> recv_line" where
  "recvfrom_Mod buf ret =
     (ret, \<lparr>line_seqNo = ntohl (word32 (take 4 buf)), line_len = ret, line_flags = buf ! 6,
            line_type = printType (uint (buf ! 6)) buf,
            line_corrupted = (in_cksum (take (nat ret) buf) \<noteq> 0)\<rparr>)"

definition recv_Mod :: "byte list \<Rightarrow> int \<Rightarrow> int \<times> recv_line" where
  "recv_Mod buf ret =
     (ret, \<lparr>line_seqNo = ntohl (word32 (take 4 buf)), line_len = ret, line_flags = buf ! 6,
            line_type = printType (uint (buf ! 6)) buf,
            line_corrupted = (in_cksum (take (nat ret) buf) \<noteq> 0)\<rparr>)"

lemma clearMsgEvents_all: "clearMsgEvents es = (int (length es), [])"
proof (induction "length es" arbitrary: es)
  case (Suc n)
  then obtain e ErrVec where es: "es = e # ErrVec" by (cases es) auto
  from Suc(2) es have "n = length (butlast es)" by simp
  from Suc(1) [OF this] show ?case unfolding es by simp
qed simp

section \<open>What the injection can do to a packet\<close>

text \<open>The constant events of the two programs do not change a packet.\<close>

definition pm_ok :: "PacketManager \<Rightarrow> bool" where
  "pm_ok pm \<longleftrightarrow> ErrorFlipBits \<notin> set (m_ErrorCase_Constant pm)"

definition flipped :: "byte list \<Rightarrow> byte list \<Rightarrow> bool" where
  "flipped buf buf' \<longleftrightarrow> (\<exists>i < length buf. buf' = buf[i := buf ! i XOR 0xFF])"

lemma run_event_result:
  assumes "run_event e buf n r = (res, buf', e', r')" "buf \<noteq> []"
  shows "(res = 0 \<and> buf' = buf) \<or> (res = 1 \<and> flipped buf buf') \<or> (res = 2 \<and> buf' = buf)"
proof (cases e)
  case ErrorFlipBits
  obtain x r'' where d: "drand48 r = (x, r'')" by fastforce
  have "scaled (length buf) x < length buf"
    using drand48_bound [OF d] assms(2) by (intro scaled_less) auto
  with ErrorFlipBits d assms(1) show ?thesis
    by (auto simp: flipped_def Let_def errorFlipBits_run_def)
qed (use assms in \<open>auto simp: infoSeqNo_run_def errorDrop_run_def Let_def split: if_splits\<close>)

text \<open>An event that does not flip leaves the buffer alone and stays what it is.\<close>

lemma run_event_no_flip:
  assumes "e \<noteq> ErrorFlipBits" "run_event e buf n r = (res, buf', e', r')"
  shows "buf' = buf \<and> e' \<noteq> ErrorFlipBits"
  using assms by (cases e) (auto simp: infoSeqNo_run_def Let_def)

lemma runMsgEvents_no_flip:
  assumes "ErrorFlipBits \<notin> set es" "runMsgEvents es c buf n r = (res, buf', es', r')"
  shows "buf' = buf \<and> ErrorFlipBits \<notin> set es'"
  using assms
proof (induction es arbitrary: c r res buf' es' r')
  case (Cons e es)
  obtain n1 b1 e1 r1 where 1: "run_event e buf n r = (n1, b1, e1, r1)" by (metis prod_cases4)
  have b1: "b1 = buf" "e1 \<noteq> ErrorFlipBits" using run_event_no_flip [OF _ 1] Cons.prems(1) by auto
  obtain n2 b2 es2 r2 where 2: "runMsgEvents es (c \<or> n1 = 1) buf n r1 = (n2, b2, es2, r2)" by (metis prod_cases4)
  have "b2 = buf \<and> ErrorFlipBits \<notin> set es2" using Cons.IH [OF _ 2] Cons.prems(1) by simp
  with 1 2 b1 Cons.prems show ?case by (auto split: if_splits)
qed simp

lemma processEvents_result:
  assumes ok: "pm_ok pm" and ne: "buf \<noteq> []"
    and p: "processEvents buf n pm = (res, buf', pm')"
  shows "pm_ok pm' \<and> m_MsgNo pm' = m_MsgNo pm \<and>
    (res = 2 \<or> buf' = buf \<or> (res = 1 \<and> flipped buf buf'))"
proof -
  obtain res0 buf0 es0 r0 where c:
    "runMsgEvents (m_ErrorCase_Constant pm) False buf n (rand pm) = (res0, buf0, es0, r0)"
    by (metis prod_cases4)
  with ok have "buf0 = buf" "ErrorFlipBits \<notin> set es0" by (auto simp: pm_ok_def dest: runMsgEvents_no_flip)
  with c p ne show ?thesis
    by (auto simp: processEvents_def pm_ok_def Let_def split: prod.splits if_splits
        dest!: run_event_result)
qed

lemma sendto_Err_returns: "buf \<noteq> [] \<Longrightarrow> \<exists>sent pm'. sendto_Err buf pm = Inr (sent, pm')"
  by (simp add: sendto_Err_def Let_def split_def)

lemma sendto_Err_pm_ok:
  assumes "pm_ok pm" "sendto_Err buf pm = Inr (sent, pm')"
  shows "pm_ok pm'"
proof -
  have ne: "buf \<noteq> []" using assms(2) by (auto simp: sendto_Err_def)
  obtain res d pm2 where p:
    "processEvents buf (m_MsgNo pm + 1) (pm\<lparr>m_MsgNo := m_MsgNo pm + 1\<rparr>) = (res, d, pm2)"
    by (metis prod_cases3)
  have "pm_ok (pm\<lparr>m_MsgNo := m_MsgNo pm + 1\<rparr>)" using assms(1) by (simp add: pm_ok_def)
  from processEvents_result [OF this ne p] p assms(2) ne show ?thesis
    by (auto simp: sendto_Err_def Let_def)
qed

lemma xor_ff_neq: "(b :: byte) XOR 0xFF \<noteq> b"
proof
  assume "b XOR 0xFF = b"
  then have "b XOR (b XOR 0xFF) = b XOR b" by simp
  then show False by (simp flip: xor.assoc)
qed

lemma sendto_Err_delivers_or_is_detected:
  assumes "pm_ok pm" "buf \<noteq> []" "length buf < 65536" "in_cksum buf = 0"
    and "sendto_Err buf pm = Inr (sent, pm')"
  shows "pm_ok pm' \<and> (sent = None \<or> sent = Some buf
    \<or> (\<exists>d. sent = Some d \<and> length d = length buf \<and> in_cksum d \<noteq> 0))"
proof -
  obtain res d pm2 where p:
    "processEvents buf (m_MsgNo pm + 1) (pm\<lparr>m_MsgNo := m_MsgNo pm + 1\<rparr>) = (res, d, pm2)"
    by (metis prod_cases3)
  have "pm_ok (pm\<lparr>m_MsgNo := m_MsgNo pm + 1\<rparr>)" using assms(1) by (simp add: pm_ok_def)
  from processEvents_result [OF this assms(2) p]
  have r: "pm_ok pm2" "res = 2 \<or> d = buf \<or> (res = 1 \<and> flipped buf d)" by auto
  have "in_cksum d \<noteq> 0 \<and> length d = length buf" if "flipped buf d"
    using that cksum_detects_byte_change [OF assms(3,4)] xor_ff_neq by (auto simp: flipped_def)
  with r p assms(2,5) show ?thesis
    by (auto simp: sendto_Err_def Let_def split: if_splits)
qed

section \<open>Many packets\<close>

text \<open>
  The contract of a sender that may lose and damage packets, and what it gives for a run of
  sends: \<open>good\<close> packets have a checksum; what arrives of one is nothing, the packet itself, or
  something of the same length that the checksum rejects.
\<close>

definition good :: "byte list \<Rightarrow> bool" where
  "good d \<longleftrightarrow> d \<noteq> [] \<and> length d < 65536 \<and> in_cksum d = 0"

definition arrives :: "byte list \<Rightarrow> byte list option \<Rightarrow> bool" where
  "arrives d r \<longleftrightarrow> r = None \<or> r = Some d \<or> (\<exists>d'. r = Some d' \<and> length d' = length d \<and> in_cksum d' \<noteq> 0)"

fun send_all ::
  "(byte list \<Rightarrow> 'm \<Rightarrow> halt + (byte list option \<times> 'm)) \<Rightarrow> byte list list \<Rightarrow> 'm
   \<Rightarrow> halt + (byte list option list \<times> 'm)" where
  "send_all send [] m = Inr ([], m)"
| "send_all send (buf # bufs) m =
     bindE (send buf m) (\<lambda>(r, m). bindE (send_all send bufs m) (\<lambda>(rs, m). Inr (r # rs, m)))"

text \<open>What the receiver accepts: the packets with a good checksum.\<close>

fun accepted :: "byte list option list \<Rightarrow> byte list list" where
  "accepted [] = []"
| "accepted (None # rs) = accepted rs"
| "accepted (Some d # rs) = (if in_cksum d = 0 then d # accepted rs else accepted rs)"

lemma accepted_subseq: "list_all2 arrives bufs rs \<Longrightarrow> subseq (accepted rs) bufs"
proof (induction rule: list_all2_induct)
  case (Cons d bufs r rs)
  then show ?case by (cases r) (auto simp: arrives_def)
qed simp

locale lossy_sender =
  fixes send :: "byte list \<Rightarrow> 'm \<Rightarrow> halt + (byte list option \<times> 'm)"
    and ok :: "'m \<Rightarrow> bool"
  assumes send_returns: "ok m \<Longrightarrow> good d \<Longrightarrow> \<exists>r m'. send d m = Inr (r, m')"
    and send_keeps: "ok m \<Longrightarrow> send d m = Inr (r, m') \<Longrightarrow> ok m'"
    and send_arrives: "ok m \<Longrightarrow> good d \<Longrightarrow> send d m = Inr (r, m') \<Longrightarrow> arrives d r"
begin

lemma all_arrive:
  "ok m \<Longrightarrow> \<forall>d \<in> set bufs. good d \<Longrightarrow> \<exists>rs m'. send_all send bufs m = Inr (rs, m') \<and> list_all2 arrives bufs rs \<and> ok m'"
proof (induction bufs arbitrary: m)
  case (Cons d bufs)
  have d: "good d" using Cons.prems(2) by simp
  obtain r m1 where r: "send d m = Inr (r, m1)" using send_returns [OF Cons.prems(1) d] by blast
  have ok: "ok m1" by (rule send_keeps [OF Cons.prems(1) r])
  have arr: "arrives d r" by (rule send_arrives [OF Cons.prems(1) d r])
  obtain rs m2 where "send_all send bufs m1 = Inr (rs, m2)" "list_all2 arrives bufs rs" "ok m2"
    using Cons.IH [OF ok] Cons.prems(2) by auto
  with r arr show ?case by (intro exI [of _ "r # rs"] exI [of _ m2]) simp
qed simp

lemma receiver_sees_subseq:
  assumes "ok m" "\<forall>d \<in> set bufs. good d"
  shows "\<exists>rs m'. send_all send bufs m = Inr (rs, m') \<and> list_all2 arrives bufs rs \<and> subseq (accepted rs) bufs"
  using all_arrive [OF assms] accepted_subseq by blast

end

interpretation injection: lossy_sender sendto_Err pm_ok
proof
  show "\<exists>r m'. sendto_Err d m = Inr (r, m')" if "good d" for d m
    using sendto_Err_returns that by (auto simp: good_def)
  show "pm_ok m'" if "pm_ok m" "sendto_Err d m = Inr (r, m')" for d m r m'
    using sendto_Err_pm_ok that by blast
  show "arrives d r" if "pm_ok m" "good d" "sendto_Err d m = Inr (r, m')" for d m r m'
    using sendto_Err_delivers_or_is_detected [of m d r m'] that by (auto simp: good_def arrives_def)
qed

end
