(* ===== verification/Process.thy ===== *)
theory Process
  imports PollLib ErrorInjection
begin

text \<open>
  What a process of the program sees of the operating system, and the checked system calls of
  \<open>src/safeUtil.c\<close> over it: the datagrams and timeouts the kernel reports, the datagrams
  handed to the network, the poll set, the packet manager and the heap. The operations are
  polymorphic in the record, so \<open>rcopy\<close> and \<open>server\<close> extend it with their own variables.
\<close>

section \<open>Sockets and datagrams\<close>

record sockaddr_in6 =
  sin6_port :: u16
  sin6_addr :: "byte list"

record Connection =
  socketNum :: int
  info :: sockaddr_in6
  addrLen :: int

text \<open>
  The kernel's reports, in the order the process observes them: the timer of a poll expires
  with nothing to read, a datagram arrives, or the system call in progress fails. \<open>Hangup\<close> is a
  poll that finds a condition on descriptor 0, the standard input: POLLHUP, POLLERR and POLLNVAL are
  reported whether or not an entry asks for them, and the zeroed entries of the poll set all
  name descriptor 0. (No such condition arises on the socket: it is open and not connected.)
\<close>

datatype event = Timeout | Arrive sockaddr_in6 "byte list" | SysErr | Hangup

record proc =
  net_in :: "event list"
  net_out :: "(sockaddr_in6 \<times> byte list) list"
  send_errs :: "bool list"
  pm :: PacketManager
  polled :: pollset
  udp_sock :: int
  heap :: nat
  sockets :: "int list"

section \<open>poll\<close>

text \<open>
  The answer of \<open>poll\<close>: an entry is readable when it asks for \<open>POLLIN\<close> on the socket on
  which the datagram waits. A datagram stays in the socket until it is received. A hang-up shows in
  every entry for descriptor 0.
\<close>

definition poll_revents :: "int \<Rightarrow> pollset \<Rightarrow> int list" where
  "poll_revents s ps =
     map (\<lambda>e. if pfd e = s \<and> pevents e = POLLIN then POLLIN else 0)
       (take (nat (maxFileDescriptor ps)) (pollFileDescriptors ps))"

definition hangup_revents :: "pollset \<Rightarrow> int list" where
  "hangup_revents ps = map (\<lambda>e. if pfd e = 0 then POLLHUP else 0)
     (take (nat (maxFileDescriptor ps)) (pollFileDescriptors ps))"

definition pollCall :: "int \<Rightarrow> 'm proc_scheme \<Rightarrow> ('m proc_scheme, int) outcome" where
  "pollCall timeInMilliSeconds p =
     (case net_in p of
        [] \<Rightarrow> Stop Waiting p
      | SysErr # es \<Rightarrow> liftO (pollCall_result (- 1) []) (p\<lparr>net_in := es\<rparr>)
      | Timeout # es \<Rightarrow> liftO (pollCall_result 0 []) (p\<lparr>net_in := es\<rparr>)
      | Arrive a d # es \<Rightarrow>
          (let rs = poll_revents (udp_sock p) (polled p)
           in liftO (pollCall_result (int (length (filter (\<lambda>r. r \<noteq> 0) rs))) rs) p)
      | Hangup # es \<Rightarrow>
          (let rs = hangup_revents (polled p)
           in liftO (pollCall_result (int (length (filter (\<lambda>r. r \<noteq> 0) rs))) rs) (p\<lparr>net_in := es\<rparr>)))"

definition processPoll ::
  "int \<Rightarrow> int \<Rightarrow> int \<Rightarrow> 'a \<Rightarrow> 'a \<Rightarrow> 'a \<Rightarrow> 'm proc_scheme
   \<Rightarrow> ('m proc_scheme, 'a \<times> int) outcome" where
  "processPoll tryCount time maxTries pollTimeoutState receivedDataState doneState p =
     bindO (pollCall time p) (\<lambda>pollValue p.
       Ret (processPoll_result pollValue tryCount maxTries
              pollTimeoutState receivedDataState doneState) p)"

section \<open>recvfrom and sendto\<close>

text \<open>\<open>recvfrom\<close> blocks: the expiry of timers and the standard input are not its concern.\<close>

fun recvfrom :: "event list \<Rightarrow> (halt + (sockaddr_in6 \<times> byte list)) \<times> event list" where
  "recvfrom [] = (Inl Waiting, [])"
| "recvfrom (Timeout # es) = recvfrom es"
| "recvfrom (Hangup # es) = recvfrom es"
| "recvfrom (SysErr # es) = (Inl (Exit (- 1)), es)"
| "recvfrom (Arrive a d # es) = (Inr (a, d), es)"

definition safeRecvfrom ::
  "nat \<Rightarrow> 'm proc_scheme \<Rightarrow> ('m proc_scheme, sockaddr_in6 \<times> byte list) outcome" where
  "safeRecvfrom len p =
     (case recvfrom (net_in p) of (r, es) \<Rightarrow>
        liftO (map_sum id (\<lambda>(a, d). (a, take len d)) r) (p\<lparr>net_in := es\<rparr>))"

text \<open>
  \<open>safeSendto\<close> hands the buffer to \<open>sendtoErr\<close>; \<open>send_errs\<close> says which of the coming
  kernel calls fail (none once it is used up).
\<close>

definition kernel_sendto ::
  "sockaddr_in6 \<Rightarrow> byte list \<Rightarrow> 'm proc_scheme \<Rightarrow> ('m proc_scheme, unit) outcome" where
  "kernel_sendto a d p =
     (case send_errs p of
        True # fs \<Rightarrow> Stop (Exit (- 1)) (p\<lparr>send_errs := fs\<rparr>)
      | _ \<Rightarrow> Ret () (p\<lparr>net_out := net_out p @ [(a, d)], send_errs := drop 1 (send_errs p)\<rparr>))"

definition safeSendto ::
  "byte list \<Rightarrow> sockaddr_in6 \<Rightarrow> 'm proc_scheme \<Rightarrow> ('m proc_scheme, unit) outcome" where
  "safeSendto buf srcAddr p =
     bindO (liftO (sendto_Err buf (pm p)) p) (\<lambda>(sent, pm') p.
       let p = p\<lparr>pm := pm'\<rparr> in
       case sent of None \<Rightarrow> Ret () p | Some d \<Rightarrow> kernel_sendto srcAddr d p)"

section \<open>Memory and the poll set\<close>

text \<open>\<open>heap\<close> counts the bytes that the allocator can still give.\<close>

definition sCalloc :: "int \<Rightarrow> nat \<Rightarrow> 'm proc_scheme \<Rightarrow> ('m proc_scheme, unit) outcome" where
  "sCalloc nmemb sz p =
     (if 0 \<le> nmemb \<and> nat nmemb * sz \<le> heap p then Ret () (p\<lparr>heap := heap p - nat nmemb * sz\<rparr>)
      else Stop (Exit (- 1)) p)"

text \<open>The block at hand has \<open>old\<close> bytes, which count for the new one.\<close>

definition srealloc :: "nat \<Rightarrow> nat \<Rightarrow> 'm proc_scheme \<Rightarrow> ('m proc_scheme, unit) outcome" where
  "srealloc old sz p =
     (if sz \<le> heap p + old then Ret () (p\<lparr>heap := heap p + old - sz\<rparr>) else Stop (Exit (- 1)) p)"

abbreviation (input) sizeof_pollfd :: nat where "sizeof_pollfd \<equiv> 8"

definition setupPollSet :: "'m proc_scheme \<Rightarrow> ('m proc_scheme, unit) outcome" where
  "setupPollSet p =
     (let p = p\<lparr>polled := (polled p)\<lparr>currentPollSetSize := POLL_SET_SIZE\<rparr>\<rparr> in
      bindO (sCalloc POLL_SET_SIZE sizeof_pollfd p) (\<lambda>_ p.
        Ret () (p\<lparr>polled := (polled p)\<lparr>pollFileDescriptors := replicate (nat POLL_SET_SIZE) zero_pollfd\<rparr>\<rparr>)))"

definition growPollSet :: "int \<Rightarrow> 'm proc_scheme \<Rightarrow> ('m proc_scheme, unit) outcome" where
  "growPollSet newSetSize p =
     (let size = currentPollSetSize (polled p) in
      if newSetSize \<le> size then Stop (Exit (- 1)) p
      else
        bindO (srealloc (nat size * sizeof_pollfd) (nat newSetSize * sizeof_pollfd) p) (\<lambda>_ p.
          Ret () (p\<lparr>polled := (polled p)\<lparr>pollFileDescriptors :=
                       take (nat size) (pollFileDescriptors (polled p))
                       @ replicate (nat newSetSize - nat size) zero_pollfd,
                     currentPollSetSize := newSetSize\<rparr>\<rparr>)))"

definition addToPollSet :: "int \<Rightarrow> 'm proc_scheme \<Rightarrow> ('m proc_scheme, unit) outcome" where
  "addToPollSet socketNumber p =
     bindO (if currentPollSetSize (polled p) \<le> socketNumber
            then growPollSet (socketNumber + POLL_SET_SIZE) p else Ret () p) (\<lambda>_ p.
     let ps = polled p;
         ps = (if maxFileDescriptor ps \<le> socketNumber + 1
               then ps\<lparr>maxFileDescriptor := socketNumber + 1\<rparr> else ps) in
     bindO (liftO (set_pollfd socketNumber \<lparr>pfd = socketNumber, pevents = POLLIN\<rparr> ps) p) (\<lambda>ps p.
       Ret () (p\<lparr>polled := ps\<rparr>)))"

section \<open>Facts about the system calls\<close>

text \<open>The poll set that \<open>setupPollSet\<close> makes out of the static variables.\<close>

definition fresh_pollset :: pollset where
  "fresh_pollset = \<lparr>pollFileDescriptors = replicate 10 zero_pollfd, maxFileDescriptor = 0, currentPollSetSize = 10\<rparr>"

lemma fresh_pollset_ok: "pollset_ok fresh_pollset"
  by (simp add: pollset_ok_def fresh_pollset_def)

lemma setupPollSet_eq:
  "polled p = static_pollset \<Longrightarrow> setupPollSet p =
    (if 80 \<le> heap p then Ret () (p\<lparr>heap := heap p - 80, polled := fresh_pollset\<rparr>)
     else Stop (Exit (- 1)) (p\<lparr>polled := static_pollset\<lparr>currentPollSetSize := 10\<rparr>\<rparr>))"
  by (simp add: setupPollSet_def sCalloc_def Let_def static_pollset_def fresh_pollset_def)

text \<open>The bytes a poll set with room for the socket takes, counted generously.\<close>

definition poll_memory :: "int \<Rightarrow> nat" where
  "poll_memory s = sizeof_pollfd * nat (s + POLL_SET_SIZE)"

text \<open>
  What adding a socket brings: no descriptor is forgotten, and only the heap and the poll set
  have changed.
\<close>

definition poll_added :: "int \<Rightarrow> 'm proc_scheme \<Rightarrow> 'm proc_scheme \<Rightarrow> bool" where
  "poll_added s p p' \<longleftrightarrow> (\<exists>ps h. p' = p\<lparr>heap := h, polled := ps\<rparr> \<and> pollset_ok ps \<and> is_polled s ps
     \<and> (\<forall>t. is_polled t (polled p) \<longrightarrow> is_polled t ps))"

lemma growPollSet_ends:
  assumes "pollset_ok (polled p)" "currentPollSetSize (polled p) < n"
  shows "ends (growPollSet n p)
    (\<lambda>_ p'. \<exists>ps h. p' = p\<lparr>heap := h, polled := ps\<rparr> \<and> pollset_ok ps \<and> currentPollSetSize ps = n
       \<and> maxFileDescriptor ps = maxFileDescriptor (polled p)
       \<and> (\<forall>t. is_polled t (polled p) \<longrightarrow> is_polled t ps)) (\<lambda>p'. p' = p)"
proof -
  let ?ps = "polled p"
  let ?new = "?ps\<lparr>pollFileDescriptors := take (nat (currentPollSetSize ?ps)) (pollFileDescriptors ?ps)
    @ replicate (nat n - nat (currentPollSetSize ?ps)) zero_pollfd, currentPollSetSize := n\<rparr>"
  have new: "pollset_ok ?new" "\<forall>t. is_polled t ?ps \<longrightarrow> is_polled t ?new"
    using assms by (auto simp: pollset_ok_def is_polled_def nth_append)
  show ?thesis
  proof (cases "nat n * sizeof_pollfd \<le> heap p + nat (currentPollSetSize ?ps) * sizeof_pollfd")
    case True
    then have "growPollSet n p = Ret () (p\<lparr>heap := heap p + nat (currentPollSetSize ?ps) * sizeof_pollfd
        - nat n * sizeof_pollfd, polled := ?new\<rparr>)"
      using assms(2) by (simp add: growPollSet_def srealloc_def Let_def)
    then show ?thesis using new by (simp only: ends_Ret) (rule exI, rule exI, intro conjI refl, simp_all)
  next
    case False
    then have "growPollSet n p = Stop (Exit (- 1)) p"
      using assms(2) by (simp add: growPollSet_def srealloc_def Let_def)
    then show ?thesis by simp
  qed
qed

lemma addToPollSet_ends:
  assumes "pollset_ok (polled p)" "0 \<le> s"
  shows "ends (addToPollSet s p) (\<lambda>_. poll_added s p) (\<lambda>p'. p' = p)"
proof -
  let ?grow = "if currentPollSetSize (polled p) \<le> s then growPollSet (s + POLL_SET_SIZE) p else Ret () p"
  have grow: "ends ?grow (\<lambda>_ p'. \<exists>ps h. p' = p\<lparr>heap := h, polled := ps\<rparr> \<and> pollset_ok ps \<and> s < currentPollSetSize ps
       \<and> (\<forall>t. is_polled t (polled p) \<longrightarrow> is_polled t ps)) (\<lambda>p'. p' = p)"
  proof (cases "currentPollSetSize (polled p) \<le> s")
    case True
    then have "currentPollSetSize (polled p) < s + POLL_SET_SIZE" by simp
    from growPollSet_ends [OF assms(1) this] True show ?thesis by (auto elim!: ends_mono)
  next
    case False
    then show ?thesis
      using assms(1) by (auto intro!: exI [of _ "polled p"] exI [of _ "heap p"])
  qed
  show ?thesis
  proof (cases ?grow)
    case (Stop h q)
    then have "addToPollSet s p = Stop h q" by (simp only: addToPollSet_def bindO.simps)
    with grow Stop show ?thesis by simp
  next
    case (Ret u q)
    with grow obtain ps1 hp where q: "q = p\<lparr>heap := hp, polled := ps1\<rparr>" and
      ps1: "pollset_ok ps1" "s < currentPollSetSize ps1" "\<forall>t. is_polled t (polled p) \<longrightarrow> is_polled t ps1" by auto
    define ps2 where "ps2 = (if maxFileDescriptor ps1 \<le> s + 1 then ps1\<lparr>maxFileDescriptor := s + 1\<rparr> else ps1)"
    have ps2: "pollset_ok ps2" "s < currentPollSetSize ps2" "s < maxFileDescriptor ps2"
      "\<forall>t. is_polled t ps1 \<longrightarrow> is_polled t ps2"
      using ps1(1,2) assms(2) by (auto simp: ps2_def pollset_ok_def is_polled_def)
    let ?e = "\<lparr>pfd = s, pevents = POLLIN\<rparr>"
    let ?ps = "ps2\<lparr>pollFileDescriptors := (pollFileDescriptors ps2)[nat s := ?e]\<rparr>"
    have "addToPollSet s p = Ret () (p\<lparr>heap := hp, polled := ?ps\<rparr>)"
      unfolding addToPollSet_def Ret bindO.simps
      using set_pollfd_inside [OF ps2(1) assms(2) ps2(2), of ?e] by (simp add: q Let_def ps2_def)
    moreover have "pollset_ok ?ps"
      using assms(2) by (intro set_pollfd_ok [OF ps2(1)]) simp
    moreover have "nat s < length (pollFileDescriptors ps2)"
      using ps2(1,2) assms(2) by (simp add: pollset_ok_def nat_less_iff)
    then have "is_polled s ?ps" "\<forall>t. is_polled t ps2 \<longrightarrow> is_polled t ?ps"
      using ps2(3) assms(2) by (auto simp: is_polled_def nth_list_update)
    ultimately show ?thesis using ps1(3) ps2(4) unfolding poll_added_def
      by (simp only: ends_Ret) blast
  qed
qed

lemma addToPollSet_Ret:
  "addToPollSet s p = Ret u p' \<Longrightarrow> pollset_ok (polled p) \<Longrightarrow> 0 \<le> s \<Longrightarrow> poll_added s p p'"
  using addToPollSet_ends [of p s] by simp

lemma addToPollSet_memory:
  assumes "pollset_ok (polled p)" "0 \<le> s"
    and "poll_memory s \<le> heap p + sizeof_pollfd * nat (currentPollSetSize (polled p))"
  shows "\<exists>p'. addToPollSet s p = Ret () p' \<and> poll_added s p p'"
proof (cases "addToPollSet s p")
  case (Ret u p')
  then show ?thesis using addToPollSet_Ret [OF Ret assms(1,2)] by simp
next
  case (Stop h q)
  have "currentPollSetSize (polled p) \<le> s \<Longrightarrow> growPollSet (s + POLL_SET_SIZE) p \<noteq> Stop h q"
    using assms(3) by (auto simp: growPollSet_def srealloc_def poll_memory_def Let_def mult.commute)
  moreover from addToPollSet_ends [OF assms(1,2)] Stop obtain i where "h = Exit i" by auto
  ultimately show ?thesis
    using Stop by (auto simp: addToPollSet_def run_simps Let_def set_pollfd_def split: if_splits)
qed

text \<open>
  C35. \<open>addToPollSet\<close> keeps the invariant of the poll set, growing it when needed;
  the socket is polled from then on, and so is every socket that was polled before. The only other
  thing it can do is to exit because there is no memory for a larger poll set.
\<close>

theorem addToPollSet_polled:
  assumes "pollset_ok (polled p)" "0 \<le> s"
  shows "ends (addToPollSet s p)
      (\<lambda>_ p'. pollset_ok (polled p') \<and> is_polled s (polled p')
         \<and> (\<forall>t. is_polled t (polled p) \<longrightarrow> is_polled t (polled p')))
      (\<lambda>p'. heap p + sizeof_pollfd * nat (currentPollSetSize (polled p)) < poll_memory s)"
proof (cases "addToPollSet s p")
  case (Ret u p')
  with addToPollSet_Ret [OF Ret assms] show ?thesis by (auto simp: poll_added_def)
next
  case (Stop h q)
  then show ?thesis
    using addToPollSet_ends [OF assms] addToPollSet_memory [OF assms] by (auto simp: not_less [symmetric])
qed

theorem addToPollSet_polled_witness:
  "ends (addToPollSet 12 \<lparr>net_in = [], net_out = [], send_errs = [], pm = g_PktMgr 0, polled = fresh_pollset,
      udp_sock = 0, heap = 96, sockets = []\<rparr>)
    (\<lambda>_ p'. pollset_ok (polled p') \<and> is_polled 12 (polled p')
       \<and> (\<forall>t. is_polled t fresh_pollset \<longrightarrow> is_polled t (polled p')))
    (\<lambda>p'. 96 + sizeof_pollfd * nat (currentPollSetSize fresh_pollset) < poll_memory 12)"
  using addToPollSet_polled [of "\<lparr>net_in = [], net_out = [], send_errs = [], pm = g_PktMgr 0, polled = fresh_pollset,
      udp_sock = 0, heap = 96, sockets = []\<rparr>" 12] fresh_pollset_ok by simp

text \<open>The process's socket is polled, as it is from the moment it is added.\<close>

definition proc_ok :: "'m proc_scheme \<Rightarrow> bool" where
  "proc_ok p \<longleftrightarrow> pollset_ok (polled p) \<and> 0 < udp_sock p \<and> is_polled (udp_sock p) (polled p)
     \<and> pm_ok (pm p)"

lemma poll_revents_ready:
  assumes "pollset_ok ps" "0 < s" "is_polled s ps"
  shows "first_ready 0 (poll_revents s ps) = s"
    "0 < length (filter (\<lambda>r. r \<noteq> 0) (poll_revents s ps))"
proof -
  let ?rs = "poll_revents s ps"
  have len: "nat s < length ?rs"
    using assms by (simp add: poll_revents_def is_polled_def)
  have nth: "?rs ! k = (if k = nat s then POLLIN else 0)" if "k < length ?rs" for k
    using that assms
    by (auto simp: poll_revents_def pollset_ok_def is_polled_def zero_pollfd_def dest: spec [of _ k])
  have "POLLIN \<in> set ?rs" using nth_mem [OF len] nth [OF len] by simp
  then show "0 < length (filter (\<lambda>r. r \<noteq> 0) ?rs)"
    by (metis (mono_tags) filter_empty_conv length_greater_0_conv zero_neq_one)
  from first_ready_spec [of 0 ?rs "first_ready 0 ?rs"]
  show "first_ready 0 ?rs = s"
    using len nth [OF len] nth assms(2) by (auto simp: all_set_conv_all_nth split: if_splits)
qed

lemma pollCall_ready [run_simps]:
  "proc_ok p \<Longrightarrow> net_in p = Arrive a d # es \<Longrightarrow> pollCall t p = Ret (udp_sock p) p"
  using poll_revents_ready [of "polled p" "udp_sock p"]
  by (simp add: pollCall_def proc_ok_def pollCall_result_def)

lemma pollCall_timeout [run_simps]:
  "net_in p = Timeout # es \<Longrightarrow> pollCall t p = Ret (- 1) (p\<lparr>net_in := es\<rparr>)"
  by (simp add: pollCall_def pollCall_result_def)

lemma hangup_revents_ready:
  assumes "pollset_ok ps" "0 < s" "is_polled s ps"
  shows "\<exists>rs. hangup_revents ps = POLLHUP # rs"
proof -
  have len: "0 < nat (maxFileDescriptor ps)" "0 < length (pollFileDescriptors ps)"
    using assms(2,3) by (auto simp: is_polled_def)
  then obtain e fds where e: "pollFileDescriptors ps = e # fds" by (cases "pollFileDescriptors ps") auto
  obtain m where m: "nat (maxFileDescriptor ps) = Suc m" using len(1) by (cases "nat (maxFileDescriptor ps)") auto
  have "pfd (pollFileDescriptors ps ! 0) = 0"
    using assms(1) len(2) unfolding pollset_ok_def by (auto simp: zero_pollfd_def)
  then show ?thesis unfolding hangup_revents_def m e by simp
qed

text \<open>A condition on the standard input makes \<open>pollCall\<close> return 0, whatever else is ready.\<close>

lemma pollCall_hangup [run_simps]:
  assumes "proc_ok p" "net_in p = Hangup # es"
  shows "pollCall t p = Ret 0 (p\<lparr>net_in := es\<rparr>)"
proof -
  obtain rs where "hangup_revents (polled p) = POLLHUP # rs"
    using hangup_revents_ready [of "polled p" "udp_sock p"] assms(1) by (auto simp: proc_ok_def)
  with assms(2) show ?thesis by (simp add: pollCall_def pollCall_result_def)
qed

lemma pollCall_SysErr [run_simps]:
  "net_in p = SysErr # es \<Longrightarrow> pollCall t p = Stop (Exit (- 1)) (p\<lparr>net_in := es\<rparr>)"
  by (simp add: pollCall_def pollCall_result_def)

lemma pollCall_waiting [run_simps]: "net_in p = [] \<Longrightarrow> pollCall t p = Stop Waiting p"
  by (simp add: pollCall_def)

lemma recvfrom_shorter: "recvfrom es = (Inr x, es') \<Longrightarrow> length es' < length es"
  by (induction es rule: recvfrom.induct) auto

lemma recvfrom_no_exit0: "recvfrom es = (Inl (Exit 0), es') \<Longrightarrow> False"
  by (induction es rule: recvfrom.induct) auto

lemma recvfrom_only_timeouts: "set ts \<subseteq> {Timeout, Hangup} \<Longrightarrow> recvfrom ts = (Inl Waiting, [])"
  by (induction ts) auto

lemma recvfrom_timeouts: "set ts \<subseteq> {Timeout, Hangup} \<Longrightarrow> recvfrom (ts @ es) = recvfrom es"
  by (induction ts) auto

text \<open>Reports that a poll followed by \<open>recvfrom\<close> passes over without taking the poll for a hang-up.\<close>

definition passes :: "event list \<Rightarrow> bool" where
  "passes ts \<longleftrightarrow> set ts \<subseteq> {Timeout, Hangup} \<and> (\<forall>ts'. ts \<noteq> Hangup # ts')"

lemma passes_Nil [simp]: "passes []"
  by (simp add: passes_def)

text \<open>
  What a send can do: fail and end the process, or give the network nothing, the buffer itself,
  or a buffer of the same length that every receiver rejects.
\<close>

definition link_effect :: "sockaddr_in6 \<Rightarrow> byte list \<Rightarrow> (sockaddr_in6 \<times> byte list) list \<Rightarrow> bool" where
  "link_effect a buf out \<longleftrightarrow> out = [] \<or> out = [(a, buf)]
     \<or> (\<exists>d. out = [(a, d)] \<and> length d = length buf \<and> in_cksum d \<noteq> 0)"

definition sent_state ::
  "(sockaddr_in6 \<times> byte list) list \<Rightarrow> 'm proc_scheme \<Rightarrow> 'm proc_scheme \<Rightarrow> bool" where
  "sent_state out p p' \<longleftrightarrow> (\<exists>fs pm'. pm_ok pm' \<and>
     p' = p\<lparr>pm := pm', net_out := net_out p @ out, send_errs := fs\<rparr>)"

lemma safeSendto_result:
  assumes "pm_ok (pm p)" "buf \<noteq> []" "length buf < 65536" "in_cksum buf = 0"
  shows "\<exists>out p'. link_effect a buf out \<and> sent_state out p p' \<and>
    (safeSendto buf a p = Ret () p' \<or> (out = [] \<and> safeSendto buf a p = Stop (Exit (- 1)) p'))"
proof -
  obtain sent pm' where s: "sendto_Err buf (pm p) = Inr (sent, pm')"
    using sendto_Err_returns [OF assms(2)] by blast
  from sendto_Err_delivers_or_is_detected [OF assms s] have pm': "pm_ok pm'"
    and sent: "sent = None \<or> sent = Some buf
      \<or> (\<exists>d. sent = Some d \<and> length d = length buf \<and> in_cksum d \<noteq> 0)" by auto
  show ?thesis
  proof (cases sent)
    case None
    then have "safeSendto buf a p = Ret () (p\<lparr>pm := pm'\<rparr>)" using s by (simp add: safeSendto_def)
    moreover have "sent_state [] p (p\<lparr>pm := pm'\<rparr>)"
      unfolding sent_state_def using pm' by (intro exI [of _ "send_errs p"] exI [of _ pm']) simp
    ultimately show ?thesis unfolding link_effect_def by blast
  next
    case (Some d)
    then have k: "safeSendto buf a p = kernel_sendto a d (p\<lparr>pm := pm'\<rparr>)"
      using s by (simp add: safeSendto_def)
    have l: "link_effect a buf [(a, d)]" using sent Some by (auto simp: link_effect_def)
    show ?thesis
    proof (cases "\<exists>fs. send_errs p = True # fs")
      case True
      then obtain fs where "kernel_sendto a d (p\<lparr>pm := pm'\<rparr>)
          = Stop (Exit (- 1)) (p\<lparr>pm := pm', send_errs := fs\<rparr>)"
        by (auto simp: kernel_sendto_def)
      moreover have "sent_state [] p (p\<lparr>pm := pm', send_errs := fs\<rparr>)"
        unfolding sent_state_def using pm' by (intro exI [of _ fs] exI [of _ pm']) simp
      ultimately show ?thesis unfolding k link_effect_def by blast
    next
      case False
      let ?p = "p\<lparr>pm := pm', net_out := net_out p @ [(a, d)], send_errs := drop 1 (send_errs p)\<rparr>"
      have "kernel_sendto a d (p\<lparr>pm := pm'\<rparr>) = Ret () ?p"
        using False by (auto simp: kernel_sendto_def split: list.splits bool.splits)
      moreover have "sent_state [(a, d)] p ?p"
        unfolding sent_state_def using pm' by blast
      ultimately show ?thesis unfolding k using l by blast
    qed
  qed
qed

text \<open>
  Whatever is sent, a send that returns touches the packet manager and the output only.
\<close>

lemma safeSendto_shape:
  assumes "safeSendto buf a p = Ret x p'"
  shows "\<exists>pm' out fs. p' = p\<lparr>pm := pm', net_out := out, send_errs := fs\<rparr>"
proof -
  obtain sent pm' where s: "sendto_Err buf (pm p) = Inr (sent, pm')"
    using assms by (auto simp: safeSendto_def run_simps)
  show ?thesis
  proof (cases sent)
    case None
    then have "p' = p\<lparr>pm := pm', net_out := net_out p, send_errs := send_errs p\<rparr>"
      using s assms by (auto simp: safeSendto_def)
    then show ?thesis by blast
  next
    case (Some d)
    then have "p' = p\<lparr>pm := pm', net_out := net_out p @ [(a, d)], send_errs := drop 1 (send_errs p)\<rparr>"
      using s assms by (auto simp: safeSendto_def kernel_sendto_def Let_def split: list.splits bool.splits)
    then show ?thesis by blast
  qed
qed

lemma safeSendto_frame:
  assumes "pm_ok (pm p)" "safeSendto buf a p = Ret x p'"
  shows "\<exists>out. sent_state out p p'"
proof -
  obtain sent pm' where s: "sendto_Err buf (pm p) = Inr (sent, pm')"
    using assms(2) by (auto simp: safeSendto_def run_simps)
  have pm': "pm_ok pm'" using sendto_Err_pm_ok [OF assms(1) s] .
  show ?thesis
  proof (cases sent)
    case None
    then have "p' = p\<lparr>pm := pm'\<rparr>"
      using s assms(2) by (auto simp: safeSendto_def)
    then have "p' = p\<lparr>pm := pm', net_out := net_out p @ [], send_errs := send_errs p\<rparr>" by simp
    then show ?thesis unfolding sent_state_def using pm' by blast
  next
    case (Some d)
    then have "p' = p\<lparr>pm := pm', net_out := net_out p @ [(a, d)], send_errs := drop 1 (send_errs p)\<rparr>"
      using s assms(2) by (auto simp: safeSendto_def kernel_sendto_def Let_def split: list.splits bool.splits)
    then show ?thesis unfolding sent_state_def using pm' by blast
  qed
qed

text \<open>What a handler leaves alone when it only computes and sends.\<close>

definition proc_frame :: "'m proc_scheme \<Rightarrow> 'm proc_scheme \<Rightarrow> bool" where
  "proc_frame p p' \<longleftrightarrow> net_in p' = net_in p \<and> polled p' = polled p \<and> udp_sock p' = udp_sock p
     \<and> sockets p' = sockets p \<and> (pm_ok (pm p) \<longrightarrow> pm_ok (pm p'))"

lemma proc_frame_refl [simp]: "proc_frame p p"
  by (simp add: proc_frame_def)

lemma proc_frame_trans: "proc_frame p q \<Longrightarrow> proc_frame q r \<Longrightarrow> proc_frame p r"
  by (simp add: proc_frame_def)

lemma proc_frame_ok: "proc_frame p p' \<Longrightarrow> proc_ok p \<Longrightarrow> proc_ok p'"
  by (simp add: proc_frame_def proc_ok_def)

lemma sent_state_frame: "sent_state out p p' \<Longrightarrow> proc_frame p p'"
  by (auto simp: sent_state_def proc_frame_def)

lemma pollCall_cases:
  assumes "proc_ok p" "pollCall t p = Ret v p'"
  obtains a d es where "net_in p = Arrive a d # es" "v = udp_sock p" "0 < v" "p' = p"
    | es where "net_in p = Timeout # es" "v = - 1" "p' = p\<lparr>net_in := es\<rparr>"
    | es where "net_in p = Hangup # es" "v = 0" "p' = p\<lparr>net_in := es\<rparr>"
proof (cases "net_in p")
  case Nil
  then have "pollCall t p = Stop Waiting p" by (rule pollCall_waiting)
  with assms(2) show ?thesis by simp
next
  case (Cons e es)
  show ?thesis
  proof (cases e)
    case Timeout
    with Cons have net: "net_in p = Timeout # es" by simp
    from pollCall_timeout [OF this, of t] assms(2) have "v = - 1" "p' = p\<lparr>net_in := es\<rparr>" by simp_all
    with net show ?thesis by (rule that(2))
  next
    case (Arrive a d)
    with Cons have net: "net_in p = Arrive a d # es" by simp
    from pollCall_ready [OF assms(1) this, of t] assms have "v = udp_sock p" "0 < v" "p' = p"
      by (simp_all add: proc_ok_def)
    with net show ?thesis by (rule that(1))
  next
    case SysErr
    with Cons have "net_in p = SysErr # es" by simp
    from pollCall_SysErr [OF this, of t] assms(2) show ?thesis by simp
  next
    case Hangup
    with Cons have net: "net_in p = Hangup # es" by simp
    from pollCall_hangup [OF assms(1) this, of t] assms(2) have "v = 0" "p' = p\<lparr>net_in := es\<rparr>" by simp_all
    with net show ?thesis by (rule that(3))
  qed
qed

lemma safeRecvfrom_Ret:
  assumes "safeRecvfrom n p = Ret x p'"
  shows "\<exists>es. p' = p\<lparr>net_in := es\<rparr> \<and> length es < length (net_in p)"
proof -
  obtain r es where r: "recvfrom (net_in p) = (r, es)" by fastforce
  with assms have "p' = p\<lparr>net_in := es\<rparr>" "\<exists>y. r = Inr y"
    by (auto simp: safeRecvfrom_def run_simps map_sum_def split: sum.splits)
  with r recvfrom_shorter [of "net_in p" _ es] show ?thesis by blast
qed

lemma proc_ok_net_in [simp]: "proc_ok (p\<lparr>net_in := es\<rparr>) \<longleftrightarrow> proc_ok p"
  by (simp add: proc_ok_def)

text \<open>
  \<open>processPoll\<close> on a polled socket: a datagram resets the count, an expired timer raises it and
  is the last one when it reaches \<open>maxTries\<close>. A hang-up of the standard input counts as an
  expired timer, since the test is \<open>pollCall(time) > 0\<close>.
\<close>

lemma processPoll_hangup [run_simps]:
  "proc_ok p \<Longrightarrow> net_in p = Hangup # es \<Longrightarrow> processPoll n t m X R D p =
     Ret (if m \<le> n + 1 then D else X, n + 1) (p\<lparr>net_in := es\<rparr>)"
  by (simp add: processPoll_def run_simps processPoll_result_def Let_def)

lemma processPoll_cases:
  assumes "proc_ok p" "processPoll n t m X R D p = Ret (st, n') p'"
  obtains a d es where "net_in p = Arrive a d # es" "st = R" "n' = 0" "p' = p"
    | e es where "net_in p = e # es" "e \<in> {Timeout, Hangup}" "st = (if m \<le> n + 1 then D else X)" "n' = n + 1"
      "p' = p\<lparr>net_in := es\<rparr>"
proof -
  from assms(2) obtain v q where q: "pollCall t p = Ret v q"
    and r: "processPoll_result v n m X R D = (st, n')" "p' = q"
    by (auto simp: processPoll_def run_simps)
  from assms(1) q show ?thesis
  proof (cases rule: pollCall_cases)
    case (1 a d es)
    with r have "st = R" "n' = 0" "p' = p" by (auto simp: processPoll_result_def Let_def)
    with 1(1) show ?thesis by (rule that(1))
  next
    case (2 es)
    with r have "st = (if m \<le> n + 1 then D else X)" "n' = n + 1" "p' = p\<lparr>net_in := es\<rparr>"
      by (simp_all add: processPoll_result_def Let_def split: if_splits)
    with 2(1) show ?thesis by (intro that(2) [of Timeout es]) simp_all
  next
    case (3 es)
    with r have "st = (if m \<le> n + 1 then D else X)" "n' = n + 1" "p' = p\<lparr>net_in := es\<rparr>"
      by (simp_all add: processPoll_result_def Let_def split: if_splits)
    with 3(1) show ?thesis by (intro that(2) [of Hangup es]) simp_all
  qed
qed

lemma processPoll_progress:
  assumes "proc_ok p" "processPoll n t m X R D p = Ret (st, n') p'"
  shows "polled p' = polled p \<and> pm p' = pm p \<and> udp_sock p' = udp_sock p \<and> sockets p' = sockets p
    \<and> (net_in p' = net_in p \<and> st = R \<or> length (net_in p') < length (net_in p) \<and> st \<in> {D, X})"
  using assms by (cases rule: processPoll_cases) auto

lemma processPoll_timeout [run_simps]:
  "net_in p = Timeout # es \<Longrightarrow> processPoll n t m X R D p =
     Ret (if m \<le> n + 1 then D else X, n + 1) (p\<lparr>net_in := es\<rparr>)"
  by (simp add: processPoll_def run_simps processPoll_result_def Let_def)

lemma processPoll_ready [run_simps]:
  "proc_ok p \<Longrightarrow> net_in p = Arrive a d # es \<Longrightarrow> processPoll n t m X R D p = Ret (R, 0) p"
  by (simp add: processPoll_def run_simps processPoll_result_def Let_def proc_ok_def)

text \<open>When no system call fails, a send returns.\<close>

lemma safeSendto_no_error:
  assumes "buf \<noteq> []" "send_errs p = []"
  shows "\<exists>p'. safeSendto buf a p = Ret () p' \<and> send_errs p' = []"
proof -
  obtain sent pm' where "sendto_Err buf (pm p) = Inr (sent, pm')"
    using sendto_Err_returns [OF assms(1)] by blast
  with assms(2) show ?thesis
    by (cases sent) (simp_all add: safeSendto_def kernel_sendto_def)
qed

end
