(* ===== verification/PduHelpers.thy ===== *)
theory PduHelpers
  imports Process "HOL-Library.Sublist"
begin

text \<open>
  \<open>src/pduHelpers.c\<close>: building a PDU (sequence number in network order, checksum, flag,
  payload), taking one apart, and the two calls that move PDUs through the socket. The locale
  \<open>codec\<close> is what the two programs rely on: what was encoded is decoded again, and what the
  link has damaged is not decoded at all.
\<close>

section \<open>The operations\<close>

definition createPDU ::
  "byte list \<Rightarrow> u32 \<Rightarrow> byte \<Rightarrow> byte list \<Rightarrow> int \<Rightarrow> halt + (byte list \<times> int)" where
  "createPDU pduBuffer sequenceNumber flag payload payloadLen =
     (let pduLength = 4 + 2 + 1 + payloadLen in
      bindE (memcpy pduBuffer 0 (bytes32 (htonl sequenceNumber)) 4) (\<lambda>pduBuffer.
      bindE (memcpy pduBuffer 4 (bytes16 0) 2) (\<lambda>pduBuffer.
      bindE (memcpy pduBuffer 6 [flag] 1) (\<lambda>pduBuffer.
      bindE (memcpy pduBuffer 7 payload payloadLen) (\<lambda>pduBuffer.
      bindE (memcpy pduBuffer 4 (bytes16 (in_cksum (take (nat pduLength) pduBuffer))) 2)
        (\<lambda>pduBuffer. Inr (pduBuffer, pduLength)))))))"

definition checkChecksum :: "byte list \<Rightarrow> int \<Rightarrow> crc_status" where
  "checkChecksum aPDU pduLength =
     (if in_cksum (take (nat pduLength) aPDU) = 0 then CRC_GOOD else CRC_ERROR)"

text \<open>The flag, the sequence number, the checksum status and the payload length.\<close>

definition retrieveHeader :: "byte list \<Rightarrow> int \<Rightarrow> byte \<times> u32 \<times> crc_status \<times> int" where
  "retrieveHeader pdu pduLen =
     (let checksumStatus = checkChecksum pdu pduLen;
          seqNum = word32 (take 4 pdu);
          flag = pdu ! 6;
          seqNum = ntohl seqNum;
          payloadLen = pduLen - int PDU_HEADER_SIZE
      in (flag, seqNum, checksumStatus, payloadLen))"

definition sendPDU ::
  "Connection \<Rightarrow> byte list \<Rightarrow> int \<Rightarrow> byte \<Rightarrow> u32 \<Rightarrow> 'm proc_scheme \<Rightarrow> ('m proc_scheme, unit) outcome"
  where
  "sendPDU connection payload payloadLen flag seqNum p =
     bindO (liftO (createPDU (replicate MAX_PDU_SIZE 0) seqNum flag payload payloadLen) p)
       (\<lambda>(pdu, pduLen). safeSendto (take (nat pduLen) pdu) (info connection))"

definition sendFlagOnly ::
  "Connection \<Rightarrow> byte \<Rightarrow> u32 \<Rightarrow> 'm proc_scheme \<Rightarrow> ('m proc_scheme, unit) outcome" where
  "sendFlagOnly connection flag seqNum = sendPDU connection [] 0 flag seqNum"

text \<open>
  A receive buffer: \<open>MAX_PDU_SIZE\<close> zeroed bytes, of which \<open>recvfrom\<close> fills the first ones.
\<close>

definition recv_buffer :: "byte list \<Rightarrow> byte list" where
  "recv_buffer d = d @ replicate (MAX_PDU_SIZE - length d) 0"

text \<open>
  \<open>retrievePDU\<close> also records the sender as the connection's peer. The copy of the payload comes
  before the checksum status is looked at.
\<close>

definition retrievePDU ::
  "Connection \<Rightarrow> byte list \<Rightarrow> 'm proc_scheme
   \<Rightarrow> ('m proc_scheme, Connection \<times> byte \<times> u32 \<times> crc_status \<times> byte list \<times> int) outcome" where
  "retrievePDU connection payload p =
     bindO (safeRecvfrom MAX_PDU_SIZE p) (\<lambda>(from, d) p.
       let pdu = recv_buffer d in
       case retrieveHeader pdu (int (length d)) of (flag, seqNum, checksumResult, payloadSize) \<Rightarrow>
       bindO (liftO (memcpy payload 0 (drop PDU_HEADER_SIZE pdu) payloadSize) p) (\<lambda>payload p.
         Ret (connection\<lparr>info := from\<rparr>, flag, seqNum, checksumResult, payload, payloadSize) p))"

text \<open>\<open>printPDU\<close> prints nothing but a heading for a damaged PDU; else the four fields.\<close>

definition printPDU :: "byte list \<Rightarrow> int \<Rightarrow> halt + (u32 \<times> byte \<times> int \<times> byte list) option" where
  "printPDU aPDU pduLength =
     (if checkChecksum aPDU pduLength = CRC_ERROR then Inr None
      else
        let sequenceNumber_h = ntohl (word32 (take 4 aPDU));
            flag = aPDU ! 6;
            payloadLen = pduLength - 4 - 2 - 1 in
        bindE (memcpy (replicate 1400 0) 0 (drop 7 aPDU) payloadLen) (\<lambda>payload.
          Inr (Some (sequenceNumber_h, flag, payloadLen, payload))))"

section \<open>The bytes of a PDU\<close>

text \<open>What \<open>createPDU\<close> leaves in the first \<open>pduLength\<close> bytes of its buffer.\<close>

definition pdu_bytes :: "u32 \<Rightarrow> byte \<Rightarrow> byte list \<Rightarrow> byte list" where
  "pdu_bytes seqNum flag payload =
     (let h = bytes32 (htonl seqNum) in
      h @ bytes16 (in_cksum (h @ bytes16 0 @ [flag] @ payload)) @ [flag] @ payload)"

lemma length_pdu_bytes [simp]: "length (pdu_bytes s f pl) = 7 + length pl"
  by (simp add: pdu_bytes_def Let_def)

lemma take_4_pdu: "take 4 (pdu_bytes s f pl @ xs) = bytes32 (htonl s)"
  by (simp add: pdu_bytes_def Let_def)

lemma nth_6_pdu: "(pdu_bytes s f pl @ xs) ! 6 = f"
  by (simp add: pdu_bytes_def Let_def nth_append)

lemma drop_7_pdu: "drop 7 (pdu_bytes s f pl @ xs) = pl @ xs"
  by (simp add: pdu_bytes_def Let_def)

lemmas pdu_fields =
  take_4_pdu [of _ _ _ "[]", simplified] nth_6_pdu [of _ _ _ "[]", simplified]
  drop_7_pdu [of _ _ _ "[]", simplified]

lemma pdu_bytes_not_Nil [simp]: "pdu_bytes s f pl \<noteq> []"
  by (simp add: pdu_bytes_def Let_def bytes32_def)

lemma createPDU_ok:
  assumes "n \<le> length payload" "n \<le> MAX_PAYLOAD_SIZE"
  shows "createPDU (replicate MAX_PDU_SIZE 0) s f payload (int n) =
    Inr (pdu_bytes s f (take n payload) @ replicate (MAX_PAYLOAD_SIZE - n) 0, 7 + int n)"
proof -
  have "nat (7 + int n) = 7 + n" by simp
  then show ?thesis
    using assms
    by (simp add: createPDU_def memcpy_def pdu_bytes_def Let_def take_Cons' drop_Cons')
qed

section \<open>A created PDU is accepted\<close>

lemma complement_mod:
  assumes "f \<le> 65535" "f mod 65535 = s mod 65535" "f = 0 \<longleftrightarrow> s = (0 :: nat)"
  shows "(s + (65535 - f)) mod 65535 = 0 \<and> 0 < s + (65535 - f)"
proof (cases "f \<le> s")
  case True
  with assms(2) have "65535 dvd s - f" by (metis mod_eq_dvd_iff_nat)
  then have "65535 dvd (s - f) + 65535" by (simp only: dvd_add_triv_right_iff)
  moreover from True assms(1) have "s + (65535 - f) = (s - f) + 65535" by simp
  ultimately have "65535 dvd s + (65535 - f)" by (simp only:)
  then show ?thesis using assms by (cases "s = 0") auto
next
  case False
  with assms(1) have "s < 65535" by simp
  with assms(2) have s: "s = f mod 65535" by simp
  then show ?thesis
    using False assms(1,3) by (cases "f = 65535") auto
qed

lemma in_cksum_pdu:
  assumes "length pl \<le> 65000"
  shows "in_cksum (pdu_bytes s f pl) = 0"
proof -
  define h z where "h = bytes32 (htonl s)" and "z = h @ bytes16 0 @ [f] @ pl"
  have z: "length z < 65536" using assms by (simp add: z_def h_def)
  have "words_sum (pdu_bytes s f pl) = words_sum z + unat (in_cksum z)"
    by (simp add: pdu_bytes_def z_def h_def Let_def words_sum_append words_sum_bytes16)
  also have "\<dots> = words_sum z + (65535 - fold_carry (words_sum z))"
    by (simp add: unat_in_cksum [OF z])
  finally show ?thesis
    using complement_mod [OF fold_carry_facts [OF words_sum_datagram [OF z]]] assms
    by (simp add: in_cksum_zero_iff)
qed

lemma checkChecksum_pdu:
  "length pl \<le> MAX_PAYLOAD_SIZE \<Longrightarrow> checkChecksum (pdu_bytes s f pl @ xs) (int (7 + length pl)) = CRC_GOOD"
proof -
  assume "length pl \<le> MAX_PAYLOAD_SIZE"
  moreover have "nat (int (7 + length pl)) = length (pdu_bytes s f pl)" by simp
  ultimately show ?thesis
    unfolding checkChecksum_def by (simp only: take_append) (simp add: in_cksum_pdu)
qed

lemma retrieveHeader_pdu:
  "length pl \<le> MAX_PAYLOAD_SIZE \<Longrightarrow>
   retrieveHeader (pdu_bytes s f pl @ xs) (int (7 + length pl)) = (f, s, CRC_GOOD, int (length pl))"
  using checkChecksum_pdu [of pl s f xs]
  by (simp add: retrieveHeader_def pdu_fields nth_6_pdu
      word32_bytes32 ntohl_htonl)

text \<open>
  C25. What \<open>createPDU\<close> builds from a payload of at most 1400 bytes,
  \<open>retrieveHeader\<close> reads back: flag, sequence number, length, a good checksum, and
  the payload stands behind the header.
\<close>

theorem createPDU_retrieveHeader:
  assumes "n \<le> length payload" "n \<le> MAX_PAYLOAD_SIZE"
  shows "\<exists>pdu. createPDU (replicate MAX_PDU_SIZE 0) seqNum flag payload (int n) = Inr (pdu, 7 + int n)
    \<and> retrieveHeader pdu (7 + int n) = (flag, seqNum, CRC_GOOD, int n)
    \<and> take n (drop PDU_HEADER_SIZE pdu) = take n payload"
proof -
  let ?pdu = "pdu_bytes seqNum flag (take n payload) @ replicate (MAX_PAYLOAD_SIZE - n) 0"
  have "retrieveHeader ?pdu (7 + int n) = (flag, seqNum, CRC_GOOD, int n)"
    using assms retrieveHeader_pdu [of "take n payload" seqNum flag] by simp
  moreover have "take n (drop PDU_HEADER_SIZE ?pdu) = take n payload"
    using assms by (simp add: drop_7_pdu del: drop_append)
  ultimately show ?thesis
    using createPDU_ok [OF assms] by blast
qed

theorem createPDU_retrieveHeader_witness:
  "\<exists>pdu. createPDU (replicate 1407 0) 7 (flag_code DATA) [1, 2, 3] (int 2) = Inr (pdu, 7 + int 2)
    \<and> retrieveHeader pdu (7 + int 2) = (flag_code DATA, 7, CRC_GOOD, int 2)
    \<and> take 2 (drop 7 pdu) = take 2 [1, 2, 3]"
  by (rule createPDU_retrieveHeader) simp_all

text \<open>
  C26. A PDU of which one byte has been changed, whichever and to whatever value, is rejected by
  \<open>checkChecksum\<close>.
\<close>

theorem damaged_PDU_is_rejected:
  assumes "n \<le> length payload" "n \<le> MAX_PAYLOAD_SIZE"
    and "createPDU (replicate MAX_PDU_SIZE 0) seqNum flag payload (int n) = Inr (pdu, len)"
    and "i < nat len" "b \<noteq> pdu ! i"
  shows "checkChecksum (pdu[i := b]) len = CRC_ERROR"
proof -
  let ?d = "pdu_bytes seqNum flag (take n payload)"
  have pdu: "pdu = ?d @ replicate (MAX_PAYLOAD_SIZE - n) 0" and len: "len = 7 + int n"
    using createPDU_ok [OF assms(1,2), of seqNum flag] assms(3) by simp_all
  have d: "length ?d = nat len" using assms(1) len by simp
  then have "take (nat len) (pdu[i := b]) = ?d[i := b]"
    using assms(4) by (simp add: pdu list_update_append)
  moreover have "in_cksum (?d[i := b]) \<noteq> 0"
    using assms d by (intro cksum_detects_byte_change in_cksum_pdu) (simp_all add: pdu nth_append)
  ultimately show ?thesis by (simp add: checkChecksum_def)
qed

theorem damaged_PDU_is_rejected_witness:
  "\<exists>pdu. createPDU (replicate 1407 0) 7 (flag_code DATA) [1, 2, 3] (int 3) = Inr (pdu, 10)
    \<and> checkChecksum (pdu[0 := pdu ! 0 + 1]) 10 = CRC_ERROR"
proof -
  obtain pdu where pdu: "createPDU (replicate 1407 0) 7 (flag_code DATA) [1, 2, 3] (int 3) = Inr (pdu, 10)"
    using createPDU_ok [of 3 "[1, 2, 3]" 7 "flag_code DATA"] by simp
  have "checkChecksum (pdu[0 := pdu ! 0 + 1]) 10 = CRC_ERROR"
    by (rule damaged_PDU_is_rejected [OF _ _ pdu]) simp_all
  with pdu show ?thesis by blast
qed

section \<open>Messages and the datagrams that carry them\<close>

text \<open>
  A message is the flag, the sequence number and the payload of a PDU. \<open>dec\<close> is how a receiver
  reads a datagram; \<open>dgram_ok\<close> is the size of everything the two programs send.
\<close>

type_synonym msg = "byte \<times> u32 \<times> byte list"

definition dgram_ok :: "byte list \<Rightarrow> bool" where
  "dgram_ok d \<longleftrightarrow> PDU_HEADER_SIZE \<le> length d \<and> length d \<le> MAX_PDU_SIZE"

definition dec :: "byte list \<Rightarrow> msg option" where
  "dec d = (if dgram_ok d \<and> in_cksum d = 0
     then Some (d ! 6, ntohl (word32 (take 4 d)), drop 7 d) else None)"

fun enc :: "msg \<Rightarrow> byte list" where
  "enc (f, s, pl) = pdu_bytes s f pl"

fun msg_ok :: "msg \<Rightarrow> bool" where
  "msg_ok (f, s, pl) \<longleftrightarrow> length pl \<le> MAX_PAYLOAD_SIZE"

text \<open>The interface between the PDU routines and the protocol.\<close>

locale codec =
  fixes encode :: "'m \<Rightarrow> 'd"
    and decode :: "'d \<Rightarrow> 'm option"
    and valid :: "'m \<Rightarrow> bool"
  assumes decode_encode: "valid m \<Longrightarrow> decode (encode m) = Some m"
begin

lemma encode_inj: "valid m \<Longrightarrow> valid m' \<Longrightarrow> encode m = encode m' \<Longrightarrow> m = m'"
  using decode_encode by (metis option.inject)

lemma decode_all: "(\<And>m. m \<in> set ms \<Longrightarrow> valid m) \<Longrightarrow> List.map_filter decode (map encode ms) = ms"
  by (induction ms) (simp_all add: List.map_filter_simps decode_encode)

end

locale detecting_codec = codec +
  fixes damaged :: "'b \<Rightarrow> 'b \<Rightarrow> bool"
  assumes damaged_rejected: "valid m \<Longrightarrow> damaged (encode m) d \<Longrightarrow> decode d = None"
begin

text \<open>A link that loses or damages what it carries delivers the message or nothing.\<close>

lemma link_delivers:
  assumes "valid m" "out = [] \<or> out = [encode m] \<or> (\<exists>d. out = [d] \<and> damaged (encode m) d)"
  shows "List.map_filter decode out = [] \<or> List.map_filter decode out = [m]"
  using assms by (auto simp: List.map_filter_simps decode_encode damaged_rejected)

end

definition link_damage :: "byte list \<Rightarrow> byte list \<Rightarrow> bool" where
  "link_damage buf d \<longleftrightarrow> length d = length buf \<and> in_cksum d \<noteq> 0"

lemma dec_enc: "msg_ok m \<Longrightarrow> dec (enc m) = Some m"
  by (cases m) (simp add: dec_def dgram_ok_def in_cksum_pdu word32_bytes32 ntohl_htonl pdu_fields)

interpretation pdu: detecting_codec enc dec msg_ok link_damage
  by unfold_locales (erule dec_enc, simp add: link_damage_def dec_def)

section \<open>What sending and receiving do\<close>

text \<open>The messages a receiver can read off a sequence of datagrams.\<close>

definition readable :: "(sockaddr_in6 \<times> byte list) list \<Rightarrow> msg list" where
  "readable out = List.map_filter dec (map snd out)"

definition transmits :: "msg list \<Rightarrow> (sockaddr_in6 \<times> byte list) list \<Rightarrow> bool" where
  "transmits ms out \<longleftrightarrow> (\<forall>x \<in> set out. dgram_ok (snd x)) \<and> subseq (readable out) ms"

lemma readable_append [simp]: "readable (xs @ ys) = readable xs @ readable ys"
  by (simp add: readable_def List.map_filter_def)

lemma readable_Nil [simp]: "readable [] = []"
  by (simp add: readable_def List.map_filter_simps)

lemma transmits_Nil [intro]: "transmits ms []"
  by (simp add: transmits_def)

lemma transmits_append:
  "transmits ms out \<Longrightarrow> transmits ms' out' \<Longrightarrow> transmits (ms @ ms') (out @ out')"
  by (auto simp: transmits_def intro: list_emb_append_mono)

lemma transmits_set: "transmits ms out \<Longrightarrow> set (readable out) \<subseteq> set ms"
  unfolding transmits_def by (blast dest: list_emb_set)

lemma link_effect_transmits:
  assumes "link_effect a (enc m) out" "msg_ok m"
  shows "transmits [m] out"
proof -
  have l: "length (enc m) \<le> MAX_PDU_SIZE" "PDU_HEADER_SIZE \<le> length (enc m)"
    using assms(2) by (cases m; simp)+
  have "map snd out = [] \<or> map snd out = [enc m] \<or> (\<exists>d. map snd out = [d] \<and> link_damage (enc m) d)"
    using assms(1) by (auto simp: link_effect_def link_damage_def)
  from pdu.link_delivers [OF assms(2) this] have "subseq (readable out) [m]"
    by (auto simp: readable_def)
  moreover have "\<forall>x \<in> set out. dgram_ok (snd x)"
    using assms(1) l by (auto simp: link_effect_def dgram_ok_def)
  ultimately show ?thesis by (simp add: transmits_def)
qed

lemma sendPDU_result:
  assumes "pm_ok (pm p)" "n \<le> length payload" "n \<le> MAX_PAYLOAD_SIZE"
  shows "\<exists>out p'. transmits [(flag, seqNum, take n payload)] out \<and> sent_state out p p' \<and>
    (sendPDU c payload (int n) flag seqNum p = Ret () p'
      \<or> sendPDU c payload (int n) flag seqNum p = Stop (Exit (- 1)) p')"
proof -
  let ?m = "(flag, seqNum, take n payload)"
  have m: "msg_ok ?m" using assms(3) by simp
  have len: "length (enc ?m) = 7 + n" using assms(2) by simp
  have ne: "enc ?m \<noteq> []" by simp
  have ck: "in_cksum (enc ?m) = 0" using assms(3) by (simp add: in_cksum_pdu)
  have "sendPDU c payload (int n) flag seqNum p = safeSendto (enc ?m) (info c) p"
    using assms(2) by (simp add: sendPDU_def createPDU_ok [OF assms(2,3)] nat_add_distrib)
  moreover have "length (enc ?m) < 65536" using len assms(3) by simp
  from safeSendto_result [OF assms(1) ne this ck, of "info c"]
  obtain out p' where l: "link_effect (info c) (enc ?m) out" and s: "sent_state out p p'"
    and r: "safeSendto (enc ?m) (info c) p = Ret () p'
      \<or> safeSendto (enc ?m) (info c) p = Stop (Exit (- 1)) p'" by blast
  ultimately show ?thesis
    using link_effect_transmits [OF l m] s r by (intro exI [of _ out] exI [of _ p']) simp
qed

lemma sendFlagOnly_result:
  assumes "pm_ok (pm p)"
  shows "\<exists>out p'. transmits [(flag, seqNum, [])] out \<and> sent_state out p p' \<and>
    (sendFlagOnly c flag seqNum p = Ret () p' \<or> sendFlagOnly c flag seqNum p = Stop (Exit (- 1)) p')"
  using sendPDU_result [OF assms, of 0 "[]" flag seqNum c] by (simp add: sendFlagOnly_def)

lemma sendPDU_shape:
  "sendPDU c payload n flag seqNum p = Ret x p' \<Longrightarrow>
   \<exists>pm' out fs. p' = p\<lparr>pm := pm', net_out := out, send_errs := fs\<rparr>"
  by (auto simp: sendPDU_def run_simps split: prod.splits dest!: safeSendto_shape)

lemma sendPDU_frame:
  assumes "sendPDU c payload n flag seqNum p = Ret x p'" "pm_ok (pm p)"
  shows "\<exists>out. sent_state out p p'"
  using assms by (auto simp: sendPDU_def run_simps split: prod.splits dest!: safeSendto_frame)

lemma sendPDU_proc_frame:
  "sendPDU c payload n flag seqNum p = Ret x p' \<Longrightarrow> pm_ok (pm p) \<Longrightarrow> proc_frame p p'"
  by (blast dest: sendPDU_frame sent_state_frame)

lemma sendPDU_no_error:
  assumes "n \<le> length payload" "n \<le> MAX_PAYLOAD_SIZE" "send_errs p = []"
  shows "\<exists>p'. sendPDU c payload (int n) flag seqNum p = Ret () p' \<and> send_errs p' = []"
proof -
  have "sendPDU c payload (int n) flag seqNum p = safeSendto (enc (flag, seqNum, take n payload)) (info c) p"
    using assms(1) by (simp add: sendPDU_def createPDU_ok [OF assms(1,2)] nat_add_distrib)
  moreover have "enc (flag, seqNum, take n payload) \<noteq> []" by simp
  ultimately show ?thesis using safeSendto_no_error [OF _ assms(3)] by simp
qed

text \<open>\<open>sent ms p p'\<close>: the process has sent \<open>ms\<close>, as far as the link let it, and nothing else.\<close>

definition sent :: "msg list \<Rightarrow> 'm proc_scheme \<Rightarrow> 'm proc_scheme \<Rightarrow> bool" where
  "sent ms p p' \<longleftrightarrow> (\<exists>out. transmits ms out \<and> sent_state out p p')"

lemma sendPDU_ends:
  assumes "pm_ok (pm p)" "n \<le> length payload" "n \<le> MAX_PAYLOAD_SIZE" "take n payload = pl"
  shows "ends (sendPDU c payload (int n) flag seqNum p)
    (\<lambda>_. sent [(flag, seqNum, pl)] p) (sent [(flag, seqNum, pl)] p)"
  using sendPDU_result [OF assms(1-3), of flag seqNum c] assms(4) by (auto simp: sent_def)

definition crc_of :: "byte list \<Rightarrow> crc_status" where
  "crc_of d = (if in_cksum d = 0 then CRC_GOOD else CRC_ERROR)"

lemma retrieveHeader_recv_buffer:
  assumes "dgram_ok d"
  shows "retrieveHeader (recv_buffer d) (int (length d)) =
    (d ! 6, ntohl (word32 (take 4 d)), crc_of d, int (length d) - 7)"
  using assms by (simp add: retrieveHeader_def recv_buffer_def checkChecksum_def crc_of_def
      dgram_ok_def nth_append)

lemma retrievePDU_result [run_simps]:
  assumes "set ts \<subseteq> {Timeout, Hangup}" "net_in p = ts @ Arrive a d # es" "dgram_ok d"
    and "length payload = MAX_PAYLOAD_SIZE"
  shows "retrievePDU c payload p = Ret (c\<lparr>info := a\<rparr>, d ! 6, ntohl (word32 (take 4 d)), crc_of d,
    drop 7 d @ drop (length d - 7) payload, int (length d) - 7) (p\<lparr>net_in := es\<rparr>)"
proof -
  have d: "length d \<le> 1407" "7 \<le> length d" using assms(3) by (auto simp: dgram_ok_def)
  have "safeRecvfrom MAX_PDU_SIZE p = Ret (a, d) (p\<lparr>net_in := es\<rparr>)"
    using d by (simp add: safeRecvfrom_def assms(2) recvfrom_timeouts [OF assms(1)])
  moreover have "memcpy payload 0 (drop 7 (recv_buffer d)) (int (length d) - 7) =
      Inr (drop 7 d @ drop (length d - 7) payload)"
    using d assms(4) by (subst memcpy_ok) (auto simp: recv_buffer_def nat_diff_distrib)
  ultimately show ?thesis
    by (simp add: retrievePDU_def retrieveHeader_recv_buffer [OF assms(3)])
qed

lemma retrievePDU_Ret:
  assumes "retrievePDU c payload p = Ret (c', f, s, crc, pl, n) p'"
  shows "\<exists>es. p' = p\<lparr>net_in := es\<rparr> \<and> length es < length (net_in p)"
proof -
  from assms obtain x where "safeRecvfrom MAX_PDU_SIZE p = Ret x p'"
    by (cases "safeRecvfrom MAX_PDU_SIZE p")
      (auto simp: retrievePDU_def run_simps Let_def split_def)
  then show ?thesis by (rule safeRecvfrom_Ret)
qed

text \<open>
  A datagram shorter than the header makes the payload size negative, and the copy that
  precedes every check leaves the arrays.
\<close>

lemma retrievePDU_short:
  assumes "net_in p = Arrive a d # es" "length d < PDU_HEADER_SIZE"
  shows "retrievePDU c payload p = Stop (Fault OutOfBounds) (p\<lparr>net_in := es\<rparr>)"
  using assms
  by (simp add: retrievePDU_def safeRecvfrom_def retrieveHeader_def memcpy_def)

text \<open>
  C34. A datagram shorter than the header makes \<open>retrievePDU\<close> copy a negative number
  of bytes: the process faults.
\<close>

theorem undersized_datagram_faults:
  assumes "net_in p = Arrive a d # es" "length d < PDU_HEADER_SIZE"
  shows "retrievePDU c payload p = Stop (Fault OutOfBounds) (p\<lparr>net_in := es\<rparr>)"
  by (rule retrievePDU_short [OF assms])

theorem undersized_datagram_faults_witness:
  "let p = \<lparr>net_in = [Arrive \<lparr>sin6_port = 1, sin6_addr = []\<rparr> [1, 2, 3]], net_out = [], send_errs = [],
            pm = g_PktMgr 0, polled = static_pollset, udp_sock = 3, heap = 0,
            sockets = []\<rparr>
   in retrievePDU \<lparr>socketNum = 3, info = \<lparr>sin6_port = 1, sin6_addr = []\<rparr>, addrLen = 28\<rparr> [] p
     = Stop (Fault OutOfBounds) (p\<lparr>net_in := []\<rparr>)"
  unfolding Let_def
  by (rule undersized_datagram_faults [of _ "\<lparr>sin6_port = 1, sin6_addr = []\<rparr>" "[1, 2, 3]"]) simp_all

end
