(* ===== verification/SlotStore.thy ===== *)
theory SlotStore
  imports Prelude
begin

text \<open>
  The interface that the receive buffer of \<open>rcopy\<close> and the send window of \<open>server\<close> share:
  a store of \<open>cap\<close> slots in which sequence number \<open>k\<close> lives in slot \<open>k mod cap\<close>. The laws
  say that a store reads back what was put under a number and that two numbers meet exactly
  when they are congruent; the lemmas follow for every such store: a run of at most \<open>cap\<close>
  consecutive numbers is kept whole, and number \<open>k + cap\<close> evicts number \<open>k\<close>.
\<close>

locale slot_store =
  fixes put :: "nat \<Rightarrow> 'v \<Rightarrow> 's \<Rightarrow> 's"
    and look :: "nat \<Rightarrow> 's \<Rightarrow> 'v option"
    and cap :: "'s \<Rightarrow> nat"
    and inv :: "'s \<Rightarrow> bool"
    and storable :: "nat \<Rightarrow> 'v \<Rightarrow> 's \<Rightarrow> bool"
  assumes inv_put: "inv s \<Longrightarrow> storable k v s \<Longrightarrow> inv (put k v s)"
    and cap_put: "inv s \<Longrightarrow> storable k v s \<Longrightarrow> cap (put k v s) = cap s"
    and look_put: "inv s \<Longrightarrow> storable k v s \<Longrightarrow>
      look j (put k v s) = (if j mod cap s = k mod cap s then Some v else look j s)"
begin

primrec put_run :: "nat \<Rightarrow> 'v list \<Rightarrow> 's \<Rightarrow> 's" where
  "put_run k [] s = s"
| "put_run k (v # vs) s = put_run (Suc k) vs (put k v s)"

primrec run_storable :: "nat \<Rightarrow> 'v list \<Rightarrow> 's \<Rightarrow> bool" where
  "run_storable k [] s = True"
| "run_storable k (v # vs) s = (storable k v s \<and> run_storable (Suc k) vs (put k v s))"

lemma put_same: "inv s \<Longrightarrow> storable k v s \<Longrightarrow> look k (put k v s) = Some v"
  by (simp add: look_put)

lemma put_evicts: "inv s \<Longrightarrow> storable (k + cap s) v s \<Longrightarrow> look k (put (k + cap s) v s) = Some v"
  by (simp add: look_put)

lemma put_run_inv:
  "inv s \<Longrightarrow> run_storable k vs s \<Longrightarrow> inv (put_run k vs s) \<and> cap (put_run k vs s) = cap s"
  by (induction vs arbitrary: k s) (simp_all add: inv_put cap_put)

lemma put_run_other:
  assumes "inv s" "run_storable k vs s" "\<And>i. i < length vs \<Longrightarrow> j mod cap s \<noteq> (k + i) mod cap s"
  shows "look j (put_run k vs s) = look j s"
  using assms
proof (induction vs arbitrary: k s)
  case (Cons v vs)
  let ?s = "put k v s"
  have s: "inv ?s" "cap ?s = cap s" using Cons.prems(1,2) by (simp_all add: inv_put cap_put)
  have "j mod cap ?s \<noteq> (Suc k + i) mod cap ?s" if "i < length vs" for i
    using Cons.prems(3) [of "Suc i"] that s(2) by simp
  with Cons.IH [OF s(1)] Cons.prems(2) have "look j (put_run (Suc k) vs ?s) = look j ?s" by simp
  with Cons.prems(1,2) Cons.prems(3) [of 0] show ?case by (simp add: look_put)
qed simp

text \<open>A run that fits is kept whole.\<close>

lemma put_run_look:
  assumes "inv s" "run_storable k vs s" "length vs \<le> cap s" "i < length vs"
  shows "look (k + i) (put_run k vs s) = Some (vs ! i)"
  using assms
proof (induction vs arbitrary: k s i)
  case (Cons v vs)
  let ?s = "put k v s"
  have v: "storable k v s" and vs: "run_storable (Suc k) vs ?s" using Cons.prems(2) by simp_all
  have s: "inv ?s" "cap ?s = cap s" using Cons.prems(1) v by (simp_all add: inv_put cap_put)
  show ?case
  proof (cases i)
    case 0
    have "k mod cap ?s \<noteq> (Suc k + i) mod cap ?s" if "i < length vs" for i
      using mod_window_inj [of k "cap ?s" "Suc k + i" k] Cons.prems(3) s(2) that by fastforce
    with put_run_other [OF s(1) vs] have "look k (put_run (Suc k) vs ?s) = look k ?s" by blast
    with 0 put_same [OF Cons.prems(1) v] show ?thesis by simp
  next
    case (Suc j)
    with Cons.prems(3,4) s Cons.IH [OF s(1) vs, of j] show ?thesis by simp
  qed
qed simp

end

text \<open>A store whose slots can also be emptied.\<close>

locale slot_cache = slot_store +
  fixes del :: "nat \<Rightarrow> 'b \<Rightarrow> 'b"
    and key :: "nat \<Rightarrow> bool"
  assumes storable_key: "storable k v s \<Longrightarrow> key k"
    and inv_del: "inv s \<Longrightarrow> key k \<Longrightarrow> inv (del k s)"
    and cap_del: "inv s \<Longrightarrow> key k \<Longrightarrow> cap (del k s) = cap s"
    and look_del: "inv s \<Longrightarrow> key k \<Longrightarrow>
      look j (del k s) = (if j mod cap s = k mod cap s then None else look j s)"
begin

lemma put_del: "inv s \<Longrightarrow> storable k v s \<Longrightarrow> look j (del k (put k v s)) = look j (del k s)"
  by (simp add: look_del look_put inv_put cap_put storable_key)

lemma put_look_del:
  "inv s \<Longrightarrow> storable k v s \<Longrightarrow> look k (put k v s) = Some v \<and> look k (del k (put k v s)) = None"
  by (simp add: look_del look_put inv_put cap_put storable_key)

end

end
