(* ===== verification/Buffer.thy ===== *)
theory Buffer
  imports Process SlotStore
begin

text \<open>
  \<open>src/buffer.c\<close>: the receive buffer of \<open>rcopy\<close>, an array of \<open>myBufferSize\<close> slots with a
  valid mark. The interpretation \<open>rb\<close> shows that it is a slot cache: adding stores under the
  number modulo the size, getting reads the slot and empties it.
\<close>

section \<open>The operations\<close>

record buffer_Data =
  b_seqNum :: u32
  b_flag :: byte
  b_data :: "byte list"
  b_dataLen :: int
  b_valid :: int

record recv_buf =
  buffer :: "buffer_Data list"
  myBufferSize :: int

abbreviation (input) DATA_VALID :: int where "DATA_VALID \<equiv> 1"
abbreviation (input) DATA_INVALID :: int where "DATA_INVALID \<equiv> 0"

text \<open>The size of the structure: 4 + 1 + 1400 bytes, padded, and two \<open>int\<close>s.\<close>

abbreviation (input) sizeof_buffer_Data :: nat where "sizeof_buffer_Data \<equiv> 1416"

definition zero_buffer_Data :: buffer_Data where
  "zero_buffer_Data = \<lparr>b_seqNum = 0, b_flag = 0, b_data = replicate MAX_PAYLOAD_SIZE 0,
     b_dataLen = 0, b_valid = DATA_INVALID\<rparr>"

definition static_buffer :: recv_buf where
  "static_buffer = \<lparr>buffer = [], myBufferSize = 0\<rparr>"

definition setupBuffer :: "int \<Rightarrow> 'm proc_scheme \<Rightarrow> ('m proc_scheme, recv_buf) outcome" where
  "setupBuffer bufferSize p =
     bindO (sCalloc bufferSize sizeof_buffer_Data p) (\<lambda>_ p.
       Ret \<lparr>buffer = map (\<lambda>e. e\<lparr>b_valid := DATA_INVALID\<rparr>)
              (replicate (nat bufferSize) zero_buffer_Data),
            myBufferSize = bufferSize\<rparr> p)"

text \<open>
  \<open>seqNum % myBufferSize\<close>: the usual conversions make it a remainder of unsigned numbers.
\<close>

definition buffer_index :: "u32 \<Rightarrow> recv_buf \<Rightarrow> halt + nat" where
  "buffer_index seqNum b =
     (let size = unat (word_of_int (myBufferSize b) :: u32) in
      if size = 0 then Inl (Fault DivByZero)
      else let index = unat seqNum mod size in
        if index < length (buffer b) then Inr index else Inl (Fault OutOfBounds))"

definition addDatatoBuffer ::
  "u32 \<Rightarrow> byte \<Rightarrow> byte list \<Rightarrow> int \<Rightarrow> recv_buf \<Rightarrow> halt + recv_buf" where
  "addDatatoBuffer seqNum flag data dataLen b =
     bindE (buffer_index seqNum b) (\<lambda>index.
     bindE (memcpy (b_data (buffer b ! index)) 0 data dataLen) (\<lambda>copied.
       Inr (b\<lparr>buffer := (buffer b)[index := (buffer b ! index)
              \<lparr>b_data := copied, b_seqNum := seqNum, b_flag := flag, b_dataLen := dataLen,
               b_valid := DATA_VALID\<rparr>]\<rparr>)))"

text \<open>
  \<open>getDataFromBuffer\<close> returns \<open>DATA_INVALID\<close> (here \<open>None\<close>) for an empty slot; else the flag,
  the caller's array with the data copied in, and its length.
\<close>

definition getDataFromBuffer ::
  "u32 \<Rightarrow> byte list \<Rightarrow> recv_buf \<Rightarrow> halt + ((byte \<times> byte list \<times> int) option \<times> recv_buf)" where
  "getDataFromBuffer seqNum data b =
     bindE (buffer_index seqNum b) (\<lambda>index.
       if b_valid (buffer b ! index) = DATA_INVALID then Inr (None, b)
       else
         let dataLen = b_dataLen (buffer b ! index); flag = b_flag (buffer b ! index) in
         bindE (memcpy data 0 (b_data (buffer b ! index)) dataLen) (\<lambda>data.
           Inr (Some (flag, data, dataLen),
                b\<lparr>buffer := (buffer b)[index := (buffer b ! index)\<lparr>b_valid := DATA_INVALID\<rparr>]\<rparr>)))"

section \<open>Well-formed buffers\<close>

definition slot_ok :: "buffer_Data \<Rightarrow> bool" where
  "slot_ok e \<longleftrightarrow> length (b_data e) = MAX_PAYLOAD_SIZE \<and> 0 \<le> b_dataLen e
     \<and> b_dataLen e \<le> int MAX_PAYLOAD_SIZE"

definition buf_ok :: "recv_buf \<Rightarrow> bool" where
  "buf_ok b \<longleftrightarrow> 0 < myBufferSize b \<and> myBufferSize b < 2 ^ 31
     \<and> int (length (buffer b)) = myBufferSize b \<and> (\<forall>e \<in> set (buffer b). slot_ok e)"

definition buf_cap :: "recv_buf \<Rightarrow> nat" where
  "buf_cap b = nat (myBufferSize b)"

text \<open>What the slot of a sequence number holds: flag and data.\<close>

definition buf_look :: "nat \<Rightarrow> recv_buf \<Rightarrow> (byte \<times> byte list) option" where
  "buf_look k b =
     (let e = buffer b ! (k mod buf_cap b) in
      if b_valid e = DATA_INVALID then None else Some (b_flag e, take (nat (b_dataLen e)) (b_data e)))"

lemma buf_ok_cap: "buf_ok b \<Longrightarrow> 0 < buf_cap b \<and> length (buffer b) = buf_cap b"
  by (auto simp: buf_ok_def buf_cap_def)

lemma buffer_index_ok:
  assumes "buf_ok b" "k < 2 ^ 31"
  shows "buffer_index (of_nat k) b = Inr (k mod buf_cap b)"
proof -
  have "unat (word_of_int (myBufferSize b) :: u32) = buf_cap b"
    using assms(1) by (simp add: buf_ok_def buf_cap_def unsigned_of_int take_bit_int_eq_self)
  then show ?thesis
    using buf_ok_cap [OF assms(1)] assms(2) by (simp add: buffer_index_def Let_def unat_seq)
qed

lemma buf_nth_ok: "buf_ok b \<Longrightarrow> slot_ok (buffer b ! (k mod buf_cap b))"
  using buf_ok_cap [of b] by (auto simp: buf_ok_def)

lemma buf_ok_update:
  "buf_ok b \<Longrightarrow> slot_ok e \<Longrightarrow> buf_ok (b\<lparr>buffer := (buffer b)[i := e]\<rparr>)"
  by (auto simp: buf_ok_def dest!: set_update_subset_insert [THEN subsetD])

lemma buf_look_update:
  assumes "buf_ok b"
  shows "buf_look j (b\<lparr>buffer := (buffer b)[k mod buf_cap b := e]\<rparr>) =
    (if j mod buf_cap b = k mod buf_cap b
     then (if b_valid e = DATA_INVALID then None else Some (b_flag e, take (nat (b_dataLen e)) (b_data e)))
     else buf_look j b)"
  using buf_ok_cap [OF assms] by (simp add: buf_look_def buf_cap_def Let_def)

lemma addDatatoBuffer_ok:
  assumes "buf_ok b" "k < 2 ^ 31" "n \<le> length d" "n \<le> MAX_PAYLOAD_SIZE"
  shows "\<exists>b'. addDatatoBuffer (of_nat k) f d (int n) b = Inr b' \<and> buf_ok b'
    \<and> myBufferSize b' = myBufferSize b
    \<and> (\<forall>j. buf_look j b' = (if j mod buf_cap b = k mod buf_cap b then Some (f, take n d)
                            else buf_look j b))"
proof -
  let ?e = "buffer b ! (k mod buf_cap b)"
  let ?d = "take n d @ drop n (b_data ?e)"
  let ?e' = "?e\<lparr>b_data := ?d, b_seqNum := of_nat k, b_flag := f, b_dataLen := int n, b_valid := DATA_VALID\<rparr>"
  have e: "slot_ok ?e" using assms(1) by (rule buf_nth_ok)
  then have m: "memcpy (b_data ?e) 0 d (int n) = Inr ?d"
    using assms(3,4) by (simp add: memcpy_ok slot_ok_def)
  have e': "slot_ok ?e'" using e assms(3,4) by (simp add: slot_ok_def)
  have "addDatatoBuffer (of_nat k) f d (int n) b =
      Inr (b\<lparr>buffer := (buffer b)[k mod buf_cap b := ?e']\<rparr>)"
    by (simp add: addDatatoBuffer_def buffer_index_ok [OF assms(1,2)] m)
  then show ?thesis
    using buf_ok_update [OF assms(1) e'] buf_look_update [OF assms(1)] assms(3) by simp
qed

text \<open>Getting reads the slot and, if it held something, marks it as empty.\<close>

definition buf_del :: "nat \<Rightarrow> recv_buf \<Rightarrow> recv_buf" where
  "buf_del k b =
     (case getDataFromBuffer (of_nat k) (replicate MAX_PAYLOAD_SIZE 0) b of
        Inr (r, b') \<Rightarrow> b' | Inl h \<Rightarrow> b)"

lemma getDataFromBuffer_eq:
  assumes "buf_ok b" "k < 2 ^ 31" "length data = MAX_PAYLOAD_SIZE"
  shows "getDataFromBuffer (of_nat k) data b =
    Inr (map_option (\<lambda>(f, d). (f, d @ drop (length d) data, int (length d))) (buf_look k b),
         if buf_look k b = None then b
         else b\<lparr>buffer := (buffer b)[k mod buf_cap b :=
                (buffer b ! (k mod buf_cap b))\<lparr>b_valid := DATA_INVALID\<rparr>]\<rparr>)"
proof (cases "b_valid (buffer b ! (k mod buf_cap b)) = DATA_INVALID")
  case True
  then show ?thesis
    by (simp add: getDataFromBuffer_def buffer_index_ok [OF assms(1,2)] buf_look_def)
next
  case False
  let ?e = "buffer b ! (k mod buf_cap b)"
  let ?d = "take (nat (b_dataLen ?e)) (b_data ?e)"
  have e: "slot_ok ?e" using assms(1) by (rule buf_nth_ok)
  then have l: "int (length ?d) = b_dataLen ?e" by (auto simp: slot_ok_def)
  have m: "memcpy data 0 (b_data ?e) (b_dataLen ?e) = Inr (?d @ drop (length ?d) data)"
    using e assms(3) by (auto simp: memcpy_def slot_ok_def min_def)
  have "buf_look k b = Some (b_flag ?e, ?d)"
    using False by (simp add: buf_look_def Let_def)
  with False m l show ?thesis
    by (simp add: getDataFromBuffer_def buffer_index_ok [OF assms(1,2)] Let_def)
qed

lemma getDataFromBuffer_del:
  assumes "buf_ok b" "k < 2 ^ 31" "length data = MAX_PAYLOAD_SIZE"
  shows "getDataFromBuffer (of_nat k) data b =
    Inr (map_option (\<lambda>(f, d). (f, d @ drop (length d) data, int (length d))) (buf_look k b), buf_del k b)"
  by (simp add: buf_del_def getDataFromBuffer_eq [OF assms]
      getDataFromBuffer_eq [OF assms(1,2), of "replicate MAX_PAYLOAD_SIZE 0"])

lemma buf_del_empty: "buf_ok b \<Longrightarrow> k < 2 ^ 31 \<Longrightarrow> buf_look k b = None \<Longrightarrow> buf_del k b = b"
  by (simp add: buf_del_def getDataFromBuffer_eq)

lemma buf_del_ok:
  assumes "buf_ok b" "k < 2 ^ 31"
  shows "buf_ok (buf_del k b) \<and> buf_cap (buf_del k b) = buf_cap b
    \<and> (\<forall>j. buf_look j (buf_del k b) = (if j mod buf_cap b = k mod buf_cap b then None else buf_look j b))"
proof (cases "buf_look k b = None")
  case True
  then have "buf_look j b = None" if "j mod buf_cap b = k mod buf_cap b" for j
    using that by (simp add: buf_look_def)
  with True show ?thesis using assms by (simp add: buf_del_empty)
next
  case False
  let ?e' = "(buffer b ! (k mod buf_cap b))\<lparr>b_valid := DATA_INVALID\<rparr>"
  have "slot_ok ?e'" using buf_nth_ok [OF assms(1), of k] by (simp add: slot_ok_def)
  from buf_ok_update [OF assms(1) this] buf_look_update [OF assms(1)] False show ?thesis
    by (auto simp: buf_del_def getDataFromBuffer_eq [OF assms] buf_cap_def)
qed

section \<open>The buffer is a slot cache\<close>

definition buf_put :: "nat \<Rightarrow> byte \<times> byte list \<Rightarrow> recv_buf \<Rightarrow> recv_buf" where
  "buf_put k v b =
     (case addDatatoBuffer (of_nat k) (fst v) (snd v) (int (length (snd v))) b of
        Inr b' \<Rightarrow> b' | Inl h \<Rightarrow> b)"

definition buf_storable :: "nat \<Rightarrow> byte \<times> byte list \<Rightarrow> bool" where
  "buf_storable k v \<longleftrightarrow> k < 2 ^ 31 \<and> length (snd v) \<le> MAX_PAYLOAD_SIZE"

lemma buf_put_ok:
  assumes "buf_ok b" "buf_storable k v"
  shows "addDatatoBuffer (of_nat k) (fst v) (snd v) (int (length (snd v))) b = Inr (buf_put k v b)
    \<and> buf_ok (buf_put k v b) \<and> buf_cap (buf_put k v b) = buf_cap b
    \<and> (\<forall>j. buf_look j (buf_put k v b) = (if j mod buf_cap b = k mod buf_cap b then Some v else buf_look j b))"
  using addDatatoBuffer_ok [OF assms(1), of k "length (snd v)" "snd v" "fst v"] assms(2)
  by (auto simp: buf_put_def buf_storable_def buf_cap_def)

interpretation rb: slot_cache buf_put buf_look buf_cap buf_ok "\<lambda>k v b. buf_storable k v" buf_del "\<lambda>k. k < 2 ^ 31"
  by unfold_locales (use buf_put_ok buf_del_ok in \<open>auto simp: buf_storable_def\<close>)

lemma buf_look_length: "buf_ok b \<Longrightarrow> buf_look k b = Some (f, d) \<Longrightarrow> length d \<le> MAX_PAYLOAD_SIZE"
  using buf_nth_ok [of b k] by (auto simp: buf_look_def Let_def slot_ok_def split: if_splits)

lemma setupBuffer_ok:
  assumes "0 < n" "n < 2 ^ 31" "nat n * sizeof_buffer_Data \<le> heap p"
  shows "\<exists>b. setupBuffer n p = Ret b (p\<lparr>heap := heap p - nat n * sizeof_buffer_Data\<rparr>)
    \<and> buf_ok b \<and> buf_cap b = nat n \<and> (\<forall>k. buf_look k b = None)"
  using assms
  by (auto simp: setupBuffer_def sCalloc_def buf_ok_def buf_cap_def buf_look_def slot_ok_def
      zero_buffer_Data_def)

text \<open>
  C28. A block put into the receive buffer comes out once, with its flag, its length and its
  bytes; a second read of the slot finds nothing.
\<close>

theorem buffer_roundtrip:
  assumes "buf_ok b" "k < 2 ^ 31" "n \<le> length d" "n \<le> MAX_PAYLOAD_SIZE" "length data = MAX_PAYLOAD_SIZE"
  shows "\<exists>b' data' b''. addDatatoBuffer (of_nat k) f d (int n) b = Inr b'
    \<and> getDataFromBuffer (of_nat k) data b' = Inr (Some (f, data', int n), b'')
    \<and> take n data' = take n d
    \<and> getDataFromBuffer (of_nat k) data b'' = Inr (None, b'')"
proof -
  obtain b' where b': "addDatatoBuffer (of_nat k) f d (int n) b = Inr b'" "buf_ok b'"
    "buf_look k b' = Some (f, take n d)"
    using addDatatoBuffer_ok [OF assms(1-4), of f] by auto
  have del: "buf_ok (buf_del k b')" "buf_look k (buf_del k b') = None"
    using buf_del_ok [OF b'(2) assms(2)] by auto
  have "getDataFromBuffer (of_nat k) data b' =
      Inr (Some (f, take n d @ drop n data, int n), buf_del k b')"
    using assms(3) by (simp add: getDataFromBuffer_del [OF b'(2) assms(2,5)] b'(3))
  moreover have "getDataFromBuffer (of_nat k) data (buf_del k b') = Inr (None, buf_del k b')"
    using getDataFromBuffer_del [OF del(1) assms(2,5)] buf_del_empty [OF del(1) assms(2) del(2)]
    by (simp add: del(2))
  ultimately show ?thesis using b'(1) assms(3) by auto
qed

theorem buffer_roundtrip_witness:
  "\<exists>b' data' b''. addDatatoBuffer (of_nat 5) 16 [7, 8, 9] (int 2)
      \<lparr>buffer = [zero_buffer_Data, zero_buffer_Data], myBufferSize = 2\<rparr> = Inr b'
    \<and> getDataFromBuffer (of_nat 5) (replicate 1400 0) b' = Inr (Some (16, data', int 2), b'')
    \<and> take 2 data' = take 2 [7, 8, 9]
    \<and> getDataFromBuffer (of_nat 5) (replicate 1400 0) b'' = Inr (None, b'')"
  by (rule buffer_roundtrip) (simp_all add: buf_ok_def slot_ok_def zero_buffer_Data_def)

end
