(* ===== verification/Networks.thy ===== *)
theory Networks
  imports Process
begin

text \<open>
  Sockets and host names: the UDP parts of \<open>src/networks.c\<close> and the lookup of
  \<open>src/gethostbyname.c\<close>. What \<open>socket\<close>, \<open>bind\<close> and \<open>getaddrinfo\<close> answer is a
  parameter; the address structures are filled in as the code does it.
\<close>

section \<open>Host names\<close>

abbreviation (input) AF_INET :: int where "AF_INET \<equiv> 2"
abbreviation (input) AF_INET6 :: int where "AF_INET6 \<equiv> 10"

text \<open>
  \<open>getaddrinfo\<close>: for a family and a host name the address bytes of the first entry of the
  list, \<open>None\<close> for an error.
\<close>

type_synonym resolver = "int \<Rightarrow> byte list \<Rightarrow> byte list option"

text \<open>
  The third argument is the address field of the caller's structure; the result is the address
  (NULL is \<open>None\<close>) and the field as it is afterwards.
\<close>

definition getIPAddress46 ::
  "resolver \<Rightarrow> byte list \<Rightarrow> byte list \<Rightarrow> int \<Rightarrow> byte list option \<times> byte list" where
  "getIPAddress46 getaddrinfo hostName field addressFamily =
     (case getaddrinfo addressFamily hostName of
        None \<Rightarrow> (None, field)
      | Some a \<Rightarrow>
          let size = (if addressFamily = AF_INET then 4 else 16) in
          (Some (take size a), take size a @ drop size field))"

definition gethostbyname4 ::
  "resolver \<Rightarrow> byte list \<Rightarrow> byte list \<Rightarrow> byte list option \<times> byte list" where
  "gethostbyname4 getaddrinfo hostName field = getIPAddress46 getaddrinfo hostName field AF_INET"

definition gethostbyname6 ::
  "resolver \<Rightarrow> byte list \<Rightarrow> sockaddr_in6 \<Rightarrow> byte list option \<times> sockaddr_in6" where
  "gethostbyname6 getaddrinfo hostName aSockaddr6 =
     (case getIPAddress46 getaddrinfo hostName (sin6_addr aSockaddr6) AF_INET6 of (r, field) \<Rightarrow>
        (r, aSockaddr6\<lparr>sin6_addr := field\<rparr>))"

section \<open>UDP sockets\<close>

text \<open>\<open>socket\<close>: the next descriptor the kernel hands out; it fails when there is none left.\<close>

definition socket_call :: "'m proc_scheme \<Rightarrow> int \<times> 'm proc_scheme" where
  "socket_call p = (case sockets p of [] \<Rightarrow> (- 1, p) | s # ss \<Rightarrow> (s, p\<lparr>sockets := ss\<rparr>))"

definition htons :: "u16 \<Rightarrow> u16" where
  "htons w = push_bit 8 w OR drop_bit 8 w"

definition ntohs :: "u16 \<Rightarrow> u16" where
  "ntohs w = push_bit 8 w OR drop_bit 8 w"

definition zero_sockaddr_in6 :: sockaddr_in6 where
  "zero_sockaddr_in6 = \<lparr>sin6_port = 0, sin6_addr = replicate 16 0\<rparr>"

definition safeGetUdpSocket :: "'m proc_scheme \<Rightarrow> ('m proc_scheme, int) outcome" where
  "safeGetUdpSocket p =
     (case socket_call p of (socketNumber, p) \<Rightarrow>
        if socketNumber < 0 then Stop (Exit (- 1)) p else Ret socketNumber p)"

text \<open>
  The socket and the structure that is filled in; the port goes through \<open>ntohs\<close>. \<open>hostName\<close> is the
  memory the pointer leads to.
\<close>

definition setupUdpClientToServer ::
  "resolver \<Rightarrow> byte list \<Rightarrow> int \<Rightarrow> 'm proc_scheme \<Rightarrow> ('m proc_scheme, int \<times> sockaddr_in6) outcome" where
  "setupUdpClientToServer getaddrinfo hostName serverPort p =
     (case socket_call p of (s, p) \<Rightarrow>
        if s < 0 then Stop (Exit (- 1)) p
        else
          let serverAddress = zero_sockaddr_in6\<lparr>sin6_port := ntohs (word_of_int serverPort)\<rparr> in
          bindO (liftO (c_string hostName) p) (\<lambda>host p.
          case gethostbyname6 getaddrinfo host serverAddress of
            (None, serverAddress) \<Rightarrow> Stop (Exit (- 1)) p
          | (Some ipAddress, serverAddress) \<Rightarrow> Ret (s, serverAddress) p))"

text \<open>
  \<open>bind_result\<close> is the value of \<open>bind\<close>. The result is the socket and the address it was
  bound to.
\<close>

definition udpServerSetup ::
  "int \<Rightarrow> int \<Rightarrow> 'm proc_scheme \<Rightarrow> ('m proc_scheme, int \<times> sockaddr_in6) outcome" where
  "udpServerSetup bind_result serverPort p =
     (case socket_call p of (s, p) \<Rightarrow>
        if s < 0 then Stop (Exit (- 1)) p
        else
          let serverAddress = zero_sockaddr_in6\<lparr>sin6_port := htons (word_of_int serverPort)\<rparr> in
          if bind_result < 0 then Stop (Exit (- 1)) p else Ret (s, serverAddress) p)"

lemma ntohs_htons: "ntohs (htons w) = w"
  unfolding ntohs_def htons_def
  by (rule bit_word_eqI) (auto simp: bit_simps dest: bit_imp_le_length)

lemma length_zero_sockaddr [simp]: "length (sin6_addr zero_sockaddr_in6) = 16"
  by (simp add: zero_sockaddr_in6_def)

lemma setupUdpClientToServer_ok:
  assumes "sockets p = s # ss" "0 \<le> s" "c_string hostName = Inr host" "getaddrinfo AF_INET6 host = Some a"
    "length a = 16"
  shows "setupUdpClientToServer getaddrinfo hostName port p =
    Ret (s, \<lparr>sin6_port = htons (word_of_int port), sin6_addr = a\<rparr>) (p\<lparr>sockets := ss\<rparr>)"
  using assms
  by (simp add: setupUdpClientToServer_def socket_call_def gethostbyname6_def getIPAddress46_def
      zero_sockaddr_in6_def ntohs_def htons_def)

lemma setupUdpClientToServer_Ret:
  assumes "setupUdpClientToServer getaddrinfo host port p = Ret (s, a) p'"
  shows "0 \<le> s \<and> (\<exists>ss. p' = p\<lparr>sockets := ss\<rparr> \<and> sockets p = s # ss)"
proof (cases "sockets p")
  case Nil
  with assms show ?thesis by (simp add: setupUdpClientToServer_def socket_call_def)
next
  case (Cons t ss)
  show ?thesis
  proof (cases "t < 0 \<or> (\<exists>h. c_string host = Inl h)")
    case True
    with assms Cons show ?thesis
      by (cases "t < 0") (auto simp: setupUdpClientToServer_def socket_call_def Let_def)
  next
    case False
    then obtain name where "c_string host = Inr name" "0 \<le> t" by (cases "c_string host") auto
    with assms Cons show ?thesis
      by (auto simp: setupUdpClientToServer_def socket_call_def Let_def split: prod.splits option.splits)
  qed
qed

end
