(* ===== verification/Rcopy.thy ===== *)
theory Rcopy
  imports PduHelpers Buffer Networks
begin

text \<open>
  The client, \<open>src/rcopy.c\<close>: the state machine of \<open>processFile\<close> with one definition per state
  handler, and the three data states in which \<open>receiveData\<close> writes, buffers and flushes. The
  static variables of the handlers are fields of the record.
\<close>

section \<open>State\<close>

record Parameters =
  fromFilename :: "byte list"
  fromFilenameLen :: int
  toFilename :: "byte list"
  toFilenameLen :: int
  windowSize :: int
  bufferSize :: int
  errorRate :: cfloat
  remoteMachine :: "byte list"
  portNumber :: int

datatype rcopy_STATE = SETUP_CONNECTION | SEND_FILENAME | FILENAME_STATUS | FILENAME_OK_STATE
  | RECV_DATA | SEND_EOF_ACK | DONE_RCOPY

datatype DATA_STATE = IN_ORDER | BUFFER | FLUSH | DATA_STATE_DONE

text \<open>
  \<open>open_result\<close> is what \<open>open\<close> will return for the to-file, \<open>getaddrinfo\<close> the resolver. The to-file is its content; it is written in full.
\<close>

record rcopy = proc +
  myParameters :: Parameters
  serverConn :: Connection
  clientSeqNum :: u32
  recvBuf :: recv_buf
  dataState :: DATA_STATE
  expectedSeqNum :: u32
  highestSeqNum :: u32
  sendFilename_retryCount :: int
  filenameOk_retryCount :: int
  outputFileDesc :: int
  outputFile :: "byte list"
  open_result :: int
  getaddrinfo :: resolver

section \<open>Acknowledgments\<close>

definition sendRR :: "u32 \<Rightarrow> rcopy \<Rightarrow> (rcopy, unit) outcome" where
  "sendRR expected c =
     bindO (sendPDU (serverConn c) (bytes32 (htonl expected)) 4 (flag_code RR) (clientSeqNum c) c)
       (\<lambda>_ c. Ret () (c\<lparr>clientSeqNum := clientSeqNum c + 1\<rparr>))"

definition sendSREJ :: "u32 \<Rightarrow> rcopy \<Rightarrow> (rcopy, unit) outcome" where
  "sendSREJ missingSeqNum c =
     bindO (sendPDU (serverConn c) (bytes32 (htonl missingSeqNum)) 4 (flag_code SREJ) (clientSeqNum c) c)
       (\<lambda>_ c. Ret () (c\<lparr>clientSeqNum := clientSeqNum c + 1\<rparr>))"

definition write_out :: "byte list \<Rightarrow> int \<Rightarrow> rcopy \<Rightarrow> rcopy" where
  "write_out data len c = c\<lparr>outputFile := outputFile c @ take (nat len) data\<rparr>"

section \<open>The data states\<close>

definition inOrder ::
  "u32 \<Rightarrow> byte list \<Rightarrow> int \<Rightarrow> byte \<Rightarrow> rcopy \<Rightarrow> (rcopy, DATA_STATE) outcome" where
  "inOrder receivedSeqNum payload payloadLen flag c =
     (if receivedSeqNum = expectedSeqNum c then
        if flag = flag_code END_OF_FILE then Ret DATA_STATE_DONE c
        else
          let c = write_out payload payloadLen
                (c\<lparr>highestSeqNum := receivedSeqNum, expectedSeqNum := expectedSeqNum c + 1\<rparr>) in
          bindO (sendRR (expectedSeqNum c) c) (\<lambda>_. Ret IN_ORDER)
      else if expectedSeqNum c < receivedSeqNum then
        let c = c\<lparr>highestSeqNum := receivedSeqNum\<rparr> in
        bindO (liftO (addDatatoBuffer receivedSeqNum flag payload payloadLen (recvBuf c)) c)
          (\<lambda>b c. bindO (sendSREJ (expectedSeqNum c) (c\<lparr>recvBuf := b\<rparr>)) (\<lambda>_. Ret BUFFER))
      else bindO (sendRR (expectedSeqNum c) c) (\<lambda>_. Ret IN_ORDER))"

definition buffer_state ::
  "u32 \<Rightarrow> byte list \<Rightarrow> int \<Rightarrow> byte \<Rightarrow> rcopy \<Rightarrow> (rcopy, DATA_STATE) outcome" where
  "buffer_state receivedSeqNum payload payloadLen flag c =
     (if receivedSeqNum = expectedSeqNum c then
        if flag = flag_code END_OF_FILE then Ret DATA_STATE_DONE c
        else Ret FLUSH (write_out payload payloadLen (c\<lparr>expectedSeqNum := expectedSeqNum c + 1\<rparr>))
      else if expectedSeqNum c < receivedSeqNum then
        let c = c\<lparr>highestSeqNum := receivedSeqNum\<rparr> in
        bindO (liftO (addDatatoBuffer receivedSeqNum flag payload payloadLen (recvBuf c)) c)
          (\<lambda>b c. Ret BUFFER (c\<lparr>recvBuf := b\<rparr>))
      else
        bindO (sendRR (expectedSeqNum c) c) (\<lambda>_ c.
        bindO (sendSREJ (expectedSeqNum c) c) (\<lambda>_. Ret BUFFER)))"

text \<open>
  The loop of \<open>flush\<close>. Every pass empties a slot, so it ends. \<open>None\<close> is the normal end of the
  loop, \<open>Some\<close> the return from inside it.
\<close>

definition valid_slots :: "recv_buf \<Rightarrow> nat" where
  "valid_slots b = length (filter (\<lambda>e. b_valid e \<noteq> DATA_INVALID) (buffer b))"

lemma valid_slots_update:
  assumes "i < length xs" "b_valid (xs ! i) \<noteq> DATA_INVALID" "b_valid e = DATA_INVALID"
  shows "length (filter (\<lambda>e. b_valid e \<noteq> DATA_INVALID) (xs[i := e]))
     < length (filter (\<lambda>e. b_valid e \<noteq> DATA_INVALID) xs)"
proof -
  define ys zs x where "ys = take i xs" and "zs = drop (Suc i) xs" and "x = xs ! i"
  have "xs = ys @ x # zs" "i = length ys"
    using assms(1) by (simp_all add: ys_def zs_def x_def id_take_nth_drop)
  with assms(2,3) show ?thesis by simp
qed

lemma getDataFromBuffer_decreases:
  "getDataFromBuffer s data b = Inr (Some r, b') \<Longrightarrow> valid_slots b' < valid_slots b"
  by (auto simp: getDataFromBuffer_def valid_slots_def buffer_index_def Let_def run_simps
      split: if_splits intro!: valid_slots_update)

function flush_loop :: "byte list \<Rightarrow> rcopy \<Rightarrow> (rcopy, DATA_STATE option) outcome" where
  "flush_loop data c =
     (if expectedSeqNum c \<le> highestSeqNum c then
        (case getDataFromBuffer (expectedSeqNum c) data (recvBuf c) of
           Inl h \<Rightarrow> Stop h c
         | Inr (None, b) \<Rightarrow> Ret None (c\<lparr>recvBuf := b\<rparr>)
         | Inr (Some (flag, data, dataLen), b) \<Rightarrow>
             if flag = flag_code END_OF_FILE then Ret (Some DATA_STATE_DONE) (c\<lparr>recvBuf := b\<rparr>)
             else flush_loop data (write_out data dataLen
                    (c\<lparr>recvBuf := b, expectedSeqNum := expectedSeqNum c + 1\<rparr>)))
      else Ret None c)"
  by pat_completeness auto
termination
  by (relation "measure (\<lambda>(data, c). valid_slots (recvBuf c))")
    (auto simp: write_out_def dest: getDataFromBuffer_decreases)

declare flush_loop.simps [simp del]

definition flush :: "rcopy \<Rightarrow> (rcopy, DATA_STATE) outcome" where
  "flush c =
     bindO (flush_loop (replicate MAX_PAYLOAD_SIZE 0) c) (\<lambda>r c.
       case r of Some st \<Rightarrow> Ret st c
       | None \<Rightarrow>
           if expectedSeqNum c < highestSeqNum c then
             bindO (sendRR (expectedSeqNum c) c) (\<lambda>_ c.
             bindO (sendSREJ (expectedSeqNum c) c) (\<lambda>_. Ret BUFFER))
           else bindO (sendRR (expectedSeqNum c) c) (\<lambda>_. Ret IN_ORDER))"

section \<open>receiveData\<close>

text \<open>
  One call handles one datagram. The timeout test compares with 0, which \<open>pollCall\<close> returns
  for a condition on descriptor 0, the standard input, and not for an expired timer; that one leads
  on to the blocking \<open>recvfrom\<close>.
\<close>

definition dispatch_data ::
  "u32 \<Rightarrow> byte list \<Rightarrow> int \<Rightarrow> byte \<Rightarrow> rcopy \<Rightarrow> (rcopy, DATA_STATE) outcome" where
  "dispatch_data receivedSeqNum payload payloadLen flag c =
     (case dataState c of
        IN_ORDER \<Rightarrow> inOrder receivedSeqNum payload payloadLen flag c
      | BUFFER \<Rightarrow> buffer_state receivedSeqNum payload payloadLen flag c
      | _ \<Rightarrow> Ret (dataState c) c)"

definition run_data_state ::
  "u32 \<Rightarrow> byte list \<Rightarrow> int \<Rightarrow> byte \<Rightarrow> rcopy \<Rightarrow> (rcopy, rcopy_STATE) outcome" where
  "run_data_state receivedSeqNum payload payloadLen flag c =
     bindO (dispatch_data receivedSeqNum payload payloadLen flag c) (\<lambda>st c.
       let c = c\<lparr>dataState := st\<rparr> in
       bindO (if dataState c = FLUSH
              then bindO (flush c) (\<lambda>st c. Ret () (c\<lparr>dataState := st\<rparr>)) else Ret () c)
         (\<lambda>_ c. Ret (if dataState c = DATA_STATE_DONE then SEND_EOF_ACK else RECV_DATA) c))"

definition receiveData :: "rcopy \<Rightarrow> (rcopy, rcopy_STATE) outcome" where
  "receiveData c =
     bindO (pollCall LONG_TIME c) (\<lambda>pollValue c.
     if pollValue = 0 then Ret DONE_RCOPY c
     else
       bindO (safeRecvfrom MAX_PDU_SIZE c) (\<lambda>(from, d) c.
       let c = c\<lparr>serverConn := (serverConn c)\<lparr>info := from\<rparr>\<rparr>; pdu = recv_buffer d in
       case retrieveHeader pdu (int (length d)) of (flag, receivedSeqNum, checksumResult, payloadLen) \<Rightarrow>
       bindO (liftO (memcpy (replicate MAX_PAYLOAD_SIZE 0) 0 (drop PDU_HEADER_SIZE pdu) payloadLen) c)
         (\<lambda>payload c.
       if checksumResult = CRC_ERROR then Ret RECV_DATA c
       else run_data_state receivedSeqNum payload payloadLen flag c)))"

section \<open>Setting up the connection\<close>

text \<open>
  A reconnect closes the old socket, so what arrives from then on arrives on the new one.
\<close>

definition setupConnection :: "rcopy \<Rightarrow> (rcopy, rcopy_STATE) outcome" where
  "setupConnection c =
     bindO (if 0 < socketNum (serverConn c)
            then bindO (liftO (removeFromPollSet (socketNum (serverConn c)) (polled c)) c)
                   (\<lambda>ps c. Ret () (c\<lparr>polled := ps\<rparr>))
            else Ret () c) (\<lambda>_ c.
     bindO (setupUdpClientToServer (getaddrinfo c) (remoteMachine (myParameters c))
              (portNumber (myParameters c)) c) (\<lambda>(s, serverAddress) c.
     let c = c\<lparr>serverConn := (serverConn c)\<lparr>socketNum := s, info := serverAddress\<rparr>, udp_sock := s\<rparr> in
     bindO (addToPollSet s c) (\<lambda>_. Ret SEND_FILENAME)))"

definition sendFilenamePDU :: "u32 \<Rightarrow> rcopy \<Rightarrow> (rcopy, unit) outcome" where
  "sendFilenamePDU seqNum c =
     (let par = myParameters c;
          payloadLen = int SIZE_OF_BUFFER_SIZE + int SIZE_OF_WINDOW_SIZE + fromFilenameLen par + 1;
          bufferSize_n = htonl (word_of_int (bufferSize par));
          windowSize_n = htonl (word_of_int (windowSize par)) in
      bindO (liftO
        (bindE (memcpy (replicate MAX_PAYLOAD_SIZE 0) 0 (bytes32 bufferSize_n) 4) (\<lambda>payload.
         bindE (memcpy payload SIZE_OF_BUFFER_SIZE (bytes32 windowSize_n) 4) (\<lambda>payload.
         memcpy payload (SIZE_OF_BUFFER_SIZE + SIZE_OF_WINDOW_SIZE) (fromFilename par)
           (fromFilenameLen par + 1)))) c)
        (\<lambda>payload c. sendPDU (serverConn c) payload payloadLen (flag_code FNAME) seqNum c))"

text \<open>
  \<open>sendFilename\<close> and \<open>filenameOk\<close> send and then wait for an answer. Their two halves have
  names of their own, since the process may block between them.
\<close>

definition sendFilename_send :: "rcopy \<Rightarrow> (rcopy, unit) outcome" where
  "sendFilename_send c =
     bindO (sendFilenamePDU (clientSeqNum c) c)
       (\<lambda>_ c. Ret () (c\<lparr>clientSeqNum := clientSeqNum c + 1\<rparr>))"

definition sendFilename_poll :: "rcopy \<Rightarrow> (rcopy, rcopy_STATE) outcome" where
  "sendFilename_poll c =
     bindO (processPoll (sendFilename_retryCount c) SHORT_TIME 10
              SETUP_CONNECTION FILENAME_STATUS DONE_RCOPY c)
       (\<lambda>(nextState, retryCount) c. Ret nextState (c\<lparr>sendFilename_retryCount := retryCount\<rparr>))"

definition sendFilename :: "rcopy \<Rightarrow> (rcopy, rcopy_STATE) outcome" where
  "sendFilename c = bindO (sendFilename_send c) (\<lambda>_. sendFilename_poll)"

definition getFilenameStatus :: "rcopy \<Rightarrow> (rcopy, rcopy_STATE) outcome" where
  "getFilenameStatus c =
     bindO (retrievePDU (serverConn c) (replicate MAX_PAYLOAD_SIZE 0) c)
       (\<lambda>(conn, flag, seqNum, checksumResult, payload, payloadSize) c.
     let c = c\<lparr>serverConn := conn\<rparr>; filenameStatus = payload ! 0 in
     if checksumResult = CRC_ERROR then Ret SETUP_CONNECTION c
     else if filenameStatus = flag_code FNAME_BAD then Ret DONE_RCOPY c
     else if filenameStatus = flag_code FNAME_OK then
       let c = c\<lparr>outputFileDesc := open_result c\<rparr> in
       if outputFileDesc c < 0 then Ret DONE_RCOPY c
       else Ret FILENAME_OK_STATE (c\<lparr>outputFile := []\<rparr>)
     else Ret SETUP_CONNECTION c)"

definition filenameOk_send :: "rcopy \<Rightarrow> (rcopy, unit) outcome" where
  "filenameOk_send c =
     bindO (sendFlagOnly (serverConn c) (flag_code FNAME_OK_ACK) (clientSeqNum c) c)
       (\<lambda>_ c. Ret () (c\<lparr>clientSeqNum := clientSeqNum c + 1\<rparr>))"

definition filenameOk_poll :: "rcopy \<Rightarrow> (rcopy, rcopy_STATE) outcome" where
  "filenameOk_poll c =
     bindO (processPoll (filenameOk_retryCount c) SHORT_TIME 10
              FILENAME_OK_STATE RECV_DATA DONE_RCOPY c)
       (\<lambda>(nextState, retryCount) c. Ret nextState (c\<lparr>filenameOk_retryCount := retryCount\<rparr>))"

definition rcopy_filenameOk :: "rcopy \<Rightarrow> (rcopy, rcopy_STATE) outcome" where
  "rcopy_filenameOk c = bindO (filenameOk_send c) (\<lambda>_. filenameOk_poll)"

definition sendEOFAck :: "rcopy \<Rightarrow> (rcopy, rcopy_STATE) outcome" where
  "sendEOFAck c =
     bindO (sendFlagOnly (serverConn c) (flag_code EOF_ACK) (clientSeqNum c) c)
       (\<lambda>_ c. Ret DONE_RCOPY (c\<lparr>clientSeqNum := clientSeqNum c + 1\<rparr>))"

section \<open>The state machine\<close>

text \<open>One pass of the loop of \<open>processFile\<close>.\<close>

fun client_step :: "rcopy_STATE \<Rightarrow> rcopy \<Rightarrow> (rcopy, rcopy_STATE) outcome" where
  "client_step SETUP_CONNECTION c = setupConnection c"
| "client_step SEND_FILENAME c = sendFilename c"
| "client_step FILENAME_STATUS c = getFilenameStatus c"
| "client_step FILENAME_OK_STATE c = rcopy_filenameOk c"
| "client_step RECV_DATA c = receiveData c"
| "client_step SEND_EOF_ACK c = sendEOFAck c"
| "client_step DONE_RCOPY c = Ret DONE_RCOPY c"

text \<open>The loop with at most \<open>fuel\<close> passes; \<open>None\<close> when they do not suffice.\<close>

fun client_loop :: "nat \<Rightarrow> rcopy_STATE \<Rightarrow> rcopy \<Rightarrow> (rcopy, unit) outcome option" where
  "client_loop fuel DONE_RCOPY c = Some (Ret () c)"
| "client_loop 0 st c = None"
| "client_loop (Suc fuel) st c =
     (case client_step st c of
        Stop h c \<Rightarrow> Some (Stop h c)
      | Ret st c \<Rightarrow> client_loop fuel st c)"

definition processFile_init :: "rcopy \<Rightarrow> (rcopy, unit) outcome" where
  "processFile_init c =
     (let c = c\<lparr>serverConn := \<lparr>socketNum = 0, info = zero_sockaddr_in6, addrLen = 28\<rparr>\<rparr> in
      bindO (setupPollSet c) (\<lambda>_ c.
      bindO (setupBuffer (windowSize (myParameters c)) c) (\<lambda>b c.
        Ret () (c\<lparr>recvBuf := b, outputFileDesc := 0, clientSeqNum := 0\<rparr>))))"

definition processFile :: "nat \<Rightarrow> rcopy \<Rightarrow> (rcopy, unit) outcome option" where
  "processFile fuel c =
     (case processFile_init c of
        Stop h c \<Rightarrow> Some (Stop h c)
      | Ret _ c \<Rightarrow> client_loop fuel SETUP_CONNECTION c)"

text \<open>
  The process before \<open>processFile\<close>: the static variables have their initial values, the rest
  is what the command line and the operating system supply.
\<close>

definition rcopy_boot ::
  "Parameters \<Rightarrow> event list \<Rightarrow> bool list \<Rightarrow> PacketManager \<Rightarrow> nat \<Rightarrow> int list \<Rightarrow> int \<Rightarrow> resolver \<Rightarrow> rcopy"
  where
  "rcopy_boot params reports errs manager memory descriptors opened resolve =
     \<lparr>net_in = reports, net_out = [], send_errs = errs, pm = manager, polled = static_pollset,
      udp_sock = 0, heap = memory, sockets = descriptors, myParameters = params,
      serverConn = \<lparr>socketNum = 0, info = zero_sockaddr_in6, addrLen = 28\<rparr>, clientSeqNum = 0,
      recvBuf = static_buffer, dataState = IN_ORDER, expectedSeqNum = START_SEQ_NUM,
      highestSeqNum = START_SEQ_NUM, sendFilename_retryCount = 0, filenameOk_retryCount = 0,
      outputFileDesc = 0, outputFile = [], open_result = opened, getaddrinfo = resolve\<rparr>"

end
