(* ===== verification/RcopyLoop.thy ===== *)
theory RcopyLoop
  imports Rcopy
begin

text \<open>
  The state machine of \<open>rcopy\<close> as a whole: what its handlers leave alone, that every pass of the
  loop of \<open>processFile\<close> either takes a report of the kernel or moves forward in the machine, so
  that the loop ends on every finite sequence of reports, and what the timers do.
\<close>

section \<open>Handlers that only compute and send\<close>

lemma sendRR_frame: "sendRR v c = Ret x c' \<Longrightarrow> pm_ok (pm c) \<Longrightarrow> proc_frame c c'"
  by (auto simp: sendRR_def run_simps proc_frame_def dest!: sendPDU_proc_frame)

lemma sendSREJ_frame: "sendSREJ v c = Ret x c' \<Longrightarrow> pm_ok (pm c) \<Longrightarrow> proc_frame c c'"
  by (auto simp: sendSREJ_def run_simps proc_frame_def dest!: sendPDU_proc_frame)

lemma write_out_frame [simp]:
  "net_in (write_out d n c) = net_in c" "polled (write_out d n c) = polled c"
  "udp_sock (write_out d n c) = udp_sock c" "pm (write_out d n c) = pm c"
  "sockets (write_out d n c) = sockets c"
  by (simp_all add: write_out_def)

lemma inOrder_frame: "inOrder s pl n f c = Ret D c' \<Longrightarrow> pm_ok (pm c) \<Longrightarrow> proc_frame c c'"
  by (auto simp: inOrder_def run_simps Let_def proc_frame_def split: if_splits
      dest!: sendRR_frame sendSREJ_frame)

lemma buffer_state_frame: "buffer_state s pl n f c = Ret D c' \<Longrightarrow> pm_ok (pm c) \<Longrightarrow> proc_frame c c'"
  by (auto simp: buffer_state_def run_simps Let_def proc_frame_def split: if_splits
      dest!: sendRR_frame sendSREJ_frame)

lemma flush_loop_frame: "flush_loop data c = Ret r c' \<Longrightarrow> proc_frame c c'"
proof (induction "valid_slots (recvBuf c)" arbitrary: data c rule: less_induct)
  case less
  show ?case
  proof (cases "expectedSeqNum c \<le> highestSeqNum c")
    case False
    with less.prems show ?thesis by (simp add: flush_loop.simps [of data c])
  next
    case True
    then have eq: "flush_loop data c = (case getDataFromBuffer (expectedSeqNum c) data (recvBuf c) of
           Inl h \<Rightarrow> Stop h c
         | Inr (None, b) \<Rightarrow> Ret None (c\<lparr>recvBuf := b\<rparr>)
         | Inr (Some (flag, data, dataLen), b) \<Rightarrow>
             if flag = flag_code END_OF_FILE then Ret (Some DATA_STATE_DONE) (c\<lparr>recvBuf := b\<rparr>)
             else flush_loop data (write_out data dataLen
                    (c\<lparr>recvBuf := b, expectedSeqNum := expectedSeqNum c + 1\<rparr>)))"
      by (subst flush_loop.simps) simp
    show ?thesis
    proof (cases "getDataFromBuffer (expectedSeqNum c) data (recvBuf c)")
      case (Inl h)
      with less.prems eq show ?thesis by simp
    next
      case (Inr rb)
      obtain r b where rb: "rb = (r, b)" by fastforce
      show ?thesis
      proof (cases r)
        case None
        with less.prems eq Inr rb show ?thesis by (auto simp: proc_frame_def)
      next
        case (Some v)
        obtain f d m where v: "v = (f, d, m)" by (cases v)
        let ?c = "write_out d m (c\<lparr>recvBuf := b, expectedSeqNum := expectedSeqNum c + 1\<rparr>)"
        show ?thesis
        proof (cases "f = flag_code END_OF_FILE")
          case True
          with less.prems eq Inr rb Some v show ?thesis by (auto simp: proc_frame_def)
        next
          case False
          have "valid_slots (recvBuf ?c) < valid_slots (recvBuf c)"
            using getDataFromBuffer_decreases [of _ data "recvBuf c" v b] Inr rb Some
            by (simp add: write_out_def)
          from less.hyps [OF this, of d] less.prems eq Inr rb Some v False
          have "proc_frame ?c c'" by simp
          then show ?thesis by (simp add: proc_frame_def)
        qed
      qed
    qed
  qed
qed

lemma flush_frame: "flush c = Ret D c' \<Longrightarrow> pm_ok (pm c) \<Longrightarrow> proc_frame c c'"
  by (auto simp: flush_def run_simps proc_frame_def split: if_splits option.splits
      dest!: sendRR_frame sendSREJ_frame flush_loop_frame)

lemma dispatch_frame: "dispatch_data s pl n f c = Ret D c' \<Longrightarrow> pm_ok (pm c) \<Longrightarrow> proc_frame c c'"
  by (auto simp: dispatch_data_def split: DATA_STATE.splits dest: inOrder_frame buffer_state_frame)

lemma run_data_state_frame:
  assumes "run_data_state s pl n f c = Ret st c'" "pm_ok (pm c)"
  shows "st \<in> {RECV_DATA, SEND_EOF_ACK} \<and> proc_frame c c'"
proof -
  from assms(1) obtain D c1 where D: "dispatch_data s pl n f c = Ret D c1"
    by (auto simp: run_data_state_def bindO_eq_Ret)
  from dispatch_frame [OF this assms(2)] have fr: "proc_frame c c1" .
  show ?thesis
  proof (cases "D = FLUSH")
    case False
    with assms(1) D have "st \<in> {RECV_DATA, SEND_EOF_ACK}" "c' = c1\<lparr>dataState := D\<rparr>"
      by (simp_all add: run_data_state_def split: if_splits)
    with fr show ?thesis by (simp add: proc_frame_def)
  next
    case True
    with assms(1) D obtain D' c2 where f: "flush (c1\<lparr>dataState := FLUSH\<rparr>) = Ret D' c2"
      by (auto simp: run_data_state_def bindO_eq_Ret)
    with assms(1) D True have "st \<in> {RECV_DATA, SEND_EOF_ACK}" "c' = c2\<lparr>dataState := D'\<rparr>"
      by (simp_all add: run_data_state_def split: if_splits)
    moreover have "proc_frame (c1\<lparr>dataState := FLUSH\<rparr>) c2"
      using flush_frame [OF f] fr assms(2) by (simp add: proc_frame_def)
    ultimately show ?thesis using fr by (simp add: proc_frame_def)
  qed
qed

section \<open>What each state does to the reports\<close>

text \<open>What the loop relies on; only the first state may be without a socket.\<close>

definition loop_inv :: "rcopy_STATE \<Rightarrow> rcopy \<Rightarrow> bool" where
  "loop_inv st c \<longleftrightarrow> pollset_ok (polled c) \<and> pm_ok (pm c) \<and> (\<forall>s \<in> set (sockets c). s \<noteq> 0)
     \<and> (st = SETUP_CONNECTION \<or> proc_ok c)"

lemma loop_inv_same:
  "loop_inv st c \<Longrightarrow> st \<noteq> SETUP_CONNECTION \<Longrightarrow> polled c' = polled c \<Longrightarrow> udp_sock c' = udp_sock c \<Longrightarrow>
   sockets c' = sockets c \<Longrightarrow> (pm_ok (pm c) \<longrightarrow> pm_ok (pm c')) \<Longrightarrow> loop_inv st' c'"
  by (auto simp: loop_inv_def proc_ok_def)

text \<open>The states in the order of the machine, the last one 0.\<close>

fun rank :: "rcopy_STATE \<Rightarrow> nat" where
  "rank SETUP_CONNECTION = 6"
| "rank SEND_FILENAME = 5"
| "rank FILENAME_STATUS = 4"
| "rank FILENAME_OK_STATE = 3"
| "rank RECV_DATA = 2"
| "rank SEND_EOF_ACK = 1"
| "rank DONE_RCOPY = 0"

text \<open>A pass either takes a report or moves forward.\<close>

definition moves_on :: "rcopy_STATE \<Rightarrow> rcopy \<Rightarrow> rcopy_STATE \<Rightarrow> rcopy \<Rightarrow> bool" where
  "moves_on st c st' c' \<longleftrightarrow> length (net_in c') < length (net_in c)
     \<or> length (net_in c') = length (net_in c) \<and> rank st' < rank st"

lemma setupConnection_moves:
  assumes "setupConnection c = Ret st c'" "loop_inv SETUP_CONNECTION c"
  shows "moves_on SETUP_CONNECTION c st c' \<and> loop_inv st c'"
proof -
  obtain c1 s a c2 where
    c1: "(if 0 < socketNum (serverConn c)
          then bindO (liftO (removeFromPollSet (socketNum (serverConn c)) (polled c)) c)
                 (\<lambda>ps c. Ret () (c\<lparr>polled := ps\<rparr>))
          else Ret () c) = Ret () c1"
    and s: "setupUdpClientToServer (getaddrinfo c1) (remoteMachine (myParameters c1))
          (portNumber (myParameters c1)) c1 = Ret (s, a) c2"
    and add: "addToPollSet s (c2\<lparr>serverConn := (serverConn c2)\<lparr>socketNum := s, info := a\<rparr>, udp_sock := s\<rparr>) = Ret () c'"
    and st: "st = SEND_FILENAME"
    using assms(1) by (auto simp: setupConnection_def run_simps Let_def)
  have 1: "pollset_ok (polled c1)" "net_in c1 = net_in c" "pm c1 = pm c" "sockets c1 = sockets c"
    using c1 assms(2)
    by (auto simp: loop_inv_def run_simps removeFromPollSet_def set_pollfd_def intro!: set_pollfd_ok split: if_splits)
  from setupUdpClientToServer_Ret [OF s] obtain ss where
    2: "0 \<le> s" "c2 = c1\<lparr>sockets := ss\<rparr>" "sockets c1 = s # ss" by blast
  have s0: "0 < s" using 2(1,3) 1(4) assms(2) by (auto simp: loop_inv_def)
  have "pollset_ok (polled c2)" using 1(1) 2(2) by simp
  with addToPollSet_Ret [OF add _ 2(1)] obtain ps h where
    c': "c' = c2\<lparr>serverConn := (serverConn c2)\<lparr>socketNum := s, info := a\<rparr>, udp_sock := s, heap := h, polled := ps\<rparr>"
    and "pollset_ok ps" "is_polled s ps" by (auto simp: poll_added_def)
  moreover have "set ss \<subseteq> set (sockets c)" using 1(4) 2(3) by (metis set_subset_Cons)
  then have "\<forall>x \<in> set ss. x \<noteq> 0" using assms(2) by (auto simp: loop_inv_def)
  moreover have "net_in c' = net_in c" "pm c' = pm c" "sockets c' = ss" "polled c' = ps" "udp_sock c' = s"
    using c' 1 2 by simp_all
  ultimately show ?thesis
    using s0 st assms(2) by (simp add: moves_on_def loop_inv_def proc_ok_def)
qed

lemma sendFilename_moves:
  assumes "sendFilename c = Ret st c'" "loop_inv SEND_FILENAME c"
  shows "moves_on SEND_FILENAME c st c' \<and> loop_inv st c'"
proof -
  have ok: "proc_ok c" using assms(2) by (simp add: loop_inv_def)
  from assms(1) obtain c1 where "sendFilename_send c = Ret () c1" and p: "sendFilename_poll c1 = Ret st c'"
    by (auto simp: sendFilename_def run_simps)
  then have fr: "proc_frame c c1"
    using ok by (auto simp: sendFilename_send_def sendFilenamePDU_def run_simps Let_def proc_ok_def
        proc_frame_def dest!: sendPDU_proc_frame)
  from p obtain n q where poll: "processPoll (sendFilename_retryCount c1) SHORT_TIME 10 SETUP_CONNECTION
      FILENAME_STATUS DONE_RCOPY c1 = Ret (st, n) q" "c' = q\<lparr>sendFilename_retryCount := n\<rparr>"
    by (auto simp: sendFilename_poll_def run_simps)
  from processPoll_progress [OF proc_frame_ok [OF fr ok] poll(1)] poll(2) fr
  have "polled c' = polled c" "udp_sock c' = udp_sock c" "sockets c' = sockets c"
    "pm_ok (pm c) \<longrightarrow> pm_ok (pm c')" "moves_on SEND_FILENAME c st c'"
    by (auto simp: proc_frame_def moves_on_def)
  then show ?thesis using loop_inv_same [OF assms(2)] by simp
qed

lemma getFilenameStatus_moves:
  assumes "getFilenameStatus c = Ret st c'" "loop_inv FILENAME_STATUS c"
  shows "moves_on FILENAME_STATUS c st c' \<and> loop_inv st c'"
proof (cases "retrievePDU (serverConn c) (replicate MAX_PAYLOAD_SIZE 0) c")
  case (Stop h q)
  with assms(1) show ?thesis by (simp add: getFilenameStatus_def)
next
  case (Ret x q)
  obtain conn f s crc pl n where x: "x = (conn, f, s, crc, pl, n)" by (cases x)
  from retrievePDU_Ret [OF Ret [unfolded x]] obtain es where
    q: "q = c\<lparr>net_in := es\<rparr>" "length es < length (net_in c)" by blast
  from assms(1) have "polled c' = polled q" "udp_sock c' = udp_sock q" "sockets c' = sockets q"
    "pm c' = pm q" "net_in c' = net_in q"
    unfolding getFilenameStatus_def Ret x
    by (simp_all add: Let_def split: if_splits) auto
  with q have "polled c' = polled c" "udp_sock c' = udp_sock c" "sockets c' = sockets c"
    "pm c' = pm c" "moves_on FILENAME_STATUS c st c'"
    by (simp_all add: moves_on_def)
  then show ?thesis using loop_inv_same [OF assms(2)] by simp
qed

lemma rcopy_filenameOk_moves:
  assumes "rcopy_filenameOk c = Ret st c'" "loop_inv FILENAME_OK_STATE c"
  shows "moves_on FILENAME_OK_STATE c st c' \<and> loop_inv st c'"
proof -
  have ok: "proc_ok c" using assms(2) by (simp add: loop_inv_def)
  from assms(1) obtain c1 where "filenameOk_send c = Ret () c1" and p: "filenameOk_poll c1 = Ret st c'"
    by (auto simp: rcopy_filenameOk_def run_simps)
  then have fr: "proc_frame c c1"
    using ok by (auto simp: filenameOk_send_def sendFlagOnly_def run_simps proc_ok_def
        proc_frame_def dest!: sendPDU_proc_frame)
  from p obtain n q where poll: "processPoll (filenameOk_retryCount c1) SHORT_TIME 10 FILENAME_OK_STATE
      RECV_DATA DONE_RCOPY c1 = Ret (st, n) q" "c' = q\<lparr>filenameOk_retryCount := n\<rparr>"
    by (auto simp: filenameOk_poll_def run_simps)
  from processPoll_progress [OF proc_frame_ok [OF fr ok] poll(1)] poll(2) fr
  have "polled c' = polled c" "udp_sock c' = udp_sock c" "sockets c' = sockets c"
    "pm_ok (pm c) \<longrightarrow> pm_ok (pm c')" "moves_on FILENAME_OK_STATE c st c'"
    by (auto simp: proc_frame_def moves_on_def)
  then show ?thesis using loop_inv_same [OF assms(2)] by simp
qed

text \<open>
  \<open>receiveData\<close> takes a datagram, and whatever it is the client goes on, unless the poll reports a
  hang-up of the standard input.
\<close>

lemma receiveData_Ret:
  assumes "receiveData c = Ret st c'" "proc_ok c"
  shows "(st \<in> {RECV_DATA, SEND_EOF_ACK} \<or> st = DONE_RCOPY \<and> (\<exists>es. net_in c = Hangup # es \<and> c' = c\<lparr>net_in := es\<rparr>)) \<and> length (net_in c') < length (net_in c)
    \<and> polled c' = polled c \<and> udp_sock c' = udp_sock c \<and> sockets c' = sockets c
    \<and> (pm_ok (pm c) \<longrightarrow> pm_ok (pm c'))"
proof -
  from assms(1) obtain v c1 where p: "pollCall LONG_TIME c = Ret v c1"
    by (auto simp: receiveData_def bindO_eq_Ret)
  from assms(2) p have es: "\<exists>es. c1 = c\<lparr>net_in := es\<rparr> \<and> length es \<le> length (net_in c)"
    "v = 0 \<Longrightarrow> \<exists>es. net_in c = Hangup # es \<and> c1 = c\<lparr>net_in := es\<rparr>"
    by (cases rule: pollCall_cases; auto intro: exI [of _ "net_in c"])+
  show ?thesis
  proof (cases "v = 0")
    case True
    with assms(1) p have "st = DONE_RCOPY" "c' = c1" by (simp_all add: receiveData_def)
    with es(2) [OF True] show ?thesis by auto
  next
    case False
    note c1 = False es(1)
    with assms(1) p obtain a d c2 where r: "safeRecvfrom MAX_PDU_SIZE c1 = Ret (a, d) c2"
      by (auto simp: receiveData_def bindO_eq_Ret)
    from safeRecvfrom_Ret [OF r] c1(2) obtain es where
      c2: "c2 = c\<lparr>net_in := es\<rparr>" "length es < length (net_in c)" by auto
    let ?c = "c2\<lparr>serverConn := (serverConn c2)\<lparr>info := a\<rparr>\<rparr>"
    obtain f s crc n where h: "retrieveHeader (recv_buffer d) (int (length d)) = (f, s, crc, n)"
      by (cases "retrieveHeader (recv_buffer d) (int (length d))")
    define M where "M = memcpy (replicate MAX_PAYLOAD_SIZE 0) 0 (drop PDU_HEADER_SIZE (recv_buffer d)) n"
    have B: "bindO (liftO M ?c)
        (\<lambda>pl c. if crc = CRC_ERROR then Ret RECV_DATA c else run_data_state s pl n f c) = Ret st c'"
      using assms(1) c1(1) r h unfolding receiveData_def p by (simp add: Let_def M_def)
    obtain pl where
      "(if crc = CRC_ERROR then Ret RECV_DATA ?c else run_data_state s pl n f ?c) = Ret st c'"
    proof (cases M)
      case (Inl h)
      with B show ?thesis by simp
    next
      case (Inr pl)
      from B [unfolded Inr liftO.simps bindO.simps] show ?thesis by (rule that)
    qed
    then have "st \<in> {RECV_DATA, SEND_EOF_ACK} \<and> proc_frame ?c c'"
    proof (cases "crc = CRC_ERROR")
      case False
      assume "(if crc = CRC_ERROR then Ret RECV_DATA ?c else run_data_state s pl n f ?c) = Ret st c'"
      with False have "run_data_state s pl n f ?c = Ret st c'" by (simp only: if_False)
      moreover have "pm_ok (pm ?c)" using assms(2) c2 by (simp add: proc_ok_def)
      ultimately show ?thesis by (rule run_data_state_frame)
    qed (simp only: if_True outcome.inject, simp)
    with c2 show ?thesis by (auto simp: proc_frame_def)
  qed
qed

lemma receiveData_moves:
  assumes "receiveData c = Ret st c'" "loop_inv RECV_DATA c"
  shows "moves_on RECV_DATA c st c' \<and> loop_inv st c'"
proof -
  have "proc_ok c" using assms(2) by (simp add: loop_inv_def)
  from receiveData_Ret [OF assms(1) this] loop_inv_same [OF assms(2), of c' st] show ?thesis
    by (auto simp: moves_on_def)
qed

lemma sendEOFAck_moves:
  assumes "sendEOFAck c = Ret st c'" "loop_inv SEND_EOF_ACK c"
  shows "moves_on SEND_EOF_ACK c st c' \<and> loop_inv st c'"
proof -
  from assms have "st = DONE_RCOPY" "proc_frame c c'"
    by (auto simp: sendEOFAck_def sendFlagOnly_def run_simps loop_inv_def proc_frame_def
        dest!: sendPDU_proc_frame)
  then show ?thesis
    using loop_inv_same [OF assms(2)] by (auto simp: moves_on_def proc_frame_def)
qed

lemma client_step_moves:
  assumes "client_step st c = Ret st' c'" "loop_inv st c" "st \<noteq> DONE_RCOPY"
  shows "moves_on st c st' c' \<and> loop_inv st' c'"
  using assms setupConnection_moves sendFilename_moves getFilenameStatus_moves
    rcopy_filenameOk_moves receiveData_moves sendEOFAck_moves
  by (cases st) auto

section \<open>The loop ends\<close>

definition loop_measure :: "rcopy_STATE \<Rightarrow> rcopy \<Rightarrow> nat" where
  "loop_measure st c = 7 * length (net_in c) + rank st"

lemma moves_on_measure:
  assumes "moves_on st c st' c'"
  shows "loop_measure st' c' < loop_measure st c"
proof -
  have "rank st' \<le> 6" by (cases st') simp_all
  with assms show ?thesis by (auto simp: moves_on_def loop_measure_def)
qed

lemma client_loop_total:
  "loop_inv st c \<Longrightarrow> loop_measure st c \<le> fuel \<Longrightarrow> \<exists>r. client_loop fuel st c = Some r"
proof (induction fuel arbitrary: st c)
  case 0
  then have "st = DONE_RCOPY" by (cases st) (simp_all add: loop_measure_def)
  then show ?case by simp
next
  case (Suc fuel)
  show ?case
  proof (cases "st = DONE_RCOPY")
    case False
    then have eq: "client_loop (Suc fuel) st c =
        (case client_step st c of Stop h c \<Rightarrow> Some (Stop h c) | Ret st c \<Rightarrow> client_loop fuel st c)"
      by (cases st) simp_all
    show ?thesis
    proof (cases "client_step st c")
      case (Ret st' c')
      from client_step_moves [OF this Suc.prems(1) False] have "loop_inv st' c'"
        and m: "moves_on st c st' c'" by auto
      moreover have "loop_measure st' c' \<le> fuel"
        using moves_on_measure [OF m] Suc.prems(2) by simp
      ultimately show ?thesis using Suc.IH Ret eq by simp
    qed (use eq in simp)
  qed simp
qed

lemma processFile_ends:
  assumes "pm_ok manager" "\<forall>s \<in> set descriptors. s \<noteq> 0"
  shows "\<exists>r. processFile (7 * length reports + 6)
    (rcopy_boot params reports errs manager memory descriptors opened resolve) = Some r"
proof -
  let ?boot = "rcopy_boot params reports errs manager memory descriptors opened resolve"
  have conn: "?boot\<lparr>serverConn := \<lparr>socketNum = 0, info = zero_sockaddr_in6, addrLen = 28\<rparr>\<rparr> = ?boot"
    by (simp add: rcopy_boot_def)
  let ?c = "?boot\<lparr>heap := memory - 80, polled := fresh_pollset\<rparr>"
  have poll: "\<exists>h c. setupPollSet ?boot = Stop h c \<or> setupPollSet ?boot = Ret () ?c"
    using setupPollSet_eq [of ?boot] by (auto simp: rcopy_boot_def)
  show ?thesis
  proof (cases "setupPollSet ?boot")
    case (Stop h c)
    then show ?thesis by (simp add: processFile_def processFile_init_def conn)
  next
    case start: (Ret u c0)
    with poll have c0: "c0 = ?c" by auto
    have params: "myParameters ?c = params" by (simp add: rcopy_boot_def)
    show ?thesis
    proof (cases "setupBuffer (windowSize params) ?c")
      case (Stop h c)
      then show ?thesis using start by (simp add: processFile_def processFile_init_def conn c0 params)
    next
      case (Ret b c)
      then obtain hp where "c = ?c\<lparr>heap := hp\<rparr>"
        by (auto simp: setupBuffer_def sCalloc_def run_simps split: if_splits)
      then have "loop_inv SETUP_CONNECTION (c\<lparr>recvBuf := b, outputFileDesc := 0, clientSeqNum := 0\<rparr>)"
        "loop_measure SETUP_CONNECTION (c\<lparr>recvBuf := b, outputFileDesc := 0, clientSeqNum := 0\<rparr>)
           = 7 * length reports + 6"
        using assms by (auto simp: loop_inv_def loop_measure_def rcopy_boot_def fresh_pollset_ok)
      from client_loop_total [OF this(1)] this(2) Ret start show ?thesis
        by (simp add: processFile_def processFile_init_def conn c0 params)
    qed
  qed
qed

text \<open>
  C11. The client does not run for ever, whatever arrives and whichever timers expire: with at
  most \<open>7n + 6\<close> passes of its state machine, where \<open>n\<close> is the number of
  reports of the kernel, \<open>processFile\<close> has returned, has exited, has faulted (as it
  does at a datagram shorter than the header), or stands waiting for a report. The error injection
  is in a state the library can set up, and the sockets the kernel gives the process do not have
  the number 0, which is the standard input.
\<close>

theorem rcopy_always_ends:
  assumes "pm_ok manager" "\<forall>s \<in> set descriptors. s \<noteq> 0"
  shows "\<exists>r. processFile (7 * length reports + 6)
    (rcopy_boot params reports errs manager memory descriptors opened resolve) = Some r"
  by (rule processFile_ends [OF assms])

text \<open>Nothing is left to choose: one timeout, a host that does not resolve.\<close>

theorem rcopy_always_ends_witness:
  "\<exists>r. processFile (7 * length [Timeout] + 6)
    (rcopy_boot \<lparr>fromFilename = [102, 0], fromFilenameLen = 1, toFilename = [103, 0], toFilenameLen = 1,
       windowSize = 4, bufferSize = 2, errorRate = Num 0, remoteMachine = [104, 0], portNumber = 80\<rparr>
       [Timeout] [] (g_PktMgr 0) 5664 [3] 4 (\<lambda>_ _. None)) = Some r"
  by (rule rcopy_always_ends) (simp_all add: pm_ok_def g_PktMgr_def)

section \<open>The timers\<close>

definition recv_rest :: "rcopy \<Rightarrow> (rcopy, rcopy_STATE) outcome" where
  "recv_rest c =
       bindO (safeRecvfrom MAX_PDU_SIZE c) (\<lambda>(from, d) c.
       let c = c\<lparr>serverConn := (serverConn c)\<lparr>info := from\<rparr>\<rparr>; pdu = recv_buffer d in
       case retrieveHeader pdu (int (length d)) of (flag, receivedSeqNum, checksumResult, payloadLen) \<Rightarrow>
       bindO (liftO (memcpy (replicate MAX_PAYLOAD_SIZE 0) 0 (drop PDU_HEADER_SIZE pdu) payloadLen) c)
         (\<lambda>payload c.
       if checksumResult = CRC_ERROR then Ret RECV_DATA c
       else run_data_state receivedSeqNum payload payloadLen flag c))"

lemma receiveData_poll:
  "pollCall LONG_TIME c = Ret v c1 \<Longrightarrow> v \<noteq> 0 \<Longrightarrow> receiveData c = recv_rest c1"
  "pollCall LONG_TIME c = Stop h c1 \<Longrightarrow> receiveData c = Stop h c1"
  by (simp_all only: receiveData_def recv_rest_def bindO.simps if_False)

lemma recv_rest_cong:
  "recvfrom (net_in c) = recvfrom es \<Longrightarrow> recv_rest c = recv_rest (c\<lparr>net_in := es\<rparr>)"
  by (simp add: recv_rest_def safeRecvfrom_def split: prod.splits)

lemma recv_rest_Stop:
  "recvfrom (net_in c) = (Inl h, es) \<Longrightarrow> recv_rest c = Stop h (c\<lparr>net_in := es\<rparr>)"
  by (simp add: recv_rest_def safeRecvfrom_def)

lemma receiveData_timeout:
  assumes "proc_ok c" "net_in c = Timeout # es" "\<And>es'. es \<noteq> Hangup # es'"
  shows "receiveData c = receiveData (c\<lparr>net_in := es\<rparr>)"
proof -
  let ?c = "c\<lparr>net_in := es\<rparr>"
  have ok: "proc_ok ?c" using assms(1) by simp
  have l: "receiveData c = recv_rest ?c"
    using receiveData_poll(1) [OF pollCall_timeout [OF assms(2)]] by simp
  show ?thesis
  proof (cases es)
    case Nil
    then have "pollCall LONG_TIME ?c = Stop Waiting ?c" by (simp add: pollCall_waiting)
    from receiveData_poll(2) [OF this] l recv_rest_Stop [of ?c Waiting "[]"] Nil show ?thesis by simp
  next
    case (Cons e es')
    show ?thesis
    proof (cases e)
      case Timeout
      with Cons have "pollCall LONG_TIME ?c = Ret (- 1) (?c\<lparr>net_in := es'\<rparr>)"
        by (intro pollCall_timeout) simp
      from receiveData_poll(1) [OF this] recv_rest_cong [of ?c es'] Cons Timeout l show ?thesis by simp
    next
      case (Arrive a d)
      with Cons have "net_in ?c = Arrive a d # es'" by simp
      from receiveData_poll(1) [OF pollCall_ready [OF ok this]] l assms(1) show ?thesis
        by (simp add: proc_ok_def)
    next
      case SysErr
      with Cons have "pollCall LONG_TIME ?c = Stop (Exit (- 1)) (?c\<lparr>net_in := es'\<rparr>)"
        by (intro pollCall_SysErr) simp
      from receiveData_poll(2) [OF this] recv_rest_Stop [of ?c "Exit (- 1)" es'] Cons SysErr l
      show ?thesis by simp
    next
      case Hangup
      with Cons have "es = Hangup # es'" by simp
      with assms(3) show ?thesis by blast
    qed
  qed
qed

text \<open>A running client on socket 3, for the witnesses.\<close>

definition sample_client :: "event list \<Rightarrow> rcopy" where
  "sample_client reports =
     (rcopy_boot \<lparr>fromFilename = [], fromFilenameLen = 0, toFilename = [], toFilenameLen = 0,
        windowSize = 4, bufferSize = 2, errorRate = Num 0, remoteMachine = [0], portNumber = 0\<rparr>
        reports [] (g_PktMgr 0) 0 [] 0 (\<lambda>_ _. None))
     \<lparr>polled := \<lparr>pollFileDescriptors = replicate 3 zero_pollfd @ \<lparr>pfd = 3, pevents = POLLIN\<rparr>
          # replicate 6 zero_pollfd, maxFileDescriptor = 4, currentPollSetSize = 10\<rparr>,
      udp_sock := 3,
      recvBuf := \<lparr>buffer = replicate 4 zero_buffer_Data, myBufferSize = 4\<rparr>\<rparr>"

lemma sample_client_ok: "proc_ok (sample_client reports)"
  by (simp add: sample_client_def rcopy_boot_def proc_ok_def pollset_ok_def is_polled_def pm_ok_def
      g_PktMgr_def nth_append nth_Cons numeral_3_eq_3 split: nat.split)

text \<open>
  C30. The ten second limit of \<open>receiveData\<close> does not do what it is for: the function
  returns DONE exactly when its poll finds a condition on the standard input, which the zeroed
  entries of the poll set watch, and an expired timer is skipped: the function goes on as if it
  had not been reported (a condition on the standard input right after it is not even looked at,
  since \<open>recvfrom\<close> blocks).
\<close>

theorem receiveData_gives_up_only_on_hangup:
  assumes "proc_ok c"
  shows "(receiveData c = Ret DONE_RCOPY c' \<longleftrightarrow> (\<exists>es. net_in c = Hangup # es \<and> c' = c\<lparr>net_in := es\<rparr>))
    \<and> (net_in c = Timeout # es \<and> (\<forall>es'. es \<noteq> Hangup # es') \<longrightarrow> receiveData c = receiveData (c\<lparr>net_in := es\<rparr>))"
proof (intro conjI impI iffI)
  assume "receiveData c = Ret DONE_RCOPY c'"
  from receiveData_Ret [OF this assms] show "\<exists>es. net_in c = Hangup # es \<and> c' = c\<lparr>net_in := es\<rparr>" by auto
next
  assume "\<exists>es. net_in c = Hangup # es \<and> c' = c\<lparr>net_in := es\<rparr>"
  then show "receiveData c = Ret DONE_RCOPY c'"
    using assms by (auto simp: receiveData_def pollCall_hangup)
next
  assume "net_in c = Timeout # es \<and> (\<forall>es'. es \<noteq> Hangup # es')"
  then show "receiveData c = receiveData (c\<lparr>net_in := es\<rparr>)" using receiveData_timeout [OF assms] by blast
qed

text \<open>A timer that expires twice is passed over; a hang-up ends the transfer.\<close>

theorem receiveData_gives_up_only_on_hangup_witness:
  "(let c = sample_client [Hangup] in receiveData c = Ret DONE_RCOPY (c\<lparr>net_in := []\<rparr>))
    \<and> receiveData (sample_client [Timeout, Timeout]) = receiveData (sample_client [Timeout])"
proof -
  have net: "net_in (sample_client es) = es" "(sample_client es)\<lparr>net_in := es'\<rparr> = sample_client es'" for es es'
    by (simp_all add: sample_client_def rcopy_boot_def)
  show ?thesis
    using receiveData_gives_up_only_on_hangup [OF sample_client_ok, of "[Hangup]" "sample_client []" "[]"]
      receiveData_gives_up_only_on_hangup [OF sample_client_ok, of "[Timeout, Timeout]" "sample_client []" "[Timeout]"]
    by (auto simp: net Let_def)
qed

end
