(* ===== verification/FileBlocks.thy ===== *)
theory FileBlocks
  imports Prelude
begin

text \<open>
  The from-file as the protocol sees it: a sequence of blocks of \<open>b\<close> bytes, the last one
  shorter. Block \<open>k\<close> travels under sequence number \<open>k\<close>.
\<close>

definition chunk :: "nat \<Rightarrow> byte list \<Rightarrow> nat \<Rightarrow> byte list" where
  "chunk b F k = take b (drop (k * b) F)"

definition nchunks :: "nat \<Rightarrow> byte list \<Rightarrow> nat" where
  "nchunks b F = (length F + b - 1) div b"

lemma length_chunk_le: "length (chunk b F k) \<le> b"
  by (simp add: chunk_def)

lemma take_chunk: "take (k * b) F @ chunk b F k = take (Suc k * b) F"
  by (simp add: chunk_def take_chunk_append)

lemma nchunks_le_iff: "0 < b \<Longrightarrow> nchunks b F \<le> k \<longleftrightarrow> length F \<le> k * b"
proof -
  assume "0 < b"
  then have "nchunks b F \<le> k \<longleftrightarrow> (length F + b - 1) div b < Suc k" by (simp add: nchunks_def less_Suc_eq_le)
  also have "\<dots> \<longleftrightarrow> length F + b - 1 < Suc k * b" using \<open>0 < b\<close> by (rule div_less_iff_less_mult)
  also have "\<dots> \<longleftrightarrow> length F \<le> k * b" using \<open>0 < b\<close> by auto
  finally show ?thesis .
qed

lemma chunk_empty_iff: "0 < b \<Longrightarrow> chunk b F k = [] \<longleftrightarrow> nchunks b F \<le> k"
  by (auto simp: chunk_def nchunks_le_iff)

lemma take_nchunks: "0 < b \<Longrightarrow> take (nchunks b F * b) F = F"
  using nchunks_le_iff [of b F "nchunks b F"] by simp

text \<open>The blocks in order make up the file.\<close>

lemma concat_chunks: "concat (map (chunk b F) [0..<k]) = take (k * b) F"
  by (induction k) (simp_all only: upt_Suc_append map_append concat_append take_chunk [symmetric],
    simp_all add: take_chunk)

end
