(* ===== verification/RcopyData.thy ===== *)
theory RcopyData
  imports Rcopy FileBlocks
begin

text \<open>
  What the data states of \<open>rcopy\<close> keep: the to-file is the first \<open>E\<close> blocks of the from-file,
  \<open>E\<close> being the expected number, and the receive buffer holds blocks above \<open>E\<close> only, in state
  \<open>IN_ORDER\<close> none at all. The lemmas go through the handlers; \<open>receiveData_ok\<close> collects them
  for one datagram.
\<close>

section \<open>Acknowledgments on the wire\<close>

definition ack :: "FLAG \<Rightarrow> u32 \<Rightarrow> nat \<Rightarrow> msg" where
  "ack f seqNum v = (flag_code f, seqNum, bytes32 (htonl (of_nat v)))"

text \<open>What a client in the given numbers may send: RR for \<open>E\<close>, and SREJ for it if it misses it.\<close>

definition is_ack :: "nat \<Rightarrow> nat \<Rightarrow> msg \<Rightarrow> bool" where
  "is_ack E H m \<longleftrightarrow> (\<exists>s. m = ack RR s E \<or> (m = ack SREJ s E \<and> E < H))"

text \<open>\<open>acked ms c c'\<close>: the client has sent \<open>ms\<close>, as far as the link let it, and done nothing else.\<close>

definition acked :: "msg list \<Rightarrow> rcopy \<Rightarrow> rcopy \<Rightarrow> bool" where
  "acked ms c c' \<longleftrightarrow> (\<exists>out pm' fs q. transmits ms out \<and> pm_ok pm' \<and>
     c' = c\<lparr>pm := pm', net_out := net_out c @ out, send_errs := fs, clientSeqNum := q\<rparr>)"

lemma acked_Nil: "pm_ok (pm c) \<Longrightarrow> acked [] c c"
  unfolding acked_def
  by (intro exI [of _ "[]"] exI [of _ "pm c"] exI [of _ "send_errs c"] exI [of _ "clientSeqNum c"]) auto

lemma acked_trans: "acked ms c c' \<Longrightarrow> acked ms' c' c'' \<Longrightarrow> acked (ms @ ms') c c''"
  unfolding acked_def by (fastforce intro: transmits_append)

lemma acked_more: "acked ms c c' \<Longrightarrow> subseq ms ms' \<Longrightarrow> acked ms' c c'"
  unfolding acked_def transmits_def by (blast intro: subseq_order.order_trans)

lemma sent_state_acked:
  assumes "transmits ms out" "sent_state out c c'"
  shows "acked ms c c'" "acked ms c (c'\<lparr>clientSeqNum := q\<rparr>)"
proof -
  obtain fs pm' where *: "pm_ok pm'" "c' = c\<lparr>pm := pm', net_out := net_out c @ out, send_errs := fs\<rparr>"
    using assms(2) by (auto simp: sent_state_def)
  then have "c' = c\<lparr>pm := pm', net_out := net_out c @ out, send_errs := fs, clientSeqNum := clientSeqNum c\<rparr>"
    by simp
  with * assms(1) show "acked ms c c'" "acked ms c (c'\<lparr>clientSeqNum := q\<rparr>)"
    unfolding acked_def by blast+
qed

lemma send_ack_ok:
  assumes "pm_ok (pm c)"
    and "send = bindO (sendPDU (serverConn c) (bytes32 (htonl (of_nat v))) 4 (flag_code f) (clientSeqNum c) c)
       (\<lambda>_ c. Ret () (c\<lparr>clientSeqNum := clientSeqNum c + 1\<rparr>))"
  shows "\<exists>c'. acked [ack f (clientSeqNum c) v] c c' \<and> (send = Ret () c' \<or> send = Stop (Exit (- 1)) c')"
proof -
  from sendPDU_result [OF assms(1), of 4 "bytes32 (htonl (of_nat v))" "flag_code f" "clientSeqNum c" "serverConn c"]
  obtain out p' where t: "transmits [ack f (clientSeqNum c) v] out" and s: "sent_state out c p'"
    and r: "sendPDU (serverConn c) (bytes32 (htonl (of_nat v))) 4 (flag_code f) (clientSeqNum c) c = Ret () p'
      \<or> sendPDU (serverConn c) (bytes32 (htonl (of_nat v))) 4 (flag_code f) (clientSeqNum c) c = Stop (Exit (- 1)) p'"
    by (auto simp: ack_def)
  from r sent_state_acked [OF t s] assms(2) show ?thesis by auto
qed

lemma send_ends:
  assumes "pm_ok (pm c)"
  shows "ends (sendRR (of_nat v) c) (\<lambda>_. acked [ack RR (clientSeqNum c) v] c) (acked [ack RR (clientSeqNum c) v] c)"
    "ends (sendSREJ (of_nat v) c) (\<lambda>_. acked [ack SREJ (clientSeqNum c) v] c) (acked [ack SREJ (clientSeqNum c) v] c)"
  using send_ack_ok [OF assms sendRR_def, of v] send_ack_ok [OF assms sendSREJ_def, of v] by auto

lemma acked_pm_ok: "acked ms c c' \<Longrightarrow> pm_ok (pm c')"
  by (auto simp: acked_def)

lemma send_Ret_ends:
  assumes "pm_ok (pm c)"
  shows "\<exists>q. ends (bindO (sendRR (of_nat v) c) (\<lambda>_. Ret D))
      (\<lambda>D' c'. D' = D \<and> acked [ack RR q v] c c') (acked [ack RR q v] c)"
    "\<exists>q. ends (bindO (sendSREJ (of_nat v) c) (\<lambda>_. Ret D))
      (\<lambda>D' c'. D' = D \<and> acked [ack SREJ q v] c c') (acked [ack SREJ q v] c)"
  using send_ends [OF assms, of v] by (fastforce simp: ends_def split: outcome.splits)+

lemma acked_expected: "acked ms c c' \<Longrightarrow> expectedSeqNum c' = expectedSeqNum c"
  by (auto simp: acked_def)

lemma send_both_ends:
  assumes "pm_ok (pm c)" "expectedSeqNum c = of_nat v"
  shows "\<exists>ms. (\<forall>m \<in> set ms. \<exists>q. m = ack RR q v \<or> m = ack SREJ q v) \<and>
    ends (bindO (sendRR (expectedSeqNum c) c) (\<lambda>_ c. bindO (sendSREJ (expectedSeqNum c) c) (\<lambda>_. Ret D)))
      (\<lambda>D' c'. D' = D \<and> acked ms c c') (acked ms c)"
proof (cases "sendRR (of_nat v) c")
  case (Ret u c1)
  let ?rr = "ack RR (clientSeqNum c) v"
  have a: "acked [?rr] c c1" using send_ends(1) [OF assms(1), of v] Ret by simp
  obtain q where q: "ends (bindO (sendSREJ (of_nat v) c1) (\<lambda>_. Ret D))
      (\<lambda>D' c'. D' = D \<and> acked [ack SREJ q v] c1 c') (acked [ack SREJ q v] c1)"
    using send_Ret_ends(2) [OF acked_pm_ok [OF a], of v D] by blast
  have "ends (bindO (sendSREJ (of_nat v) c1) (\<lambda>_. Ret D))
      (\<lambda>D' c'. D' = D \<and> acked ([?rr] @ [ack SREJ q v]) c c') (acked ([?rr] @ [ack SREJ q v]) c)"
    using q by (rule ends_mono) (use acked_trans [OF a] in auto)
  with Ret assms(2) acked_expected [OF a] show ?thesis
    by (intro exI [of _ "[?rr] @ [ack SREJ q v]"]) auto
next
  case (Stop h c1)
  with send_ends(1) [OF assms(1), of v] assms(2) show ?thesis
    by (intro exI [of _ "[ack RR (clientSeqNum c) v]"]) auto
qed

section \<open>The invariant\<close>

text \<open>The buffer holds nothing but blocks \<open>L\<close> to \<open>H\<close>, all of one window.\<close>

definition holds :: "nat \<Rightarrow> nat \<Rightarrow> byte list \<Rightarrow> nat \<Rightarrow> nat \<Rightarrow> recv_buf \<Rightarrow> bool" where
  "holds n b F L H B \<longleftrightarrow> (\<forall>j v. buf_look j B = Some v \<longrightarrow>
     (\<exists>k. k mod n = j mod n \<and> L \<le> k \<and> k \<le> H \<and> snd v = chunk b F k \<and> fst v \<noteq> flag_code END_OF_FILE))"

definition client_core :: "nat \<Rightarrow> nat \<Rightarrow> byte list \<Rightarrow> nat \<Rightarrow> nat \<Rightarrow> rcopy \<Rightarrow> bool" where
  "client_core n b F E H c \<longleftrightarrow> proc_ok c \<and> buf_ok (recvBuf c) \<and> buf_cap (recvBuf c) = n
     \<and> expectedSeqNum c = of_nat E \<and> highestSeqNum c = of_nat H
     \<and> outputFile c = take (E * b) F \<and> E \<le> nchunks b F \<and> H < 2 ^ 31"

fun client_held :: "DATA_STATE \<Rightarrow> nat \<Rightarrow> nat \<Rightarrow> byte list \<Rightarrow> nat \<Rightarrow> nat \<Rightarrow> recv_buf \<Rightarrow> bool" where
  "client_held IN_ORDER n b F E H B \<longleftrightarrow> (\<forall>j. buf_look j B = None) \<and> H \<le> E"
| "client_held BUFFER n b F E H B \<longleftrightarrow> holds n b F (Suc E) H B \<and> E < H \<and> H < E + n
     \<and> H < nchunks b F \<and> buf_look H B \<noteq> None"
| "client_held FLUSH n b F E H B \<longleftrightarrow> holds n b F E H B \<and> E \<le> H \<and> H < E + n
     \<and> H < nchunks b F \<and> buf_look H B \<noteq> None"
| "client_held DATA_STATE_DONE n b F E H B \<longleftrightarrow> E = nchunks b F \<and> H \<le> E"

text \<open>The progress from \<open>c\<close> to \<open>c'\<close>: the numbers have grown and acknowledgments have left.\<close>

definition progress ::
  "nat \<Rightarrow> nat \<Rightarrow> byte list \<Rightarrow> nat \<Rightarrow> rcopy \<Rightarrow> nat \<Rightarrow> nat \<Rightarrow> rcopy \<Rightarrow> bool" where
  "progress n b F E c E' H' c' \<longleftrightarrow> client_core n b F E' H' c' \<and> E \<le> E'
     \<and> dataState c' = dataState c \<and> net_in c' = net_in c
     \<and> (\<exists>ms out. net_out c' = net_out c @ out \<and> transmits ms out \<and> (\<forall>m \<in> set ms. is_ack E' H' m))"

lemma progress_acked:
  assumes "client_core n b F E' H' c0" "E \<le> E'" "acked ms c0 c'" "\<forall>m \<in> set ms. is_ack E' H' m"
    and "dataState c0 = dataState c" "net_in c0 = net_in c" "net_out c0 = net_out c"
  shows "progress n b F E c E' H' c' \<and> recvBuf c' = recvBuf c0"
proof -
  obtain out pm' fs q where *: "transmits ms out" "pm_ok pm'"
    "c' = c0\<lparr>pm := pm', net_out := net_out c0 @ out, send_errs := fs, clientSeqNum := q\<rparr>"
    using assms(3) unfolding acked_def by blast
  then have "client_core n b F E' H' c'" using assms(1) by (simp add: client_core_def proc_ok_def)
  with * assms(2,4-7) show ?thesis unfolding progress_def by auto
qed

section \<open>Flushing\<close>

lemma holds_slot:
  assumes "holds n b F L H B" "buf_look k B = Some v" "L \<le> k" "k < L + n" "H < L + n"
  shows "k \<le> H \<and> snd v = chunk b F k \<and> fst v \<noteq> flag_code END_OF_FILE"
proof -
  from assms(1,2) obtain j where "j mod n = k mod n" "L \<le> j" "j \<le> H" "snd v = chunk b F j"
    "fst v \<noteq> flag_code END_OF_FILE" unfolding holds_def by metis
  with mod_window_inj [of j n k L] assms(3-5) show ?thesis by auto
qed

lemma holds_none: "holds n b F L H B \<Longrightarrow> H < L \<Longrightarrow> buf_look j B = None"
  by (cases "buf_look j B") (fastforce simp: holds_def)+

lemma holds_empty_slot:
  assumes "holds n b F L H B" "buf_look L B = None" "buf_cap B = n"
  shows "holds n b F (Suc L) H B"
  unfolding holds_def
proof (intro allI impI)
  fix j v assume v: "buf_look j B = Some v"
  with assms(1) obtain k where k: "k mod n = j mod n" "L \<le> k" "k \<le> H" "snd v = chunk b F k"
    "fst v \<noteq> flag_code END_OF_FILE" unfolding holds_def by metis
  moreover have "k \<noteq> L" using v assms(2,3) k(1) by (auto simp: buf_look_def)
  ultimately show "\<exists>k. k mod n = j mod n \<and> Suc L \<le> k \<and> k \<le> H \<and> snd v = chunk b F k
      \<and> fst v \<noteq> flag_code END_OF_FILE"
    by (intro exI [of _ k]) simp
qed

lemma holds_del:
  assumes "holds n b F L H B" "buf_ok B" "buf_cap B = n" "L < 2 ^ 31" "H < L + n"
  shows "holds n b F (Suc L) H (buf_del L B)"
    "L < H \<Longrightarrow> buf_look H (buf_del L B) = buf_look H B"
proof -
  note del = rb.look_del [OF assms(2,4), unfolded assms(3)]
  have "holds n b F L H (buf_del L B)"
    using assms(1) unfolding holds_def by (simp add: del)
  then show "holds n b F (Suc L) H (buf_del L B)"
    by (rule holds_empty_slot) (simp_all add: del rb.cap_del [OF assms(2,4)] assms(3))
  assume "L < H"
  then have "H mod n \<noteq> L mod n" using mod_window_inj [of H n L L] assms(5) by auto
  then show "buf_look H (buf_del L B) = buf_look H B" by (simp add: del)
qed

lemma flush_loop_ok:
  assumes "buf_ok (recvBuf c)" "buf_cap (recvBuf c) = n" "holds n b F E H (recvBuf c)"
    and "E \<le> Suc H" "H < E + n" "E \<le> H \<Longrightarrow> buf_look H (recvBuf c) \<noteq> None"
    and "H < nchunks b F" "nchunks b F < 2 ^ 31" "length data = MAX_PAYLOAD_SIZE"
    and "expectedSeqNum c = of_nat E" "highestSeqNum c = of_nat H" "outputFile c = take (E * b) F"
  shows "\<exists>E' B'. flush_loop data c = Ret None (c\<lparr>recvBuf := B', expectedSeqNum := of_nat E',
        outputFile := take (E' * b) F\<rparr>) \<and> E \<le> E' \<and> E' \<le> Suc H
    \<and> buf_ok B' \<and> buf_cap B' = n \<and> holds n b F (Suc E') H B'
    \<and> (E' \<le> H \<longrightarrow> buf_look H B' \<noteq> None \<and> buf_look E' B' = None)"
  using assms
proof (induction "Suc H - E" arbitrary: c E data rule: less_induct)
  case less
  have small: "E < 2 ^ 31" "H < 2 ^ 31" using less.prems(4,7,8) by simp_all
  have cond: "expectedSeqNum c \<le> highestSeqNum c \<longleftrightarrow> E \<le> H"
    using less.prems(10,11) small by (simp add: seq_le)
  show ?case
  proof (cases "E \<le> H")
    case False
    then have E: "E = Suc H" using less.prems(4) by simp
    have "holds n b F (Suc E) H (recvBuf c)" using less.prems(3) E unfolding holds_def by fastforce
    moreover have "flush_loop data c = Ret None c" using False cond by (simp add: flush_loop.simps)
    ultimately show ?thesis
      using less.prems(1,2,10,12) E
      by (intro exI [of _ E] exI [of _ "recvBuf c"]) simp
  next
    case True
    note get = getDataFromBuffer_del [OF less.prems(1) small(1) less.prems(9)]
    show ?thesis
    proof (cases "buf_look E (recvBuf c)")
      case None
      then have "flush_loop data c = Ret None c"
        using True cond less.prems(10) get
        by (simp add: flush_loop.simps buf_del_empty [OF less.prems(1) small(1)])
      then show ?thesis
        using less.prems(1,2,6,10,12) None True holds_empty_slot [OF less.prems(3) None less.prems(2)] less.prems(4)
        by (intro exI [of _ E] exI [of _ "recvBuf c"]) simp
    next
      case (Some v)
      obtain f d where v: "v = (f, d)" by fastforce
      have fd: "d = chunk b F E" "f \<noteq> flag_code END_OF_FILE"
        using holds_slot [OF less.prems(3) Some] less.prems(5) True v by auto
      let ?c = "c\<lparr>recvBuf := buf_del E (recvBuf c), expectedSeqNum := of_nat (Suc E),
        outputFile := take (Suc E * b) F\<rparr>"
      let ?data = "d @ drop (length d) data"
      have step: "flush_loop data c = flush_loop ?data ?c"
        using True cond less.prems(10,12) get Some v fd
        by (subst flush_loop.simps) (simp add: write_out_def add.commute take_chunk [simplified])
      have d: "length ?data = MAX_PAYLOAD_SIZE"
        using buf_look_length [OF less.prems(1)] Some v less.prems(9) by fastforce
      note del = buf_del_ok [OF less.prems(1) small(1)]
      note held = holds_del [OF less.prems(3,1,2) small(1) less.prems(5)]
      have "\<exists>E' B'. flush_loop ?data ?c = Ret None (?c\<lparr>recvBuf := B', expectedSeqNum := of_nat E',
          outputFile := take (E' * b) F\<rparr>) \<and> Suc E \<le> E' \<and> E' \<le> Suc H
        \<and> buf_ok B' \<and> buf_cap B' = n \<and> holds n b F (Suc E') H B'
        \<and> (E' \<le> H \<longrightarrow> buf_look H B' \<noteq> None \<and> buf_look E' B' = None)"
      proof (rule less.hyps)
        show "Suc E \<le> H \<Longrightarrow> buf_look H (recvBuf ?c) \<noteq> None"
          using held(2) less.prems(6) by simp
      qed (use True less.prems(2,5,7,8,11) del held(1) d in simp_all)
      then obtain E' B' where r: "flush_loop ?data ?c = Ret None (?c\<lparr>recvBuf := B',
          expectedSeqNum := of_nat E', outputFile := take (E' * b) F\<rparr>)"
        and q: "Suc E \<le> E'" "E' \<le> Suc H" "buf_ok B'" "buf_cap B' = n" "holds n b F (Suc E') H B'"
          "E' \<le> H \<longrightarrow> buf_look H B' \<noteq> None \<and> buf_look E' B' = None" by blast
      show ?thesis
        unfolding step r using q by (intro exI [of _ E'] exI [of _ B']) simp
    qed
  qed
qed

lemma flush_ok:
  assumes core: "client_core n b F E H c" and held: "client_held FLUSH n b F E H (recvBuf c)"
    and N: "nchunks b F < 2 ^ 31"
  shows "ends (flush c)
    (\<lambda>D c'. \<exists>E'. D \<in> {IN_ORDER, BUFFER} \<and> progress n b F E c E' H c' \<and> E' \<le> Suc H
      \<and> client_held D n b F E' H (recvBuf c'))
    (\<lambda>c'. \<exists>E'. progress n b F E c E' H c' \<and> E' \<le> Suc H)"
proof -
  have pre: "buf_ok (recvBuf c)" "buf_cap (recvBuf c) = n" "expectedSeqNum c = of_nat E"
    "highestSeqNum c = of_nat H" "outputFile c = take (E * b) F" "proc_ok c"
    "holds n b F E H (recvBuf c)" "E \<le> H" "H < E + n" "H < nchunks b F"
    "buf_look H (recvBuf c) \<noteq> None"
    using core held by (auto simp: client_core_def)
  obtain E' B' where loop: "flush_loop (replicate MAX_PAYLOAD_SIZE 0) c = Ret None (c\<lparr>recvBuf := B',
      expectedSeqNum := of_nat E', outputFile := take (E' * b) F\<rparr>)"
    and E': "E \<le> E'" "E' \<le> Suc H" and B': "buf_ok B'" "buf_cap B' = n" "holds n b F (Suc E') H B'"
    and stop: "E' \<le> H \<longrightarrow> buf_look H B' \<noteq> None \<and> buf_look E' B' = None"
    using flush_loop_ok [OF pre(1,2,7) le_SucI [OF pre(8)] pre(9) pre(11) pre(10) N _ pre(3-5), of "replicate 1400 0"]
    by auto
  let ?c = "c\<lparr>recvBuf := B', expectedSeqNum := of_nat E', outputFile := take (E' * b) F\<rparr>"
  have core': "client_core n b F E' H ?c"
    using core E' pre(10) B' by (auto simp: client_core_def proc_ok_def)
  have pm: "pm_ok (pm ?c)" using pre(6) by (simp add: proc_ok_def)
  have small: "E' < 2 ^ 31" "H < 2 ^ 31" using E' pre(10) N by simp_all
  have prog: "progress n b F E c E' H c' \<and> recvBuf c' = B'"
    if "acked ms ?c c'" "\<forall>m \<in> set ms. is_ack E' H m" for ms c'
    using progress_acked [OF core' E'(1) that, of c] by simp
  show ?thesis
  proof (cases "E' < H")
    case True
    then have eq: "flush c = bindO (sendRR (expectedSeqNum ?c) ?c)
        (\<lambda>_ c. bindO (sendSREJ (expectedSeqNum c) c) (\<lambda>_. Ret BUFFER))"
      using loop small pre(4) by (simp add: flush_def seq_less)
    obtain ms where ms: "\<forall>m \<in> set ms. \<exists>q. m = ack RR q E' \<or> m = ack SREJ q E'"
      and e: "ends (flush c) (\<lambda>D' c'. D' = BUFFER \<and> acked ms ?c c') (acked ms ?c)"
      using send_both_ends [OF pm, of E' BUFFER] unfolding eq by auto
    have "\<forall>m \<in> set ms. is_ack E' H m" using ms True by (auto simp: is_ack_def)
    note p = prog [OF _ this]
    have "client_held BUFFER n b F E' H B'" using True B' stop E' pre(9,10) by simp
    then show ?thesis
      using p E' by (intro ends_mono [OF e]) (auto intro!: exI [of _ E'])
  next
    case False
    with stop E' have E: "E' = Suc H" by (cases "E' = H") auto
    then have eq: "flush c = bindO (sendRR (of_nat E') ?c) (\<lambda>_. Ret IN_ORDER)"
      using loop small pre(4) by (simp add: flush_def seq_less [of "Suc H", simplified])
    obtain q where e: "ends (flush c) (\<lambda>D' c'. D' = IN_ORDER \<and> acked [ack RR q E'] ?c c') (acked [ack RR q E'] ?c)"
      using send_Ret_ends(1) [OF pm, of E' IN_ORDER] unfolding eq by auto
    have "\<forall>m \<in> set [ack RR q E']. is_ack E' H m" by (auto simp: is_ack_def)
    note p = prog [OF _ this]
    have "buf_look j B' = None" for j using holds_none [OF B'(3)] E by simp
    then have "client_held IN_ORDER n b F E' H B'" using E by simp
    then show ?thesis
      using p E' by (intro ends_mono [OF e]) (auto intro!: exI [of _ E'])
  qed
qed

section \<open>The data states\<close>

text \<open>
  What the protocol guarantees of a message \<open>(f, k, pl)\<close> that arrives at a client in the numbers
  \<open>E\<close> and \<open>H\<close>; of a message below \<open>E\<close> nothing is needed.
\<close>

definition msg_fits ::
  "nat \<Rightarrow> nat \<Rightarrow> byte list \<Rightarrow> DATA_STATE \<Rightarrow> nat \<Rightarrow> nat \<Rightarrow> byte \<Rightarrow> nat \<Rightarrow> byte list \<Rightarrow> bool" where
  "msg_fits n b F D E H f k pl \<longleftrightarrow> k < 2 ^ 31 \<and> length pl \<le> MAX_PAYLOAD_SIZE
     \<and> (E < k \<longrightarrow> k < E + n \<and> k < nchunks b F \<and> pl = chunk b F k \<and> f \<noteq> flag_code END_OF_FILE
          \<and> (D = BUFFER \<longrightarrow> H \<le> k))
     \<and> (k = E \<longrightarrow> (if f = flag_code END_OF_FILE then E = nchunks b F
                    else E < nchunks b F \<and> pl = chunk b F E))"

text \<open>
  How the numbers go on when block \<open>k\<close> has been handled: \<open>H\<close> is kept or \<open>k\<close>, and \<open>E\<close>
  passes nothing beyond \<open>H\<close>.
\<close>

definition adv :: "nat \<Rightarrow> nat \<Rightarrow> nat \<Rightarrow> nat \<Rightarrow> nat \<Rightarrow> bool" where
  "adv E H k E' H' \<longleftrightarrow> (H' = H \<or> H' = k) \<and> (E' = E \<or> E < E' \<and> E' \<le> Suc H' \<and> (H' = k \<or> E < H'))"

text \<open>What a handler leaves: the next data state with its invariant.\<close>

definition data_post ::
  "nat \<Rightarrow> nat \<Rightarrow> byte list \<Rightarrow> nat \<Rightarrow> nat \<Rightarrow> nat \<Rightarrow> rcopy \<Rightarrow> DATA_STATE \<Rightarrow> rcopy \<Rightarrow> bool" where
  "data_post n b F E H k c D c' \<longleftrightarrow> (\<exists>E' H'. progress n b F E c E' H' c'
     \<and> client_held D n b F E' H' (recvBuf c') \<and> adv E H k E' H'
     \<and> (D = FLUSH \<longrightarrow> net_out c' = net_out c \<and> E < H'))"

definition stop_post :: "nat \<Rightarrow> nat \<Rightarrow> byte list \<Rightarrow> nat \<Rightarrow> nat \<Rightarrow> nat \<Rightarrow> rcopy \<Rightarrow> rcopy \<Rightarrow> bool" where
  "stop_post n b F E H k c c' \<longleftrightarrow> (\<exists>E' H'. progress n b F E c E' H' c' \<and> adv E H k E' H')"

lemma ends_acked:
  assumes "ends r (\<lambda>D' c'. D' = D \<and> acked ms c0 c') (acked ms c0)"
    and "client_core n b F E' H' c0" "E \<le> E'" "\<forall>m \<in> set ms. is_ack E' H' m"
    and "dataState c0 = dataState c" "net_in c0 = net_in c" "net_out c0 = net_out c"
    and "client_held D n b F E' H' (recvBuf c0)" "adv E H k E' H'" "D \<noteq> FLUSH"
  shows "ends r (data_post n b F E H k c) (stop_post n b F E H k c)"
  using assms(1)
proof (rule ends_mono)
  fix D' c' assume "D' = D \<and> acked ms c0 c'"
  with progress_acked [OF assms(2,3) _ assms(4-7), of c'] assms(8-10)
  show "data_post n b F E H k c D' c'" unfolding data_post_def by auto
next
  fix c' assume "acked ms c0 c'"
  with progress_acked [OF assms(2,3) _ assms(4-7), of c'] assms(9)
  show "stop_post n b F E H k c c'" unfolding stop_post_def by blast
qed

lemma data_post_refl:
  assumes "client_core n b F E' H' c'" "E \<le> E'" "client_held D n b F E' H' (recvBuf c')"
    and "adv E H k E' H'" "dataState c' = dataState c" "net_in c' = net_in c" "net_out c' = net_out c"
    and "D = FLUSH \<Longrightarrow> E < H'"
  shows "data_post n b F E H k c D c'"
  unfolding data_post_def progress_def
  using assms by (intro conjI exI [of _ E'] exI [of _ H']) (auto intro!: exI [of _ "[]"])

lemma core_write:
  assumes "client_core n b F E H c" "E < nchunks b F" "take m payload = chunk b F E" "H' < 2 ^ 31"
  shows "client_core n b F (Suc E) H' (write_out payload (int m)
    (c\<lparr>highestSeqNum := of_nat H', expectedSeqNum := expectedSeqNum c + 1\<rparr>))"
  using assms take_chunk [of E b F] by (auto simp: client_core_def write_out_def proc_ok_def)

lemma store_ok:
  assumes core: "client_core n b F E H c" and held: "holds n b F (Suc E) H0 (recvBuf c)" and "H0 \<le> k"
    and "E < k" "k < E + n" "k < nchunks b F" "k < 2 ^ 31" "take m payload = chunk b F k"
    and "f \<noteq> flag_code END_OF_FILE" "m \<le> length payload" "m \<le> MAX_PAYLOAD_SIZE"
  shows "\<exists>B'. addDatatoBuffer (of_nat k) f payload (int m) (recvBuf c) = Inr B'
    \<and> client_core n b F E k (c\<lparr>highestSeqNum := of_nat k, recvBuf := B'\<rparr>)
    \<and> client_held BUFFER n b F E k B'"
proof -
  have B: "buf_ok (recvBuf c)" "buf_cap (recvBuf c) = n" using core by (auto simp: client_core_def)
  from addDatatoBuffer_ok [OF B(1) assms(7,10,11), of f] obtain B'
    where add: "addDatatoBuffer (of_nat k) f payload (int m) (recvBuf c) = Inr B'"
    and B': "buf_ok B'" "buf_cap B' = n"
    and look: "\<And>j. buf_look j B' = (if j mod n = k mod n then Some (f, take m payload)
      else buf_look j (recvBuf c))"
    using B(2) by (auto simp: buf_cap_def)
  have "holds n b F (Suc E) k B'"
    unfolding holds_def
  proof (intro allI impI)
    fix j v assume v: "buf_look j B' = Some v"
    show "\<exists>i. i mod n = j mod n \<and> Suc E \<le> i \<and> i \<le> k \<and> snd v = chunk b F i \<and> fst v \<noteq> flag_code END_OF_FILE"
    proof (cases "j mod n = k mod n")
      case True
      with v look assms(4,8,9) show ?thesis by (intro exI [of _ k]) auto
    next
      case False
      with v look held obtain i where "i mod n = j mod n" "Suc E \<le> i" "i \<le> H0" "snd v = chunk b F i"
        "fst v \<noteq> flag_code END_OF_FILE" unfolding holds_def by metis
      with assms(3) show ?thesis by (intro exI [of _ i]) simp
    qed
  qed
  moreover have "client_core n b F E k (c\<lparr>highestSeqNum := of_nat k, recvBuf := B'\<rparr>)"
    using core B' assms(7) by (auto simp: client_core_def proc_ok_def)
  ultimately show ?thesis using add assms(4-6) look by simp
qed

lemma inOrder_ok:
  assumes core: "client_core n b F E H c" and held: "client_held IN_ORDER n b F E H (recvBuf c)"
    and fits: "msg_fits n b F IN_ORDER E H f k pl" and N: "nchunks b F < 2 ^ 31"
    and pl: "take (length pl) payload = pl" "length pl \<le> length payload"
  shows "ends (inOrder (of_nat k) payload (int (length pl)) f c)
    (data_post n b F E H k c) (stop_post n b F E H k c)"
proof -
  have k: "k < 2 ^ 31" and E: "expectedSeqNum c = of_nat E" "E < 2 ^ 31" and pm: "pm_ok (pm c)"
    using fits core N by (auto simp: msg_fits_def client_core_def proc_ok_def)
  have rr: "is_ack E' H' (ack RR q E')" for E' H' q by (auto simp: is_ack_def)
  consider "k = E" "f = flag_code END_OF_FILE" | "k = E" "f \<noteq> flag_code END_OF_FILE" | "E < k" | "k < E"
    by linarith
  then show ?thesis
  proof cases
    case 1
    then have "inOrder (of_nat k) payload (int (length pl)) f c = Ret DATA_STATE_DONE c"
      using E by (simp add: inOrder_def)
    moreover have "client_held DATA_STATE_DONE n b F E H (recvBuf c)"
      using fits held 1 by (simp add: msg_fits_def)
    ultimately show ?thesis using core by (auto intro!: data_post_refl simp: adv_def)
  next
    case 2
    let ?c = "write_out payload (int (length pl)) (c\<lparr>highestSeqNum := of_nat k,
      expectedSeqNum := expectedSeqNum c + 1\<rparr>)"
    have core': "client_core n b F (Suc E) k ?c"
      using core_write [OF core, of "length pl" payload k] fits 2 pl k by (auto simp: msg_fits_def)
    have eq: "inOrder (of_nat k) payload (int (length pl)) f c =
        bindO (sendRR (of_nat (Suc E)) ?c) (\<lambda>_. Ret IN_ORDER)"
      using 2 E by (simp add: inOrder_def Let_def write_out_def add.commute)
    have "pm_ok (pm ?c)" using pm by (simp add: write_out_def)
    from send_Ret_ends(1) [OF this, of "Suc E" IN_ORDER] obtain q where
      e: "ends (inOrder (of_nat k) payload (int (length pl)) f c)
        (\<lambda>D' c'. D' = IN_ORDER \<and> acked [ack RR q (Suc E)] ?c c') (acked [ack RR q (Suc E)] ?c)"
      unfolding eq by blast
    show ?thesis
      using e core' by (rule ends_acked) (use held 2 rr in \<open>auto simp: write_out_def adv_def\<close>)
  next
    case 3
    have kf: "k < E + n" "k < nchunks b F" "pl = chunk b F k" "f \<noteq> flag_code END_OF_FILE"
      "length pl \<le> MAX_PAYLOAD_SIZE"
      using fits 3 by (auto simp: msg_fits_def)
    have "holds n b F (Suc E) E (recvBuf c)" using held by (simp add: holds_def)
    from store_ok [OF core this less_imp_le [OF 3] 3 kf(1,2) k _ kf(4) pl(2) kf(5)] pl(1) kf(3)
    obtain B' where add: "addDatatoBuffer (of_nat k) f payload (int (length pl)) (recvBuf c) = Inr B'"
      and core': "client_core n b F E k (c\<lparr>highestSeqNum := of_nat k, recvBuf := B'\<rparr>)"
      and held': "client_held BUFFER n b F E k B'" by auto
    let ?c = "c\<lparr>highestSeqNum := of_nat k, recvBuf := B'\<rparr>"
    have eq: "inOrder (of_nat k) payload (int (length pl)) f c =
        bindO (sendSREJ (of_nat E) ?c) (\<lambda>_. Ret BUFFER)"
      using 3 E k add by (simp add: inOrder_def seq_less seq_eq)
    have "pm_ok (pm ?c)" using pm by simp
    from send_Ret_ends(2) [OF this, of E BUFFER] obtain q where
      e: "ends (inOrder (of_nat k) payload (int (length pl)) f c)
        (\<lambda>D' c'. D' = BUFFER \<and> acked [ack SREJ q E] ?c c') (acked [ack SREJ q E] ?c)"
      unfolding eq by blast
    have "is_ack E k (ack SREJ q E)" using 3 by (auto simp: is_ack_def)
    with e core' show ?thesis by (intro ends_acked [OF e core']) (use held' in \<open>auto simp: adv_def\<close>)
  next
    case 4
    then have eq: "inOrder (of_nat k) payload (int (length pl)) f c =
        bindO (sendRR (of_nat E) c) (\<lambda>_. Ret IN_ORDER)"
      using E k by (simp add: inOrder_def seq_less seq_eq)
    from send_Ret_ends(1) [OF pm, of E IN_ORDER] obtain q where
      e: "ends (inOrder (of_nat k) payload (int (length pl)) f c)
        (\<lambda>D' c'. D' = IN_ORDER \<and> acked [ack RR q E] c c') (acked [ack RR q E] c)"
      unfolding eq by blast
    show ?thesis using e core by (rule ends_acked) (use held rr in \<open>auto simp: adv_def\<close>)
  qed
qed

lemma buffer_state_ok:
  assumes core: "client_core n b F E H c" and held: "client_held BUFFER n b F E H (recvBuf c)"
    and fits: "msg_fits n b F BUFFER E H f k pl" and N: "nchunks b F < 2 ^ 31"
    and pl: "take (length pl) payload = pl" "length pl \<le> length payload"
  shows "ends (buffer_state (of_nat k) payload (int (length pl)) f c)
    (data_post n b F E H k c) (stop_post n b F E H k c)"
proof -
  have k: "k < 2 ^ 31" and E: "expectedSeqNum c = of_nat E" "E < 2 ^ 31" and pm: "pm_ok (pm c)"
    and H: "highestSeqNum c = of_nat H" "E < H" "H < 2 ^ 31"
    using fits core N held by (auto simp: msg_fits_def client_core_def proc_ok_def)
  consider "k = E" "f = flag_code END_OF_FILE" | "k = E" "f \<noteq> flag_code END_OF_FILE" | "E < k" | "k < E"
    by linarith
  then show ?thesis
  proof cases
    case 1
    then have "buffer_state (of_nat k) payload (int (length pl)) f c = Ret DATA_STATE_DONE c"
      using E by (simp add: buffer_state_def)
    moreover have "client_held DATA_STATE_DONE n b F E H (recvBuf c)"
      using fits held 1 by (simp add: msg_fits_def)
    ultimately show ?thesis using core by (auto intro!: data_post_refl simp: adv_def)
  next
    case 2
    let ?c = "write_out payload (int (length pl)) (c\<lparr>expectedSeqNum := expectedSeqNum c + 1\<rparr>)"
    have "?c = write_out payload (int (length pl)) (c\<lparr>highestSeqNum := of_nat H,
        expectedSeqNum := expectedSeqNum c + 1\<rparr>)" using H by (cases c) simp
    moreover have "client_core n b F (Suc E) H (write_out payload (int (length pl))
        (c\<lparr>highestSeqNum := of_nat H, expectedSeqNum := expectedSeqNum c + 1\<rparr>))"
      using core_write [OF core, of "length pl" payload H] fits 2 pl H by (auto simp: msg_fits_def)
    ultimately have core': "client_core n b F (Suc E) H ?c" by simp
    have "buffer_state (of_nat k) payload (int (length pl)) f c = Ret FLUSH ?c"
      using 2 E by (simp add: buffer_state_def)
    moreover have "client_held FLUSH n b F (Suc E) H (recvBuf ?c)"
      using held by (simp add: write_out_def)
    ultimately show ?thesis using core' held by (auto intro!: data_post_refl simp: write_out_def adv_def)
  next
    case 3
    have kf: "k < E + n" "k < nchunks b F" "pl = chunk b F k" "f \<noteq> flag_code END_OF_FILE" "H \<le> k"
      "length pl \<le> MAX_PAYLOAD_SIZE"
      using fits 3 by (auto simp: msg_fits_def)
    have "holds n b F (Suc E) H (recvBuf c)" using held by simp
    from store_ok [OF core this kf(5) 3 kf(1,2) k _ kf(4) pl(2) kf(6)] pl(1) kf(3)
    obtain B' where add: "addDatatoBuffer (of_nat k) f payload (int (length pl)) (recvBuf c) = Inr B'"
      and core': "client_core n b F E k (c\<lparr>highestSeqNum := of_nat k, recvBuf := B'\<rparr>)"
      and held': "client_held BUFFER n b F E k B'" by auto
    have "buffer_state (of_nat k) payload (int (length pl)) f c =
        Ret BUFFER (c\<lparr>highestSeqNum := of_nat k, recvBuf := B'\<rparr>)"
      using 3 E k add by (simp add: buffer_state_def seq_less seq_eq)
    with core' held' show ?thesis by (auto intro!: data_post_refl simp: adv_def)
  next
    case 4
    then have eq: "buffer_state (of_nat k) payload (int (length pl)) f c =
        bindO (sendRR (expectedSeqNum c) c) (\<lambda>_ c. bindO (sendSREJ (expectedSeqNum c) c) (\<lambda>_. Ret BUFFER))"
      using E k by (simp add: buffer_state_def seq_less seq_eq)
    from send_both_ends [OF pm E(1), of BUFFER] obtain ms where
      ms: "\<forall>m \<in> set ms. \<exists>q. m = ack RR q E \<or> m = ack SREJ q E" and
      e: "ends (buffer_state (of_nat k) payload (int (length pl)) f c)
        (\<lambda>D' c'. D' = BUFFER \<and> acked ms c c') (acked ms c)"
      unfolding eq by blast
    have "\<forall>m \<in> set ms. is_ack E H m" using ms H(2) by (auto simp: is_ack_def)
    with e core show ?thesis by (intro ends_acked [OF e core]) (use held in \<open>auto simp: adv_def\<close>)
  qed
qed

section \<open>One datagram\<close>

text \<open>
  The state after \<open>receiveData\<close>; \<open>d\<close> is the datagram it took and \<open>es\<close> the rest of the
  reports.
\<close>

definition recv_core ::
  "nat \<Rightarrow> nat \<Rightarrow> byte list \<Rightarrow> nat \<Rightarrow> nat \<Rightarrow> byte list \<Rightarrow> event list \<Rightarrow> rcopy \<Rightarrow> nat \<Rightarrow> nat \<Rightarrow> rcopy \<Rightarrow> bool"
  where
  "recv_core n b F E H d es c E' H' c' \<longleftrightarrow> client_core n b F E' H' c' \<and> E \<le> E' \<and> net_in c' = es
     \<and> (\<exists>ms out. net_out c' = net_out c @ out \<and> transmits ms out \<and> (\<forall>m \<in> set ms. is_ack E' H' m))
     \<and> (E' = E \<and> H' = H \<or> (\<exists>k f pl. dec d = Some (f, of_nat k, pl) \<and> k < 2 ^ 31 \<and> adv E H k E' H'))"

definition recv_post ::
  "nat \<Rightarrow> nat \<Rightarrow> byte list \<Rightarrow> nat \<Rightarrow> nat \<Rightarrow> byte list \<Rightarrow> event list \<Rightarrow> rcopy \<Rightarrow> rcopy_STATE \<Rightarrow> rcopy \<Rightarrow> bool"
  where
  "recv_post n b F E H d es c st c' \<longleftrightarrow> (\<exists>E' H'. recv_core n b F E H d es c E' H' c'
     \<and> client_held (dataState c') n b F E' H' (recvBuf c')
     \<and> (st = RECV_DATA \<and> dataState c' \<in> {IN_ORDER, BUFFER}
        \<or> st = SEND_EOF_ACK \<and> dataState c' = DATA_STATE_DONE))"

definition recv_stop ::
  "nat \<Rightarrow> nat \<Rightarrow> byte list \<Rightarrow> nat \<Rightarrow> nat \<Rightarrow> byte list \<Rightarrow> event list \<Rightarrow> rcopy \<Rightarrow> rcopy \<Rightarrow> bool" where
  "recv_stop n b F E H d es c c' \<longleftrightarrow> dataState c' \<noteq> DATA_STATE_DONE
     \<and> (\<exists>E' H'. recv_core n b F E H d es c E' H' c')"

lemma recv_postI:
  "recv_core n b F E H d es c E' H' c' \<Longrightarrow> client_held (dataState c') n b F E' H' (recvBuf c') \<Longrightarrow>
   dataState c' \<noteq> FLUSH \<Longrightarrow>
   recv_post n b F E H d es c (if dataState c' = DATA_STATE_DONE then SEND_EOF_ACK else RECV_DATA) c'"
  unfolding recv_post_def
  by (intro exI [of _ E'] exI [of _ H']) (cases "dataState c'"; simp)

lemma dispatch_ok:
  assumes "client_core n b F E H c" "client_held (dataState c) n b F E H (recvBuf c)"
    and "dataState c \<in> {IN_ORDER, BUFFER}" "msg_fits n b F (dataState c) E H f k pl"
    and "nchunks b F < 2 ^ 31" "take (length pl) payload = pl" "length pl \<le> length payload"
  shows "ends (dispatch_data (of_nat k) payload (int (length pl)) f c)
    (data_post n b F E H k c) (stop_post n b F E H k c)"
  using assms inOrder_ok [OF assms(1) _ _ assms(5-7), of f k] buffer_state_ok [OF assms(1) _ _ assms(5-7), of f k]
  by (auto simp: dispatch_data_def)

lemma pollCall_then_recv:
  assumes "proc_ok p" "net_in p = ts @ Arrive a d # es" "passes ts"
  shows "\<exists>v p'. pollCall t p = Ret v p' \<and> v \<noteq> 0
    \<and> (\<exists>ts'. set ts' \<subseteq> {Timeout, Hangup} \<and> p' = p\<lparr>net_in := ts' @ Arrive a d # es\<rparr>)"
proof (cases ts)
  case Nil
  with assms pollCall_ready [OF assms(1), of a d es t] show ?thesis
    by (intro exI [of _ "udp_sock p"] exI [of _ p]) (auto simp: proc_ok_def intro!: exI [of _ "[]"])
next
  case (Cons e ts')
  then have "e = Timeout" "set ts' \<subseteq> {Timeout, Hangup}" using assms(3) by (auto simp: passes_def)
  with assms(2) Cons pollCall_timeout [of p "ts' @ Arrive a d # es" t] show ?thesis
    by (intro exI [of _ "- 1"]) auto
qed

lemma safeRecvfrom_ok:
  "net_in p = ts @ Arrive a d # es \<Longrightarrow> set ts \<subseteq> {Timeout, Hangup} \<Longrightarrow> dgram_ok d \<Longrightarrow>
   safeRecvfrom MAX_PDU_SIZE p = Ret (a, d) (p\<lparr>net_in := es\<rparr>)"
  by (simp add: safeRecvfrom_def recvfrom_timeouts dgram_ok_def)

lemma receiveData_eq:
  assumes "proc_ok c" "net_in c = ts @ Arrive a d # es" "passes ts" "dgram_ok d"
  shows "receiveData c =
    (let c1 = c\<lparr>net_in := es, serverConn := (serverConn c)\<lparr>info := a\<rparr>\<rparr> in
     if in_cksum d \<noteq> 0 then Ret RECV_DATA c1
     else run_data_state (ntohl (word32 (take 4 d))) (drop 7 d @ replicate (1407 - length d) 0)
       (int (length (drop 7 d))) (d ! 6) c1)"
proof -
  obtain v ts' where poll: "pollCall LONG_TIME c = Ret v (c\<lparr>net_in := ts' @ Arrive a d # es\<rparr>)"
    and v: "v \<noteq> 0" and ts': "set ts' \<subseteq> {Timeout, Hangup}"
    using pollCall_then_recv [OF assms(1-3)] by blast
  have recv: "safeRecvfrom MAX_PDU_SIZE (c\<lparr>net_in := ts' @ Arrive a d # es\<rparr>) = Ret (a, d) (c\<lparr>net_in := es\<rparr>)"
    using safeRecvfrom_ok [OF _ ts' assms(4), of "c\<lparr>net_in := ts' @ Arrive a d # es\<rparr>" a es] by simp
  have d: "length d \<le> 1407" "7 \<le> length d" using assms(4) by (auto simp: dgram_ok_def)
  then have copy: "memcpy (replicate MAX_PAYLOAD_SIZE 0) 0 (drop 7 (recv_buffer d)) (int (length d) - 7) =
      Inr (drop 7 d @ replicate (1407 - length d) 0)"
    by (subst memcpy_ok) (auto simp: recv_buffer_def nat_diff_distrib)
  have len: "int (length (drop 7 d)) = int (length d) - 7" using d by simp
  show ?thesis
    using v unfolding receiveData_def poll len
    by (simp add: recv [simplified] retrieveHeader_recv_buffer [OF assms(4)] copy crc_of_def run_data_state_def Let_def)
qed

lemma receiveData_hangup:
  "proc_ok c \<Longrightarrow> net_in c = Hangup # es \<Longrightarrow> receiveData c = Ret DONE_RCOPY (c\<lparr>net_in := es\<rparr>)"
  by (simp add: receiveData_def pollCall_hangup)

lemma run_data_state_ok:
  assumes core: "client_core n b F E H c" and held: "client_held (dataState c) n b F E H (recvBuf c)"
    and st: "dataState c \<in> {IN_ORDER, BUFFER}" and fits: "msg_fits n b F (dataState c) E H f k pl"
    and N: "nchunks b F < 2 ^ 31" and pl: "take (length pl) payload = pl" "length pl \<le> length payload"
    and dec: "dec d = Some (f, of_nat k, pl)" and es: "net_in c = es"
  shows "ends (run_data_state (of_nat k) payload (int (length pl)) f c)
    (recv_post n b F E H d es c) (recv_stop n b F E H d es c)"
proof -
  have k: "k < 2 ^ 31" using fits by (simp add: msg_fits_def)
  have core_of: "recv_core n b F E H d es c E' H' c'"
    if "progress n b F E c E' H' c'" "adv E H k E' H'" for E' H' c'
    using that dec k es by (auto simp: recv_core_def progress_def)
  show ?thesis
  proof (cases "dispatch_data (of_nat k) payload (int (length pl)) f c")
    case (Stop h c1)
    with dispatch_ok [OF core held st fits N pl] obtain E1 H1 where
      "\<exists>i. h = Exit i" and prog: "progress n b F E c E1 H1 c1" and H1: "adv E H k E1 H1"
      by (auto simp: stop_post_def)
    moreover have "recv_stop n b F E H d es c c1"
      using core_of [OF prog H1] prog st unfolding recv_stop_def progress_def by auto
    ultimately show ?thesis using Stop by (auto simp: run_data_state_def)
  next
    case (Ret D c1)
    with dispatch_ok [OF core held st fits N pl] obtain E1 H1 where
      prog: "progress n b F E c E1 H1 c1" and held1: "client_held D n b F E1 H1 (recvBuf c1)"
      and H1: "adv E H k E1 H1" and quiet: "D = FLUSH \<longrightarrow> net_out c1 = net_out c \<and> E < H1"
      by (auto simp: data_post_def)
    note core1 = prog [unfolded progress_def, THEN conjunct1]
    show ?thesis
    proof (cases "D = FLUSH")
      case False
      have "client_core n b F E1 H1 (c1\<lparr>dataState := D\<rparr>)"
        using core1 by (simp add: client_core_def proc_ok_def)
      then have "recv_core n b F E H d es c E1 H1 (c1\<lparr>dataState := D\<rparr>)"
        using core_of [OF prog H1] by (simp add: recv_core_def)
      from recv_postI [OF this] Ret False held1 show ?thesis
        by (simp add: run_data_state_def Let_def)
    next
      case True
      let ?c1 = "c1\<lparr>dataState := FLUSH\<rparr>"
      have core2: "client_core n b F E1 H1 ?c1" using core1 by (simp add: client_core_def proc_ok_def)
      have held2: "client_held FLUSH n b F E1 H1 (recvBuf ?c1)" using held1 True by simp
      have base: "net_out ?c1 = net_out c" "net_in ?c1 = es" "E \<le> E1" "E < H1"
        using quiet True prog es by (auto simp: progress_def)
      have rc: "recv_core n b F E H d es c E' H1 (c2\<lparr>dataState := D'\<rparr>) \<and> recv_core n b F E H d es c E' H1 c2"
        if p: "progress n b F E1 ?c1 E' H1 c2" and "E' \<le> Suc H1" for E' c2 D'
      proof -
        have "E1 \<le> E'" using p by (simp add: progress_def)
        then have "adv E H k E' H1" using H1 base \<open>E' \<le> Suc H1\<close> unfolding adv_def by auto
        then have ex: "\<exists>k f pl. dec d = Some (f, of_nat k, pl) \<and> k < 2 ^ 31 \<and> adv E H k E' H1"
          using dec k by blast
        have "client_core n b F E' H1 (c2\<lparr>dataState := D'\<rparr>)" "client_core n b F E' H1 c2"
          using p by (simp_all add: progress_def client_core_def proc_ok_def)
        then show ?thesis using p base ex by (simp add: progress_def recv_core_def)
      qed
      have eq: "run_data_state (of_nat k) payload (int (length pl)) f c =
          bindO (flush ?c1) (\<lambda>st c. Ret (if st = DATA_STATE_DONE then SEND_EOF_ACK else RECV_DATA) (c\<lparr>dataState := st\<rparr>))"
        using Ret True by (simp add: run_data_state_def bindO_assoc)
      show ?thesis
        unfolding eq
      proof (rule ends_bindO, rule ends_mono [OF flush_ok [OF core2 held2 N]])
        fix D' c2
        assume "\<exists>E'. D' \<in> {IN_ORDER, BUFFER} \<and> progress n b F E1 ?c1 E' H1 c2 \<and> E' \<le> Suc H1
          \<and> client_held D' n b F E' H1 (recvBuf c2)"
        then obtain E' where *: "D' \<in> {IN_ORDER, BUFFER}" "progress n b F E1 ?c1 E' H1 c2" "E' \<le> Suc H1"
          "client_held D' n b F E' H1 (recvBuf c2)" by blast
        show "ends (Ret (if D' = DATA_STATE_DONE then SEND_EOF_ACK else RECV_DATA) (c2\<lparr>dataState := D'\<rparr>))
          (recv_post n b F E H d es c) (recv_stop n b F E H d es c)"
          using *(1,4) recv_postI [OF conjunct1 [OF rc [OF *(2,3), of D']]] by auto
      next
        fix c2 assume "\<exists>E'. progress n b F E1 ?c1 E' H1 c2 \<and> E' \<le> Suc H1"
        then show "recv_stop n b F E H d es c c2"
          using rc unfolding recv_stop_def progress_def by fastforce
      qed
    qed
  qed
qed

lemma receiveData_ok:
  assumes core: "client_core n b F E H c" and held: "client_held (dataState c) n b F E H (recvBuf c)"
    and st: "dataState c \<in> {IN_ORDER, BUFFER}" and N: "nchunks b F < 2 ^ 31"
    and net: "net_in c = ts @ Arrive a d # es" "passes ts" "dgram_ok d"
    and fits: "\<And>f s pl. dec d = Some (f, s, pl) \<Longrightarrow> \<exists>k. s = of_nat k \<and> msg_fits n b F (dataState c) E H f k pl"
  shows "ends (receiveData c) (recv_post n b F E H d es c) (recv_stop n b F E H d es c)"
proof -
  let ?c = "c\<lparr>net_in := es, serverConn := (serverConn c)\<lparr>info := a\<rparr>\<rparr>"
  have core': "client_core n b F E H ?c" using core by (simp add: client_core_def proc_ok_def)
  have eq: "recv_core n b F E H d es c = recv_core n b F E H d es ?c"
    "recv_post n b F E H d es c = recv_post n b F E H d es ?c"
    "recv_stop n b F E H d es c = recv_stop n b F E H d es ?c"
    by (auto simp: recv_core_def recv_post_def recv_stop_def fun_eq_iff)
  note recv = receiveData_eq [OF core [unfolded client_core_def, THEN conjunct1] net]
  show ?thesis
  proof (cases "in_cksum d = 0")
    case False
    have "recv_core n b F E H d es ?c E H ?c"
      using core' by (auto simp: recv_core_def adv_def intro!: exI [of _ "[]"])
    with False held st show ?thesis unfolding recv eq by (auto simp: Let_def recv_post_def)
  next
    case True
    let ?pl = "drop 7 d"
    have dec: "dec d = Some (d ! 6, ntohl (word32 (take 4 d)), ?pl)"
      using True net(3) by (simp add: dec_def)
    from fits [OF this] obtain k where k: "ntohl (word32 (take 4 d)) = of_nat k"
      and f: "msg_fits n b F (dataState ?c) E H (d ! 6) k ?pl" by auto
    have "receiveData c = run_data_state (of_nat k) (?pl @ replicate (1407 - length d) 0) (int (length ?pl)) (d ! 6) ?c"
      using recv True k by (simp only: Let_def simp_thms if_False)
    moreover have "ends (run_data_state (of_nat k) (?pl @ replicate (1407 - length d) 0) (int (length ?pl)) (d ! 6) ?c)
        (recv_post n b F E H d es ?c) (recv_stop n b F E H d es ?c)"
      by (rule run_data_state_ok [OF core' _ _ f N _ _ dec [unfolded k]]) (use held st in simp_all)
    ultimately show ?thesis unfolding eq by simp
  qed
qed

end
