(* ===== verification/Channels.thy ===== *)
theory Channels
  imports PduHelpers FileBlocks
begin

text \<open>
  The two directions of the connection as sequences of messages: what the receiver will read
  off the reports and datagrams still under way, and what the protocol keeps true of them. Both
  predicates survive the loss and the repetition of any message.
\<close>

section \<open>Messages under way\<close>

definition arrived :: "event list \<Rightarrow> byte list list" where
  "arrived es = List.map_filter (\<lambda>e. case e of Arrive a d \<Rightarrow> Some d | _ \<Rightarrow> None) es"

definition msgs_in :: "event list \<Rightarrow> msg list" where
  "msgs_in es = List.map_filter dec (arrived es)"

text \<open>Reports of a network that carries datagrams of the two programs, of timers and hang-ups.\<close>

definition ins_ok :: "event list \<Rightarrow> bool" where
  "ins_ok es \<longleftrightarrow> SysErr \<notin> set es \<and> (\<forall>d \<in> set (arrived es). dgram_ok d)"

lemma arrived_simps [simp]:
  "arrived [] = []" "arrived (Timeout # es) = arrived es" "arrived (Hangup # es) = arrived es" "arrived (SysErr # es) = arrived es"
  "arrived (Arrive a d # es) = d # arrived es" "arrived (es @ es') = arrived es @ arrived es'"
  by (simp_all add: arrived_def List.map_filter_def)

lemma msgs_in_simps [simp]:
  "msgs_in [] = []" "msgs_in (Timeout # es) = msgs_in es" "msgs_in (Hangup # es) = msgs_in es"
  "msgs_in (Arrive a d # es) = (case dec d of None \<Rightarrow> msgs_in es | Some m \<Rightarrow> m # msgs_in es)"
  "msgs_in (es @ es') = msgs_in es @ msgs_in es'"
  by (simp_all add: msgs_in_def List.map_filter_def split: option.split)

lemma ins_ok_simps [simp]:
  "ins_ok []" "ins_ok (Timeout # es) \<longleftrightarrow> ins_ok es" "ins_ok (Hangup # es) \<longleftrightarrow> ins_ok es" "\<not> ins_ok (SysErr # es)"
  "ins_ok (Arrive a d # es) \<longleftrightarrow> dgram_ok d \<and> ins_ok es" "ins_ok (es @ es') \<longleftrightarrow> ins_ok es \<and> ins_ok es'"
  by (auto simp: ins_ok_def)

lemma timeouts_only: "set ts \<subseteq> {Timeout, Hangup} \<Longrightarrow> msgs_in ts = [] \<and> arrived ts = [] \<and> ins_ok ts"
  by (induction ts) auto

text \<open>Either a datagram is there after some timeouts and hang-ups, or there are only these.\<close>

lemma ins_cases:
  assumes "ins_ok es"
  obtains ts a d es' where "es = ts @ Arrive a d # es'" "set ts \<subseteq> {Timeout, Hangup}" "dgram_ok d" "ins_ok es'"
      "msgs_in es = (case dec d of None \<Rightarrow> [] | Some m \<Rightarrow> [m]) @ msgs_in es'"
    | "set es \<subseteq> {Timeout, Hangup}"
proof -
  have "(\<exists>ts a d es'. es = ts @ Arrive a d # es' \<and> set ts \<subseteq> {Timeout, Hangup} \<and> dgram_ok d \<and> ins_ok es'
      \<and> msgs_in es = (case dec d of None \<Rightarrow> [] | Some m \<Rightarrow> [m]) @ msgs_in es') \<or> set es \<subseteq> {Timeout, Hangup}"
    using assms
  proof (induction es)
    case (Cons e es)
    consider "e \<in> {Timeout, Hangup}" | a d where "e = Arrive a d" | "e = SysErr" by (cases e) auto
    then show ?case
    proof cases
      case 1
      with Cons.prems have "ins_ok es" and same: "msgs_in (e # es) = msgs_in es" by auto
      from Cons.IH [OF this(1)] show ?thesis
      proof (elim disjE exE conjE)
        fix ts a d es'
        assume "es = ts @ Arrive a d # es'" "set ts \<subseteq> {Timeout, Hangup}" "dgram_ok d" "ins_ok es'"
          "msgs_in es = (case dec d of None \<Rightarrow> [] | Some m \<Rightarrow> [m]) @ msgs_in es'"
        with 1 same show ?thesis
          by (intro disjI1 exI [of _ "e # ts"] exI [of _ a] exI [of _ d] exI [of _ es']) simp
      qed (use 1 in simp)
    next
      case (2 a d)
      with Cons.prems show ?thesis
        by (intro disjI1 exI [of _ "[]"] exI [of _ a] exI [of _ d] exI [of _ es]) (auto split: option.split)
    qed (use Cons.prems in simp)
  qed simp
  with that show ?thesis by blast
qed

section \<open>From the client to the server\<close>

text \<open>The number in an RR or SREJ.\<close>

fun ack_val :: "msg \<Rightarrow> nat option" where
  "ack_val (f, s, pl) = (if f = flag_code RR \<or> f = flag_code SREJ
     then Some (unat (ntohl (word32 (take 4 pl)))) else None)"

text \<open>
  Acknowledgments lie between what the server knows (\<open>lo\<close>) and what the client expects (\<open>E\<close>)
  and never go down; only a block that has been sent (below \<open>C\<close>) is asked for again.
\<close>

definition ack_fits :: "nat \<Rightarrow> nat \<Rightarrow> nat \<Rightarrow> msg \<Rightarrow> bool" where
  "ack_fits lo E C m \<longleftrightarrow> (\<forall>v. ack_val m = Some v \<longrightarrow> lo \<le> v \<and> v \<le> E \<and> 4 \<le> length (snd (snd m))
     \<and> (fst m = flag_code SREJ \<longrightarrow> v < C))"

definition acks_ok :: "nat \<Rightarrow> nat \<Rightarrow> nat \<Rightarrow> msg list \<Rightarrow> bool" where
  "acks_ok lo E C ms \<longleftrightarrow> (\<forall>m \<in> set ms. ack_fits lo E C m) \<and> sorted (List.map_filter ack_val ms)"

section \<open>From the server to the client\<close>

text \<open>
  Data is a block below \<open>C\<close> or something already acknowledged, the end of file comes when all
  is acknowledged, and the numbers that are news to the client (above \<open>E\<close>) never go down.
\<close>

definition data_fits :: "nat \<Rightarrow> byte list \<Rightarrow> nat \<Rightarrow> nat \<Rightarrow> msg \<Rightarrow> bool" where
  "data_fits b F lo C m \<longleftrightarrow> (case m of (f, s, pl) \<Rightarrow> length pl \<le> MAX_PAYLOAD_SIZE \<and>
     (if f = flag_code END_OF_FILE then unat s = C \<and> lo = C \<and> C = nchunks b F
      else unat s < C \<and> (pl = chunk b F (unat s) \<or> unat s < lo)))"

definition news_sorted :: "nat \<Rightarrow> msg list \<Rightarrow> bool" where
  "news_sorted E ms \<longleftrightarrow> sorted (filter (\<lambda>k. E < k) (map (\<lambda>m. unat (fst (snd m))) ms))"

definition sends_ok :: "nat \<Rightarrow> byte list \<Rightarrow> nat \<Rightarrow> nat \<Rightarrow> nat \<Rightarrow> msg list \<Rightarrow> bool" where
  "sends_ok b F lo C E ms \<longleftrightarrow> (\<forall>m \<in> set ms. data_fits b F lo C m) \<and> news_sorted E ms"

section \<open>Loss, repetition, growth\<close>

lemma subseq_map_filter: "subseq xs ys \<Longrightarrow> subseq (List.map_filter f xs) (List.map_filter f ys)"
  by (auto simp: List.map_filter_def intro: subseq_map subseq_filter)

lemma sorted_subseq: "subseq xs ys \<Longrightarrow> sorted ys \<Longrightarrow> sorted (xs :: nat list)"
  by (induction rule: list_emb.induct) (auto dest: list_emb_set)

lemma map_filter_append [simp]: "List.map_filter f (xs @ ys) = List.map_filter f xs @ List.map_filter f ys"
  by (simp add: List.map_filter_def)

lemma map_filter_Cons [simp]:
  "List.map_filter f (x # xs) = (case f x of None \<Rightarrow> List.map_filter f xs | Some y \<Rightarrow> y # List.map_filter f xs)"
  by (simp add: List.map_filter_def split: option.split)

lemma in_map_filter: "y \<in> set (List.map_filter f xs) \<longleftrightarrow> (\<exists>x \<in> set xs. f x = Some y)"
  by (force simp: List.map_filter_def)

lemma acks_ok_subseq: "acks_ok lo E C ms \<Longrightarrow> subseq ms' ms \<Longrightarrow> acks_ok lo E C ms'"
  unfolding acks_ok_def by (blast dest: list_emb_set sorted_subseq [OF subseq_map_filter])

lemma sorted_repeat: "sorted (xs @ y # ys) \<Longrightarrow> sorted (xs @ y # y # (ys :: nat list))"
  by (auto simp: sorted_append)

lemma acks_ok_repeat_in: "acks_ok lo E C (xs @ m # ys) \<Longrightarrow> acks_ok lo E C (xs @ m # m # ys)"
  by (auto simp: acks_ok_def sorted_repeat simp del: sorted_wrt.simps split: option.splits)

lemma acks_ok_grow: "acks_ok lo E C ms \<Longrightarrow> E \<le> E' \<Longrightarrow> C \<le> C' \<Longrightarrow> acks_ok lo E' C' ms"
  by (force simp: acks_ok_def ack_fits_def)

lemma acks_ok_tail: "acks_ok lo E C (m # ms) \<Longrightarrow> acks_ok lo E C ms"
  by (erule acks_ok_subseq) (rule list_emb_Cons [OF subseq_order.order_refl])

lemma acks_ok_advance:
  assumes "acks_ok lo E C (m # ms)" "ack_val m = Some v"
  shows "acks_ok v E C ms"
proof -
  have "v \<le> w" if "m' \<in> set ms" "ack_val m' = Some w" for m' w
    using assms that by (auto simp: acks_ok_def in_map_filter)
  with assms show ?thesis by (fastforce simp: acks_ok_def ack_fits_def)
qed

lemma acks_ok_append:
  assumes "acks_ok lo E C ms" "lo \<le> E"
    and "\<forall>m \<in> set ms'. ack_val m = None \<or>
      (ack_val m = Some E \<and> 4 \<le> length (snd (snd m)) \<and> (fst m = flag_code SREJ \<longrightarrow> E < C))"
  shows "acks_ok lo E C (ms @ ms')"
proof -
  have vals: "v = E" if "v \<in> set (List.map_filter ack_val ms')" for v
    using that assms(3) by (auto simp: in_map_filter)
  then have "sorted (List.map_filter ack_val ms')"
    by (metis replicate_length_same sorted_replicate)
  moreover have "v \<le> E" if "v \<in> set (List.map_filter ack_val ms)" for v
    using that assms(1) by (force simp: in_map_filter acks_ok_def ack_fits_def)
  ultimately have "sorted (List.map_filter ack_val (ms @ ms'))"
    using vals assms(1) by (auto simp: sorted_append acks_ok_def)
  moreover have "\<forall>m \<in> set ms'. ack_fits lo E C m"
    using assms(2,3) by (auto simp: ack_fits_def)
  ultimately show ?thesis using assms(1) by (auto simp: acks_ok_def)
qed

lemma news_sorted_subseq: "news_sorted E ms \<Longrightarrow> subseq ms' ms \<Longrightarrow> news_sorted E ms'"
  unfolding news_sorted_def by (blast intro: sorted_subseq subseq_filter subseq_map)

lemma sends_ok_subseq: "sends_ok b F lo C E ms \<Longrightarrow> subseq ms' ms \<Longrightarrow> sends_ok b F lo C E ms'"
  unfolding sends_ok_def by (blast dest: list_emb_set news_sorted_subseq)

lemma sends_ok_repeat_in: "sends_ok b F lo C E (xs @ m # ys) \<Longrightarrow> sends_ok b F lo C E (xs @ m # m # ys)"
  unfolding sends_ok_def news_sorted_def
  by (cases "E < unat (fst (snd m))") (auto simp: sorted_repeat simp del: sorted_wrt.simps)

lemma sends_ok_tail: "sends_ok b F lo C E (m # ms) \<Longrightarrow> sends_ok b F lo C E ms"
  by (erule sends_ok_subseq) (rule list_emb_Cons [OF subseq_order.order_refl])

lemma news_sorted_grow:
  assumes "news_sorted E ms" "E \<le> E'"
  shows "news_sorted E' ms"
proof -
  let ?ks = "map (\<lambda>m. unat (fst (snd m))) ms"
  have "filter (\<lambda>k. E' < k) ?ks = filter (\<lambda>k. E' < k) (filter (\<lambda>k. E < k) ?ks)"
    using assms(2) by (auto intro: filter_cong)
  with assms(1) show ?thesis
    unfolding news_sorted_def by (metis sorted_filter [of id, simplified])
qed

lemma data_fits_grow:
  "data_fits b F lo C m \<Longrightarrow> lo \<le> lo' \<Longrightarrow> C \<le> C' \<Longrightarrow> lo' \<le> C' \<Longrightarrow> C' \<le> nchunks b F \<Longrightarrow> data_fits b F lo' C' m"
  by (auto simp: data_fits_def split: prod.splits if_splits)

lemma sends_ok_grow:
  "sends_ok b F lo C E ms \<Longrightarrow> lo \<le> lo' \<Longrightarrow> C \<le> C' \<Longrightarrow> lo' \<le> C' \<Longrightarrow> C' \<le> nchunks b F \<Longrightarrow> E \<le> E' \<Longrightarrow>
   sends_ok b F lo' C' E' ms"
  unfolding sends_ok_def using data_fits_grow news_sorted_grow by blast

lemma news_sorted_append_old:
  "news_sorted E ms \<Longrightarrow> \<forall>m \<in> set ms'. unat (fst (snd m)) \<le> E \<Longrightarrow> news_sorted E (ms @ ms')"
  unfolding news_sorted_def by (auto simp: filter_empty_conv not_less)

lemma news_sorted_head:
  assumes "news_sorted E (m # ms)" "E < unat (fst (snd m))" "m' \<in> set ms" "E < unat (fst (snd m'))"
  shows "unat (fst (snd m)) \<le> unat (fst (snd m'))"
proof -
  have "unat (fst (snd m')) \<in> set (filter (\<lambda>k. E < k) (map (\<lambda>m. unat (fst (snd m))) ms))"
    using assms(3,4) by simp
  then show ?thesis using assms(1,2) by (auto simp del: set_filter simp: news_sorted_def)
qed

lemma news_sorted_append_new:
  assumes "news_sorted E ms" "\<forall>m \<in> set ms. unat (fst (snd m)) \<le> unat (fst (snd m'))"
  shows "news_sorted E (ms @ [m'])"
  using assms unfolding news_sorted_def by (auto simp: sorted_append)

declare ack_val.simps [simp del]

end
