(* ===== verification/RcopySteps.thy ===== *)
theory RcopySteps
  imports RcopyLoop RcopyData Channels
begin

text \<open>
  The client cut into the steps between which it can block: \<open>sendFilename\<close> and \<open>filenameOk\<close>
  send first and wait for an answer afterwards. Then what each step of the transfer does to the
  numbers of the transfer and which messages leave.
\<close>

section \<open>Small steps\<close>

datatype client_pc = is_AtC: AtC rcopy_STATE | NamePoll | OkPoll

fun client_small :: "client_pc \<Rightarrow> rcopy \<Rightarrow> (rcopy, client_pc) outcome" where
  "client_small (AtC SEND_FILENAME) c = bindO (sendFilename_send c) (\<lambda>_. Ret NamePoll)"
| "client_small NamePoll c = bindO (sendFilename_poll c) (\<lambda>st. Ret (AtC st))"
| "client_small (AtC FILENAME_OK_STATE) c = bindO (filenameOk_send c) (\<lambda>_. Ret OkPoll)"
| "client_small OkPoll c = bindO (filenameOk_poll c) (\<lambda>st. Ret (AtC st))"
| "client_small (AtC st) c = bindO (client_step st c) (\<lambda>st. Ret (AtC st))"

text \<open>The handler as a run of small steps: one, and one more if it is in the middle.\<close>

definition client_run :: "rcopy_STATE \<Rightarrow> rcopy \<Rightarrow> (rcopy, client_pc) outcome" where
  "client_run st c =
     bindO (client_small (AtC st) c) (\<lambda>pc c. if is_AtC pc then Ret pc c else client_small pc c)"

text \<open>
  Every state handler of the client is a run of the small steps between which the process can
  block.
\<close>

theorem client_handlers_are_runs_of_small_steps:
  "client_run st c = bindO (client_step st c) (\<lambda>st. Ret (AtC st))"
  by (cases st) (simp_all add: client_run_def sendFilename_def rcopy_filenameOk_def bindO_assoc)

section \<open>The messages of the client\<close>

text \<open>Acknowledgments of data, and the two flags; the last one only when all is written.\<close>

definition from_client :: "nat \<Rightarrow> nat \<Rightarrow> bool \<Rightarrow> msg \<Rightarrow> bool" where
  "from_client E H finished m \<longleftrightarrow> is_ack E H m \<or> fst m = flag_code FNAME_OK_ACK
     \<or> fst m = flag_code EOF_ACK \<and> finished"

definition client_moved ::
  "nat \<Rightarrow> nat \<Rightarrow> byte list \<Rightarrow> nat \<Rightarrow> nat \<Rightarrow> rcopy \<Rightarrow> nat \<Rightarrow> nat \<Rightarrow> rcopy \<Rightarrow> bool" where
  "client_moved n b F E H c E' H' c' \<longleftrightarrow> client_core n b F E' H' c' \<and> E \<le> E' \<and> ins_ok (net_in c')
     \<and> (\<exists>ms out. net_out c' = net_out c @ out \<and> transmits ms out
          \<and> (\<forall>m \<in> set ms. from_client E' H' (dataState c' = DATA_STATE_DONE) m))
     \<and> (\<exists>taken. msgs_in (net_in c) = taken @ msgs_in (net_in c') \<and> length taken \<le> 1
          \<and> (E' = E \<and> H' = H \<or> (\<exists>f k pl. taken = [(f, of_nat k, pl)] \<and> k < 2 ^ 31 \<and> adv E H k E' H')))"

fun cpc_ok :: "client_pc \<Rightarrow> DATA_STATE \<Rightarrow> bool" where
  "cpc_ok (AtC FILENAME_OK_STATE) D \<longleftrightarrow> D = IN_ORDER"
| "cpc_ok OkPoll D \<longleftrightarrow> D = IN_ORDER"
| "cpc_ok (AtC RECV_DATA) D \<longleftrightarrow> D \<in> {IN_ORDER, BUFFER}"
| "cpc_ok (AtC SEND_EOF_ACK) D \<longleftrightarrow> D = DATA_STATE_DONE"
| "cpc_ok (AtC DONE_RCOPY) D \<longleftrightarrow> D \<noteq> FLUSH"
| "cpc_ok _ D \<longleftrightarrow> False"

definition client_post ::
  "nat \<Rightarrow> nat \<Rightarrow> byte list \<Rightarrow> nat \<Rightarrow> nat \<Rightarrow> rcopy \<Rightarrow> client_pc \<Rightarrow> rcopy \<Rightarrow> bool" where
  "client_post n b F E H c pc' c' \<longleftrightarrow> (\<exists>E' H'. client_moved n b F E H c E' H' c'
     \<and> client_held (dataState c') n b F E' H' (recvBuf c') \<and> cpc_ok pc' (dataState c')
     \<and> (dataState c = DATA_STATE_DONE \<longrightarrow> dataState c' = DATA_STATE_DONE))"

definition client_stop ::
  "nat \<Rightarrow> nat \<Rightarrow> byte list \<Rightarrow> nat \<Rightarrow> nat \<Rightarrow> rcopy \<Rightarrow> rcopy \<Rightarrow> bool" where
  "client_stop n b F E H c c' \<longleftrightarrow> (\<exists>E' H'. client_moved n b F E H c E' H' c')
     \<and> (dataState c' = DATA_STATE_DONE \<longleftrightarrow> dataState c = DATA_STATE_DONE)"

lemma client_moved_same:
  assumes "client_core n b F E H c'" "ins_ok (net_in c')" "msgs_in (net_in c) = taken @ msgs_in (net_in c')"
    and "length taken \<le> 1" "net_out c' = net_out c @ out" "transmits ms out"
    and "\<forall>m \<in> set ms. from_client E H (dataState c' = DATA_STATE_DONE) m"
  shows "client_moved n b F E H c E H c'"
  unfolding client_moved_def using assms by blast

section \<open>Steps that send a flag or wait\<close>

lemma send_flag_ok:
  assumes core: "client_core n b F E H c" and ins: "ins_ok (net_in c)"
    and f: "from_client E H (dataState c = DATA_STATE_DONE) (f, clientSeqNum c, [])"
  shows "ends (bindO (sendFlagOnly (serverConn c) f (clientSeqNum c) c)
        (\<lambda>_ c. Ret x (c\<lparr>clientSeqNum := clientSeqNum c + 1\<rparr>)))
      (\<lambda>x' c'. x' = x \<and> client_moved n b F E H c E H c' \<and> dataState c' = dataState c
        \<and> recvBuf c' = recvBuf c)
      (\<lambda>c'. client_moved n b F E H c E H c' \<and> dataState c' = dataState c)"
proof -
  have pm: "pm_ok (pm c)" using core by (simp add: client_core_def proc_ok_def)
  have moved: "client_moved n b F E H c E H (c'\<lparr>clientSeqNum := q\<rparr>) \<and> dataState c' = dataState c
      \<and> recvBuf c' = recvBuf c" if "sent [(f, clientSeqNum c, [])] c c'" for c' q
  proof -
    from that obtain out fs pm' where t: "transmits [(f, clientSeqNum c, [])] out" "pm_ok pm'"
      and c': "c' = c\<lparr>pm := pm', net_out := net_out c @ out, send_errs := fs\<rparr>"
      by (auto simp: sent_def sent_state_def)
    have "client_core n b F E H (c'\<lparr>clientSeqNum := q\<rparr>)"
      using core t(2) unfolding c' by (simp add: client_core_def proc_ok_def)
    then have "client_moved n b F E H c E H (c'\<lparr>clientSeqNum := q\<rparr>)"
      by (rule client_moved_same [where taken = "[]", OF _ _ _ _ _ t(1)]) (use ins f in \<open>simp_all add: c'\<close>)
    then show ?thesis unfolding c' by simp
  qed
  have id: "c'\<lparr>clientSeqNum := clientSeqNum c'\<rparr> = c'" for c' :: rcopy by simp
  have snd: "ends (sendFlagOnly (serverConn c) f (clientSeqNum c) c)
      (\<lambda>_. sent [(f, clientSeqNum c, [])] c) (sent [(f, clientSeqNum c, [])] c)"
    using sendPDU_ends [OF pm, of 0 "[]" "[]" "serverConn c" f "clientSeqNum c"]
    by (simp add: sendFlagOnly_def)
  show ?thesis
  proof (rule ends_bindO, rule ends_mono [OF snd])
    fix c' assume "sent [(f, clientSeqNum c, [])] c c'"
    from moved [OF this, of "clientSeqNum c'"] id
    show "client_moved n b F E H c E H c' \<and> dataState c' = dataState c" by simp
  qed (use moved in simp)
qed

lemma filenameOk_poll_ok:
  assumes core: "client_core n b F E H c" and held: "client_held IN_ORDER n b F E H (recvBuf c)"
    and D: "dataState c = IN_ORDER" and ins: "ins_ok (net_in c)" "net_in c \<noteq> []"
  shows "\<exists>st c'. filenameOk_poll c = Ret st c' \<and> client_post n b F E H c (AtC st) c'"
proof -
  have ok: "proc_ok c" using core by (simp add: client_core_def)
  obtain e es where es: "net_in c = e # es" using ins(2) by (cases "net_in c") auto
  have post: "client_post n b F E H c (AtC st) c'"
    if "st \<in> {FILENAME_OK_STATE, RECV_DATA, DONE_RCOPY}" "msgs_in (net_in c) = msgs_in (net_in c')"
      "c' = c\<lparr>net_in := es', filenameOk_retryCount := r\<rparr>" "ins_ok es'" for st c' es' r
  proof -
    have "client_core n b F E H c'" using core that(3) by (simp add: client_core_def proc_ok_def)
    then have "client_moved n b F E H c E H c'"
      by (rule client_moved_same [where taken = "[]" and ms = "[]" and out = "[]"]) (use that in auto)
    with that held D show ?thesis unfolding client_post_def
      by (intro exI [of _ E] exI [of _ H]) auto
  qed
  show ?thesis
  proof (cases e)
    case Timeout
    then have net: "net_in c = Timeout # es" using es by simp
    let ?c = "c\<lparr>net_in := es, filenameOk_retryCount := filenameOk_retryCount c + 1\<rparr>"
    let ?st = "if 10 \<le> filenameOk_retryCount c + 1 then DONE_RCOPY else FILENAME_OK_STATE"
    have "filenameOk_poll c = Ret ?st ?c"
      using processPoll_timeout [OF net, of "filenameOk_retryCount c" SHORT_TIME 10 FILENAME_OK_STATE RECV_DATA DONE_RCOPY]
      by (simp add: filenameOk_poll_def)
    moreover have "client_post n b F E H c (AtC ?st) ?c"
      by (rule post [where es' = es]) (use net ins in auto)
    ultimately show ?thesis by blast
  next
    case Hangup
    then have net: "net_in c = Hangup # es" using es by simp
    let ?c = "c\<lparr>net_in := es, filenameOk_retryCount := filenameOk_retryCount c + 1\<rparr>"
    let ?st = "if 10 \<le> filenameOk_retryCount c + 1 then DONE_RCOPY else FILENAME_OK_STATE"
    have "filenameOk_poll c = Ret ?st ?c"
      using processPoll_hangup [OF ok net, of "filenameOk_retryCount c" SHORT_TIME 10 FILENAME_OK_STATE RECV_DATA DONE_RCOPY]
      by (simp add: filenameOk_poll_def)
    moreover have "client_post n b F E H c (AtC ?st) ?c"
      by (rule post [where es' = es]) (use net ins in auto)
    ultimately show ?thesis by blast
  next
    case (Arrive a d)
    then have net: "net_in c = Arrive a d # es" using es by simp
    let ?c = "c\<lparr>net_in := net_in c, filenameOk_retryCount := 0\<rparr>"
    have "filenameOk_poll c = Ret RECV_DATA ?c"
      using processPoll_ready [OF ok net, of "filenameOk_retryCount c" SHORT_TIME 10 FILENAME_OK_STATE RECV_DATA DONE_RCOPY]
      by (simp add: filenameOk_poll_def)
    moreover have "client_post n b F E H c (AtC RECV_DATA) ?c"
      by (rule post [where es' = "net_in c"]) (use ins in auto)
    ultimately show ?thesis by blast
  qed (use es ins in simp)
qed

section \<open>Receiving data\<close>

lemma recv_core_moved:
  assumes "recv_core n b F E H d es c E' H' c'" "net_in c = ts @ Arrive a d # es" "set ts \<subseteq> {Timeout, Hangup}"
    and "ins_ok (net_in c)"
  shows "client_moved n b F E H c E' H' c'"
proof -
  let ?taken = "case dec d of None \<Rightarrow> [] | Some m \<Rightarrow> [m]"
  have took: "msgs_in (net_in c) = ?taken @ msgs_in (net_in c')" "ins_ok (net_in c')" "length ?taken \<le> 1"
    using assms by (auto simp: recv_core_def timeouts_only split: option.split)
  obtain ms out where out: "net_out c' = net_out c @ out" "transmits ms out" "\<forall>m \<in> set ms. is_ack E' H' m"
    using assms(1) unfolding recv_core_def by blast
  have nums: "E' = E \<and> H' = H \<or> (\<exists>f k pl. ?taken = [(f, of_nat k, pl)] \<and> k < 2 ^ 31 \<and> adv E H k E' H')"
    using assms(1) unfolding recv_core_def by auto
  have sends: "\<exists>ms out. net_out c' = net_out c @ out \<and> transmits ms out
      \<and> (\<forall>m \<in> set ms. from_client E' H' (dataState c' = DATA_STATE_DONE) m)"
    using out unfolding from_client_def by blast
  show ?thesis
    unfolding client_moved_def using took nums sends assms(1) by (auto simp: recv_core_def simp del: One_nat_def)
qed

definition fits_client :: "nat \<Rightarrow> nat \<Rightarrow> byte list \<Rightarrow> DATA_STATE \<Rightarrow> nat \<Rightarrow> nat \<Rightarrow> msg list \<Rightarrow> bool" where
  "fits_client n b F D E H ms \<longleftrightarrow> (case ms of [] \<Rightarrow> True | m # _ \<Rightarrow>
     (case m of (f, s, pl) \<Rightarrow> \<exists>k. s = of_nat k \<and> msg_fits n b F D E H f k pl))"

lemma receive_hangup_ok:
  assumes core: "client_core n b F E H c" and held: "client_held (dataState c) n b F E H (recvBuf c)"
    and st: "dataState c \<in> {IN_ORDER, BUFFER}" and ins: "ins_ok (net_in c)" and net: "net_in c = Hangup # es"
  shows "ends (receiveData c) (\<lambda>st. client_post n b F E H c (AtC st)) (client_stop n b F E H c)"
proof -
  let ?c = "c\<lparr>net_in := es\<rparr>"
  have "receiveData c = Ret DONE_RCOPY ?c" using core net by (simp add: client_core_def receiveData_hangup)
  moreover have "client_core n b F E H ?c" using core by (simp add: client_core_def proc_ok_def)
  then have "client_moved n b F E H c E H ?c"
    by (rule client_moved_same [where taken = "[]" and ms = "[]" and out = "[]"]) (use net ins in auto)
  then have "client_post n b F E H c (AtC DONE_RCOPY) ?c"
    using held st unfolding client_post_def by (intro exI [of _ E] exI [of _ H]) auto
  ultimately show ?thesis by simp
qed

lemma receive_step_ok:
  assumes core: "client_core n b F E H c" and held: "client_held (dataState c) n b F E H (recvBuf c)"
    and st: "dataState c \<in> {IN_ORDER, BUFFER}" and N: "nchunks b F < 2 ^ 31"
    and ins: "ins_ok (net_in c)" and ready: "arrived (net_in c) \<noteq> [] \<or> (\<exists>es. net_in c = Hangup # es)"
    and fits: "fits_client n b F (dataState c) E H (msgs_in (net_in c))"
  shows "ends (receiveData c) (\<lambda>st. client_post n b F E H c (AtC st)) (client_stop n b F E H c)"
proof (cases "\<exists>es. net_in c = Hangup # es")
  case True
  then obtain es where "net_in c = Hangup # es" by blast
  then show ?thesis by (rule receive_hangup_ok [OF core held st ins])
next
  case False
  show ?thesis
    using ins
  proof (cases rule: ins_cases)
    case (1 ts a d es)
    have f: "\<exists>k. s = of_nat k \<and> msg_fits n b F (dataState c) E H f k pl" if "dec d = Some (f, s, pl)" for f s pl
      using fits that 1(5) by (auto simp: fits_client_def)
    have "passes ts" using False 1(1,2) by (auto simp: passes_def)
    note recv = receiveData_ok [OF core held st N 1(1) this 1(3) f]
    show ?thesis
    proof (rule ends_mono [OF recv])
      fix st' c' assume "recv_post n b F E H d es c st' c'"
      then obtain E' H' where *: "recv_core n b F E H d es c E' H' c'"
        "client_held (dataState c') n b F E' H' (recvBuf c')"
        "st' = RECV_DATA \<and> dataState c' \<in> {IN_ORDER, BUFFER} \<or> st' = SEND_EOF_ACK \<and> dataState c' = DATA_STATE_DONE"
        by (auto simp: recv_post_def)
      from recv_core_moved [OF *(1) 1(1,2) ins] *(2,3) st
      show "client_post n b F E H c (AtC st') c'"
        unfolding client_post_def by (intro exI [of _ E'] exI [of _ H']) auto
    next
      fix c' assume "recv_stop n b F E H d es c c'"
      then obtain E' H' where "recv_core n b F E H d es c E' H' c'" "dataState c' \<noteq> DATA_STATE_DONE"
        by (auto simp: recv_stop_def)
      with recv_core_moved [OF this(1) 1(1,2) ins] st show "client_stop n b F E H c c'"
        unfolding client_stop_def by auto
    qed
  next
    case 2
    with ready False show ?thesis by (simp add: timeouts_only)
  qed
qed

section \<open>Every step of the transfer\<close>

text \<open>Where the client blocks.\<close>

definition cpolls :: "client_pc \<Rightarrow> rcopy \<Rightarrow> bool" where
  "cpolls pc c \<longleftrightarrow> pc = OkPoll \<and> net_in c = [] \<or> pc = AtC RECV_DATA \<and> arrived (net_in c) = [] \<and> (\<forall>es. net_in c \<noteq> Hangup # es)"

lemma receiveData_waits:
  "passes es \<Longrightarrow> net_in c = es \<Longrightarrow> \<exists>c'. receiveData c = Stop Waiting c'"
  by (cases es) (auto simp: passes_def receiveData_def pollCall_def pollCall_result_def safeRecvfrom_def recvfrom_only_timeouts)

lemma client_waits:
  assumes "cpolls pc c" "ins_ok (net_in c)"
  shows "\<exists>c'. client_small pc c = Stop Waiting c'"
proof (cases "pc = OkPoll")
  case True
  with assms(1) show ?thesis
    by (simp add: cpolls_def filenameOk_poll_def processPoll_def pollCall_def)
next
  case False
  with assms(1) have pc: "pc = AtC RECV_DATA" "arrived (net_in c) = []" "\<forall>es. net_in c \<noteq> Hangup # es"
    by (auto simp: cpolls_def)
  from assms(2) have "passes (net_in c)"
    by (cases rule: ins_cases) (use pc in \<open>auto simp: passes_def\<close>)
  from receiveData_waits [OF this refl] pc show ?thesis by auto
qed

lemma client_small_ok:
  assumes core: "client_core n b F E H c" and held: "client_held (dataState c) n b F E H (recvBuf c)"
    and pc: "cpc_ok pc (dataState c)" and N: "nchunks b F < 2 ^ 31" and ins: "ins_ok (net_in c)"
    and ready: "\<not> cpolls pc c" and fits: "fits_client n b F (dataState c) E H (msgs_in (net_in c))"
  shows "ends (client_small pc c) (client_post n b F E H c) (client_stop n b F E H c)"
proof -
  have post: "client_post n b F E H c pc' c'"
    if "client_moved n b F E H c E H c' \<and> dataState c' = dataState c \<and> recvBuf c' = recvBuf c"
      "cpc_ok pc' (dataState c)" for pc' c'
    using that held unfolding client_post_def by (intro exI [of _ E] exI [of _ H]) simp
  have stop: "client_stop n b F E H c c'"
    if "client_moved n b F E H c E H c' \<and> dataState c' = dataState c" for c'
    using that unfolding client_stop_def by auto
  show ?thesis
  proof (cases pc)
    case OkPoll
    with filenameOk_poll_ok [OF core _ _ ins] pc held ready show ?thesis
      by (auto simp: cpolls_def)
  next
    case NamePoll
    with pc show ?thesis by simp
  next
    case (AtC st)
    show ?thesis
    proof (cases st)
      case FILENAME_OK_STATE
      have "from_client E H (dataState c = DATA_STATE_DONE) (flag_code FNAME_OK_ACK, clientSeqNum c, [])"
        by (simp add: from_client_def)
      note send = send_flag_ok [OF core ins this, of "()", folded filenameOk_send_def]
      show ?thesis
        unfolding AtC FILENAME_OK_STATE client_small.simps
        by (rule ends_bindO, rule ends_mono [OF send])
          (use pc AtC FILENAME_OK_STATE in \<open>auto intro!: post stop\<close>)
    next
      case RECV_DATA
      with receive_step_ok [OF core held _ N ins _ fits] AtC pc ready show ?thesis
        by (auto simp: cpolls_def intro!: ends_bindO elim!: ends_mono)
    next
      case SEND_EOF_ACK
      have "from_client E H (dataState c = DATA_STATE_DONE) (flag_code EOF_ACK, clientSeqNum c, [])"
        using AtC SEND_EOF_ACK pc by (simp add: from_client_def)
      note send = send_flag_ok [OF core ins this, of DONE_RCOPY, folded sendEOFAck_def]
      show ?thesis
        unfolding AtC SEND_EOF_ACK client_small.simps client_step.simps
        by (rule ends_bindO, rule ends_mono [OF send])
          (use pc AtC SEND_EOF_ACK in \<open>auto intro!: post stop\<close>)
    next
      case DONE_RCOPY
      have "client_moved n b F E H c E H c"
        by (rule client_moved_same [where taken = "[]" and ms = "[]" and out = "[]"]) (use core ins in auto)
      with post [of c pc] pc AtC DONE_RCOPY show ?thesis by simp
    qed (use pc AtC in simp_all)
  qed
qed

end
