(* ===== verification/SlidingWindow.thy ===== *)
theory SlidingWindow
  imports Process SlotStore
begin

text \<open>
  \<open>src/slidingWindow.c\<close>: the send window of \<open>server\<close>, a circular array of the blocks last sent
  with the three counters \<open>lower\<close>, \<open>current\<close> and \<open>upper\<close>. The interpretation \<open>sw\<close> shows
  that the array is a slot store, so the last \<open>myWindowSize\<close> blocks can be sent again.
\<close>

section \<open>The operations\<close>

record window_Data =
  w_seqNum :: u32
  w_data :: "byte list"
  w_dataLen :: int

record send_window =
  window :: "window_Data list"
  myWindowSize :: int
  upper :: int
  lower :: int
  current :: int

abbreviation (input) sizeof_window_Data :: nat where "sizeof_window_Data \<equiv> 1408"

definition zero_window_Data :: window_Data where
  "zero_window_Data = \<lparr>w_seqNum = 0, w_data = replicate MAX_PAYLOAD_SIZE 0, w_dataLen = 0\<rparr>"

definition static_window :: send_window where
  "static_window = \<lparr>window = [], myWindowSize = 0, upper = 0, lower = 0, current = 0\<rparr>"

definition setupWindow :: "int \<Rightarrow> 'm proc_scheme \<Rightarrow> ('m proc_scheme, send_window) outcome" where
  "setupWindow windowSize p =
     bindO (sCalloc windowSize sizeof_window_Data p) (\<lambda>_ p.
       Ret \<lparr>window = replicate (nat windowSize) zero_window_Data, myWindowSize = windowSize,
            upper = windowSize, lower = 0, current = 0\<rparr> p)"

definition isWindowOpen :: "send_window \<Rightarrow> bool" where
  "isWindowOpen w \<longleftrightarrow> current w \<noteq> upper w"

definition isWindowClosed :: "send_window \<Rightarrow> bool" where
  "isWindowClosed w \<longleftrightarrow> current w = upper w"

definition getLower :: "send_window \<Rightarrow> int" where
  "getLower w = lower w"

definition updateLower :: "u32 \<Rightarrow> send_window \<Rightarrow> send_window" where
  "updateLower seqNum w =
     (let l = s32 seqNum in w\<lparr>lower := l, upper := wrap32 (l + myWindowSize w)\<rparr>)"

definition getIndex :: "int \<Rightarrow> send_window \<Rightarrow> halt + int" where
  "getIndex seqNum w =
     (if myWindowSize w = 0 then Inl (Fault DivByZero) else Inr (c_rem seqNum (myWindowSize w)))"

text \<open>Reading \<open>window[index]\<close>: the index may be negative or too large.\<close>

definition window_at :: "int \<Rightarrow> send_window \<Rightarrow> halt + window_Data" where
  "window_at index w =
     (if 0 \<le> index \<and> nat index < length (window w) then Inr (window w ! nat index)
      else Inl (Fault OutOfBounds))"

text \<open>The caller's array with the data, the sequence number and the length.\<close>

definition getLowestSeqNumData :: "byte list \<Rightarrow> send_window \<Rightarrow> halt + (byte list \<times> u32 \<times> int)" where
  "getLowestSeqNumData data w =
     bindE (getIndex (lower w) w) (\<lambda>index.
     bindE (window_at index w) (\<lambda>e.
     let dataLen = w_dataLen e; seqNum = w_seqNum e in
     bindE (memcpy data 0 (w_data e) dataLen) (\<lambda>data. Inr (data, seqNum, dataLen))))"

definition getLowestSeqNum :: "send_window \<Rightarrow> halt + u32" where
  "getLowestSeqNum w =
     bindE (getIndex (lower w) w) (\<lambda>index. bindE (window_at index w) (\<lambda>e. Inr (w_seqNum e)))"

definition addDataToWindow :: "u32 \<Rightarrow> byte list \<Rightarrow> int \<Rightarrow> send_window \<Rightarrow> halt + send_window" where
  "addDataToWindow sequenceNum data dataLen w =
     (if isWindowClosed w then Inl (Exit 1)
      else
        bindE (getIndex (s32 sequenceNum) w) (\<lambda>index.
        bindE (window_at index w) (\<lambda>e.
        bindE (memcpy (w_data e) 0 data dataLen) (\<lambda>copied.
          Inr (w\<lparr>window := (window w)[nat index :=
                 e\<lparr>w_data := copied, w_dataLen := dataLen, w_seqNum := sequenceNum\<rparr>],
               current := wrap32 (current w + 1)\<rparr>)))))"

definition getDataFromWindow :: "u32 \<Rightarrow> byte list \<Rightarrow> send_window \<Rightarrow> halt + (byte list \<times> int)" where
  "getDataFromWindow sequenceNum data w =
     bindE (getIndex (s32 sequenceNum) w) (\<lambda>index.
     bindE (window_at index w) (\<lambda>e.
     let dataLen = w_dataLen e in
     bindE (memcpy data 0 (w_data e) dataLen) (\<lambda>data. Inr (data, dataLen))))"

section \<open>Well-formed windows\<close>

definition wslot_ok :: "window_Data \<Rightarrow> bool" where
  "wslot_ok e \<longleftrightarrow> length (w_data e) = MAX_PAYLOAD_SIZE \<and> 0 \<le> w_dataLen e
     \<and> w_dataLen e \<le> int MAX_PAYLOAD_SIZE"

definition win_ok :: "send_window \<Rightarrow> bool" where
  "win_ok w \<longleftrightarrow> 0 < myWindowSize w \<and> myWindowSize w < 2 ^ 31
     \<and> int (length (window w)) = myWindowSize w \<and> (\<forall>e \<in> set (window w). wslot_ok e)"

definition win_cap :: "send_window \<Rightarrow> nat" where
  "win_cap w = nat (myWindowSize w)"

text \<open>What the slot of a sequence number holds: the number stored with it and the data.\<close>

definition win_look :: "nat \<Rightarrow> send_window \<Rightarrow> (u32 \<times> byte list) option" where
  "win_look k w =
     (let e = window w ! (k mod win_cap w) in Some (w_seqNum e, take (nat (w_dataLen e)) (w_data e)))"

lemma win_ok_cap: "win_ok w \<Longrightarrow> 0 < win_cap w \<and> length (window w) = win_cap w \<and> myWindowSize w = int (win_cap w)"
  by (auto simp: win_ok_def win_cap_def)

lemma getIndex_ok: "win_ok w \<Longrightarrow> getIndex (int k) w = Inr (int (k mod win_cap w))"
  using win_ok_cap [of w] by (simp add: getIndex_def c_rem_nat)

lemma window_at_ok:
  assumes "win_ok w"
  shows "window_at (int (k mod win_cap w)) w = Inr (window w ! (k mod win_cap w))"
    "wslot_ok (window w ! (k mod win_cap w))"
  using win_ok_cap [OF assms] assms by (auto simp: window_at_def win_ok_def)

lemma getDataFromWindow_ok:
  assumes "win_ok w" "k < 2 ^ 31" "length data = MAX_PAYLOAD_SIZE" "win_look k w = Some (s, d)"
  shows "getDataFromWindow (of_nat k) data w = Inr (d @ drop (length d) data, int (length d))
    \<and> length d \<le> MAX_PAYLOAD_SIZE"
  using window_at_ok [OF assms(1), of k] assms(3,4)
  by (auto simp: getDataFromWindow_def getIndex_ok [OF assms(1)] s32_seq [OF assms(2)] win_look_def
      Let_def wslot_ok_def memcpy_ok min_def)

lemma getLowestSeqNumData_ok:
  assumes "win_ok w" "lower w = int l" "length data = MAX_PAYLOAD_SIZE" "win_look l w = Some (s, d)"
  shows "getLowestSeqNumData data w = Inr (d @ drop (length d) data, s, int (length d))
    \<and> length d \<le> MAX_PAYLOAD_SIZE"
  using window_at_ok [OF assms(1), of l] assms(3,4)
  by (auto simp: getLowestSeqNumData_def getIndex_ok [OF assms(1)] assms(2) win_look_def Let_def
      wslot_ok_def memcpy_ok min_def)

lemma getLowestSeqNum_ok:
  assumes "win_ok w" "lower w = int l" "win_look l w = Some (s, d)"
  shows "getLowestSeqNum w = Inr s"
  using window_at_ok [OF assms(1), of l] assms(3)
  by (auto simp: getLowestSeqNum_def getIndex_ok [OF assms(1)] assms(2) win_look_def Let_def)

lemma win_ok_update:
  "win_ok w \<Longrightarrow> wslot_ok e \<Longrightarrow> win_ok (w\<lparr>window := (window w)[i := e], current := c\<rparr>)"
  by (auto simp: win_ok_def dest!: set_update_subset_insert [THEN subsetD])

lemma addDataToWindow_ok:
  assumes "win_ok w" "isWindowOpen w" "k < 2 ^ 31" "n \<le> length d" "n \<le> MAX_PAYLOAD_SIZE"
  shows "\<exists>w'. addDataToWindow (of_nat k) d (int n) w = Inr w' \<and> win_ok w'
    \<and> current w' = wrap32 (current w + 1) \<and> lower w' = lower w \<and> upper w' = upper w
    \<and> myWindowSize w' = myWindowSize w
    \<and> (\<forall>j. win_look j w' = (if j mod win_cap w = k mod win_cap w then Some (of_nat k, take n d)
                            else win_look j w))"
proof -
  let ?e = "window w ! (k mod win_cap w)"
  let ?d = "take n d @ drop n (w_data ?e)"
  let ?e' = "?e\<lparr>w_data := ?d, w_dataLen := int n, w_seqNum := of_nat k\<rparr>"
  let ?w = "w\<lparr>window := (window w)[k mod win_cap w := ?e'], current := wrap32 (current w + 1)\<rparr>"
  have e: "wslot_ok ?e" using window_at_ok(2) [OF assms(1)] .
  then have m: "memcpy (w_data ?e) 0 d (int n) = Inr ?d"
    using assms(4,5) by (simp add: memcpy_ok wslot_ok_def)
  have e': "wslot_ok ?e'" using e assms(4,5) by (simp add: wslot_ok_def)
  have "addDataToWindow (of_nat k) d (int n) w = Inr ?w"
    using assms(2) by (simp add: addDataToWindow_def isWindowOpen_def isWindowClosed_def
        s32_seq [OF assms(3)] getIndex_ok [OF assms(1)] window_at_ok(1) [OF assms(1)] m)
  moreover have "win_look j ?w = (if j mod win_cap w = k mod win_cap w
      then Some (of_nat k, take n d) else win_look j w)" for j
    using win_ok_cap [OF assms(1)] assms(4) by (simp add: win_look_def win_cap_def Let_def)
  ultimately show ?thesis
    using win_ok_update [OF assms(1) e'] by (intro exI [of _ ?w]) simp
qed

lemma setupWindow_ok:
  assumes "0 < n" "n < 2 ^ 31" "nat n * sizeof_window_Data \<le> heap p"
  shows "\<exists>w. setupWindow n p = Ret w (p\<lparr>heap := heap p - nat n * sizeof_window_Data\<rparr>)
    \<and> win_ok w \<and> win_cap w = nat n \<and> lower w = 0 \<and> current w = 0 \<and> upper w = n
    \<and> (\<forall>k. win_look k w = Some (0, []))"
  using assms
  by (auto simp: setupWindow_def sCalloc_def win_ok_def win_cap_def win_look_def wslot_ok_def
      zero_window_Data_def)

text \<open>The window of a size that may be zero.\<close>

definition fresh_window :: "nat \<Rightarrow> send_window" where
  "fresh_window n = \<lparr>window = replicate n zero_window_Data, myWindowSize = int n, upper = int n, lower = 0, current = 0\<rparr>"

lemma setupWindow_fresh:
  "n * sizeof_window_Data \<le> heap p \<Longrightarrow>
   setupWindow (int n) p = Ret (fresh_window n) (p\<lparr>heap := heap p - n * sizeof_window_Data\<rparr>)"
  by (simp add: setupWindow_def sCalloc_def fresh_window_def)

lemma fresh_window_ok:
  assumes "0 < n" "n < 2 ^ 31"
  shows "win_ok (fresh_window n)" "win_cap (fresh_window n) = n" "win_look k (fresh_window n) = Some (0, [])"
  using assms by (auto simp: fresh_window_def win_ok_def win_cap_def win_look_def wslot_ok_def zero_window_Data_def)

lemma updateLower_ok:
  assumes "win_ok w" "k + win_cap w < 2 ^ 31"
  shows "win_ok (updateLower (of_nat k) w) \<and> win_cap (updateLower (of_nat k) w) = win_cap w
    \<and> lower (updateLower (of_nat k) w) = int k
    \<and> upper (updateLower (of_nat k) w) = int (k + win_cap w)
    \<and> current (updateLower (of_nat k) w) = current w
    \<and> (\<forall>j. win_look j (updateLower (of_nat k) w) = win_look j w)"
proof -
  have k: "k < 2 ^ 31" using assms(2) by simp
  have u: "wrap32 (int k + myWindowSize w) = int (k + win_cap w)"
    using win_ok_cap [OF assms(1)] assms(2) by (simp add: wrap32_seq)
  have "updateLower (of_nat k) w = w\<lparr>lower := int k, upper := int (k + win_cap w)\<rparr>"
    by (simp add: updateLower_def s32_seq [OF k] u Let_def)
  then show ?thesis
    using assms(1) by (simp add: win_ok_def win_cap_def win_look_def)
qed

section \<open>The window is a slot store\<close>

definition win_put :: "nat \<Rightarrow> u32 \<times> byte list \<Rightarrow> send_window \<Rightarrow> send_window" where
  "win_put k v w =
     (case addDataToWindow (of_nat k) (snd v) (int (length (snd v))) w of Inr w' \<Rightarrow> w' | Inl h \<Rightarrow> w)"

definition win_storable :: "nat \<Rightarrow> u32 \<times> byte list \<Rightarrow> send_window \<Rightarrow> bool" where
  "win_storable k v w \<longleftrightarrow> k < 2 ^ 31 \<and> fst v = of_nat k \<and> length (snd v) \<le> MAX_PAYLOAD_SIZE
     \<and> isWindowOpen w"

lemma win_put_ok:
  assumes "win_ok w" "win_storable k v w"
  shows "addDataToWindow (of_nat k) (snd v) (int (length (snd v))) w = Inr (win_put k v w)
    \<and> win_ok (win_put k v w) \<and> win_cap (win_put k v w) = win_cap w
    \<and> (\<forall>j. win_look j (win_put k v w) = (if j mod win_cap w = k mod win_cap w then Some v else win_look j w))"
  using addDataToWindow_ok [OF assms(1), of k "length (snd v)" "snd v"] assms(2)
  by (cases v) (auto simp: win_put_def win_storable_def win_cap_def)

interpretation sw: slot_store win_put win_look win_cap win_ok win_storable
  by unfold_locales (use win_put_ok in auto)

text \<open>Consecutive calls of \<open>addDataToWindow\<close>, as the sender makes them while the window is open.\<close>

primrec add_blocks :: "nat \<Rightarrow> byte list list \<Rightarrow> send_window \<Rightarrow> halt + send_window" where
  "add_blocks k [] w = Inr w"
| "add_blocks k (d # ds) w =
     bindE (addDataToWindow (of_nat k) d (int (length d)) w) (add_blocks (Suc k) ds)"

definition numbered :: "nat \<Rightarrow> byte list list \<Rightarrow> (u32 \<times> byte list) list" where
  "numbered k ds = map (\<lambda>i. (of_nat (k + i), ds ! i)) [0..<length ds]"

lemma numbered_Cons: "numbered k (d # ds) = (of_nat k, d) # numbered (Suc k) ds"
  unfolding numbered_def
  by (simp add: upt_conv_Cons map_Suc_upt [symmetric] o_def del: upt_Suc)

lemma add_blocks_run:
  assumes "win_ok w" "k + length ds \<le> 2 ^ 31" "\<forall>d \<in> set ds. length d \<le> MAX_PAYLOAD_SIZE"
    and "add_blocks k ds w = Inr w'"
  shows "sw.run_storable k (numbered k ds) w \<and> w' = sw.put_run k (numbered k ds) w"
  using assms
proof (induction ds arbitrary: k w)
  case Nil
  then show ?case by (simp add: numbered_def)
next
  case (Cons d ds)
  have "isWindowOpen w"
    using Cons.prems(4) by (auto simp: addDataToWindow_def isWindowOpen_def isWindowClosed_def split: if_splits)
  then have st: "win_storable k (of_nat k, d) w"
    using Cons.prems(2,3) by (simp add: win_storable_def)
  note put = win_put_ok [OF Cons.prems(1) st]
  have "add_blocks (Suc k) ds (win_put k (of_nat k, d) w) = Inr w'"
    using Cons.prems(4) put by simp
  with Cons.IH [of "win_put k (of_nat k, d) w" "Suc k"] Cons.prems(2,3) put st
  show ?case by (simp add: numbered_Cons)
qed

text \<open>
  C27. After consecutive blocks have been added to the window, at most as many as it has room for,
  \<open>getDataFromWindow\<close> returns each of them under its sequence number, byte for byte.
\<close>

theorem window_resends_what_was_sent:
  assumes "win_ok w" "k + length ds \<le> 2 ^ 31" "\<forall>d \<in> set ds. length d \<le> MAX_PAYLOAD_SIZE"
    and "add_blocks k ds w = Inr w'" "length ds \<le> win_cap w" "i < length ds"
    and "length data = MAX_PAYLOAD_SIZE"
  shows "\<exists>data'. getDataFromWindow (of_nat (k + i)) data w' = Inr (data', int (length (ds ! i)))
    \<and> take (length (ds ! i)) data' = ds ! i"
proof -
  note run = add_blocks_run [OF assms(1-4)]
  have len: "length (numbered k ds) = length ds" by (simp add: numbered_def)
  have "win_look (k + i) w' = Some (numbered k ds ! i)"
    using run sw.put_run_look [OF assms(1), of k "numbered k ds" i] assms(5,6) len by simp
  then have look: "win_look (k + i) w' = Some (of_nat (k + i), ds ! i)"
    using assms(6) by (simp add: numbered_def)
  have "win_ok w'" using run sw.put_run_inv [OF assms(1), of k "numbered k ds"] by simp
  from getDataFromWindow_ok [OF this _ assms(7) look] assms(2,6) show ?thesis by simp
qed

theorem window_resends_what_was_sent_witness:
  "\<exists>w' data'. add_blocks 0 [[7], [8, 9]]
      \<lparr>window = replicate 2 zero_window_Data, myWindowSize = 2, upper = 2, lower = 0, current = 0\<rparr>
      = Inr w'
    \<and> getDataFromWindow (of_nat (0 + 1)) (replicate 1400 0) w' = Inr (data', int 2)
    \<and> take 2 data' = [8, 9]"
proof -
  let ?w = "\<lparr>window = replicate 2 zero_window_Data, myWindowSize = 2, upper = 2, lower = 0, current = 0\<rparr>"
  let ?ds = "[[7], [8, 9]] :: byte list list"
  have w: "win_ok ?w" by (simp add: win_ok_def wslot_ok_def zero_window_Data_def)
  obtain w' where w': "add_blocks 0 [[7], [8, 9]] ?w = Inr w'"
    by (simp add: addDataToWindow_def isWindowClosed_def getIndex_def window_at_def c_rem_def
        s32_def wrap32_def memcpy_def zero_window_Data_def numeral_2_eq_2 signed_take_bit_int_eq_self)
  have "\<exists>data'. getDataFromWindow (of_nat (0 + 1)) (replicate 1400 0) w'
        = Inr (data', int (length (?ds ! 1))) \<and> take (length (?ds ! 1)) data' = ?ds ! 1"
    by (rule window_resends_what_was_sent [OF w _ _ w']) (simp_all add: win_cap_def)
  with w' show ?thesis by (auto simp: numeral_2_eq_2)
qed

end
