(* ===== verification/Settings.thy ===== *)
theory Settings
  imports ErrorInjection
begin

text \<open>
  The settings of the error injection, \<open>SettingsManager.cpp\<close>: environment variables that
  override what the programs ask for. \<open>getenv\<close> is a map from names to strings; what follows
  the manager around (the packet manager and the debug level) is part of the state
  \<open>library\<close> of \<open>libcpe464\<close>.
\<close>

section \<open>State\<close>

datatype eEnvData = EDT_UNKNOWN | EDT_LONG | EDT_FLOAT | EDT_BOOL | EDT_CHARPTR | EDT_LIST_LONG

datatype eEnvDataKey = EDK_UNKNOWN | EDK_AUTOGRADER | EDK_OVERRIDE_PORT | EDK_OVERRIDE_DEBUG
  | EDK_OVERRIDE_SEEDRAND | EDK_OVERRIDE_ERR_RATE | EDK_OVERRIDE_ERR_DROP | EDK_OVERRIDE_ERR_FLIP

text \<open>The union of an entry: at first it holds nothing.\<close>

datatype env_value = VUnset | VLong int | VFloat cfloat | VBool bool | VCharPtr "byte list"

record sEnvDataEntry =
  entry_key :: eEnvDataKey
  entry_type :: eEnvData
  isSet :: bool
  entry_data :: env_value
  lLong :: "int list"

type_synonym environment = "string \<Rightarrow> byte list option"

definition g_EnvKeys :: "(eEnvDataKey \<times> string \<times> eEnvData) list" where
  "g_EnvKeys =
     [(EDK_AUTOGRADER, ''CPE464_AUTOGRADER'', EDT_CHARPTR),
      (EDK_OVERRIDE_PORT, ''CPE464_OVERRIDE_PORT'', EDT_LONG),
      (EDK_OVERRIDE_DEBUG, ''CPE464_OVERRIDE_DEBUG'', EDT_LONG),
      (EDK_OVERRIDE_SEEDRAND, ''CPE464_OVERRIDE_SEEDRAND'', EDT_LONG),
      (EDK_OVERRIDE_ERR_RATE, ''CPE464_OVERRIDE_ERR_RATE'', EDT_FLOAT),
      (EDK_OVERRIDE_ERR_DROP, ''CPE464_OVERRIDE_ERR_DROP'', EDT_LIST_LONG),
      (EDK_OVERRIDE_ERR_FLIP, ''CPE464_OVERRIDE_ERR_FLIP'', EDT_LIST_LONG)]"

text \<open>The entry before its first use; the map inserts it on access.\<close>

definition new_entry :: sEnvDataEntry where
  "new_entry = \<lparr>entry_key = EDK_UNKNOWN, entry_type = EDT_UNKNOWN, isSet = False, entry_data = VUnset, lLong = []\<rparr>"

record library =
  pktMgr :: PacketManager
  m_EnvData :: "eEnvDataKey \<rightharpoonup> sEnvDataEntry"
  g_dbg_print_level :: int
  socketType :: int
  nextSeed :: int
  childProcess :: int
  s_hasOverridden :: bool

definition env_entry :: "eEnvDataKey \<Rightarrow> library \<Rightarrow> sEnvDataEntry" where
  "env_entry k l = (case m_EnvData l k of None \<Rightarrow> new_entry | Some e \<Rightarrow> e)"

section \<open>Debug output\<close>

definition dbg_setlevel :: "int \<Rightarrow> library \<Rightarrow> library" where
  "dbg_setlevel newLevel l = l\<lparr>g_dbg_print_level := newLevel\<rparr>"

text \<open>Whether a message of a level is printed; \<open>- 1\<close> is the level of errors.\<close>

definition dbg_print :: "int \<Rightarrow> library \<Rightarrow> bool" where
  "dbg_print level l \<longleftrightarrow> \<not> (level \<noteq> - 1 \<and> g_dbg_print_level l < level)"

section \<open>Reading lists\<close>

text \<open>
  The tokens between commas, up to the first that is no number; the count and the list. The
  second argument is what the list holds already.
\<close>

function token_loop :: "byte list \<Rightarrow> int list \<Rightarrow> int \<Rightarrow> int \<times> int list" where
  "token_loop s l count =
     (case strtok_r 44 s of
        None \<Rightarrow> (count, l)
      | Some (token, rest) \<Rightarrow>
          (case strtol token of
             None \<Rightarrow> (count, l)
           | Some val \<Rightarrow> token_loop rest (l @ [val]) (count + 1)))"
  by pat_completeness auto
termination
  by (relation "measure (\<lambda>(s, l, count). length s)") (auto dest: strtok_r_shorter)

declare token_loop.simps [simp del]

definition parser2ListLong :: "int list \<Rightarrow> byte list \<Rightarrow> int \<times> int list" where
  "parser2ListLong l s = token_loop s l 0"

fun parserLong2Uint32 :: "int list \<Rightarrow> u32 list" where
  "parserLong2Uint32 [] = []"
| "parserLong2Uint32 (i # l) = (if 0 \<le> i then word_of_int i # parserLong2Uint32 l else parserLong2Uint32 l)"

section \<open>Loading the environment\<close>

text \<open>
  One variable: the entry is marked as set first and unmarked when nothing can be read.
  \<open>memory\<close> is what \<open>malloc\<close> can give.
\<close>

definition load_value :: "nat \<Rightarrow> byte list \<Rightarrow> sEnvDataEntry \<Rightarrow> sEnvDataEntry" where
  "load_value memory s e =
     (case entry_type e of
        EDT_LONG \<Rightarrow>
          (case strtol s of None \<Rightarrow> e\<lparr>entry_data := VLong 0, isSet := False\<rparr> | Some v \<Rightarrow> e\<lparr>entry_data := VLong v\<rparr>)
      | EDT_FLOAT \<Rightarrow>
          (case strtof s of None \<Rightarrow> e\<lparr>entry_data := VFloat (Num 0), isSet := False\<rparr> | Some v \<Rightarrow> e\<lparr>entry_data := VFloat v\<rparr>)
      | EDT_BOOL \<Rightarrow>
          (case strtol s of None \<Rightarrow> e\<lparr>entry_data := VBool False, isSet := False\<rparr> | Some v \<Rightarrow> e\<lparr>entry_data := VBool (v \<noteq> 0)\<rparr>)
      | EDT_CHARPTR \<Rightarrow> if memory < length s then e\<lparr>isSet := False\<rparr> else e\<lparr>entry_data := VCharPtr s\<rparr>
      | EDT_LIST_LONG \<Rightarrow>
          (case parser2ListLong (lLong e) s of (count, l) \<Rightarrow>
             if count < 0 then e\<lparr>entry_data := VLong count, lLong := l, isSet := False\<rparr>
             else e\<lparr>entry_data := VLong count, lLong := l\<rparr>)
      | EDT_UNKNOWN \<Rightarrow> e)"

fun loadEnvKeys :: "environment \<Rightarrow> nat \<Rightarrow> (eEnvDataKey \<times> string \<times> eEnvData) list \<Rightarrow> library \<Rightarrow> library" where
  "loadEnvKeys getenv memory [] l = l"
| "loadEnvKeys getenv memory ((k, keyStr, typ) # keys) l =
     (case getenv keyStr of
        None \<Rightarrow> loadEnvKeys getenv memory keys l
      | Some s \<Rightarrow>
          let e = (env_entry k l)\<lparr>entry_key := k, entry_type := typ, isSet := True\<rparr> in
          loadEnvKeys getenv memory keys (l\<lparr>m_EnvData := (m_EnvData l)(k \<mapsto> load_value memory s e)\<rparr>))"

definition loadEnvData :: "environment \<Rightarrow> nat \<Rightarrow> library \<Rightarrow> library" where
  "loadEnvData getenv memory l = loadEnvKeys getenv memory g_EnvKeys l"

text \<open>The values read back from the union.\<close>

definition long_of :: "sEnvDataEntry \<Rightarrow> int" where
  "long_of e = (case entry_data e of VLong v \<Rightarrow> v | _ \<Rightarrow> 0)"

definition float_of :: "sEnvDataEntry \<Rightarrow> cfloat" where
  "float_of e = (case entry_data e of VFloat v \<Rightarrow> v | _ \<Rightarrow> Num 0)"

text \<open>The first two only print.\<close>

definition loadEnvData_Port :: "library \<Rightarrow> library" where
  "loadEnvData_Port l = l"

definition loadEnvData_Autograder :: "library \<Rightarrow> library" where
  "loadEnvData_Autograder l = l"

definition loadEnvData_Debug :: "library \<Rightarrow> library" where
  "loadEnvData_Debug l =
     (let e = env_entry EDK_OVERRIDE_DEBUG l in if isSet e then dbg_setlevel (wrap32 (long_of e)) l else l)"

definition loadEnvData_SeedRand :: "library \<Rightarrow> library" where
  "loadEnvData_SeedRand l =
     (let e = env_entry EDK_OVERRIDE_SEEDRAND l in
      if isSet e then l\<lparr>pktMgr := setRandSeed (long_of e) (pktMgr l)\<rparr> else l)"

definition loadEnvData_ErrRate :: "library \<Rightarrow> library" where
  "loadEnvData_ErrRate l =
     (let e = env_entry EDK_OVERRIDE_ERR_RATE l in
      if isSet e then l\<lparr>pktMgr := setErrorRate (float_of e) (pktMgr l)\<rparr> else l)"

definition loadEnvData_ErrDrop :: "library \<Rightarrow> library" where
  "loadEnvData_ErrDrop l =
     (let e = env_entry EDK_OVERRIDE_ERR_DROP l in
      if isSet e then
        let lUint32 = parserLong2Uint32 (lLong e) in
        if lUint32 = [] then l\<lparr>pktMgr := snd (addMsgEvent_Random (Some new_errorDrop) (pktMgr l))\<rparr>
        else l\<lparr>pktMgr := snd (addMsgEvent_Standard (Some (setDropSpecific lUint32 new_errorDrop)) (pktMgr l))\<rparr>
      else l)"

text \<open>A list of packets to damage is not implemented: nothing happens.\<close>

definition loadEnvData_ErrFlip :: "library \<Rightarrow> int \<times> library" where
  "loadEnvData_ErrFlip l =
     (let e = env_entry EDK_OVERRIDE_ERR_FLIP l in
      if isSet e then
        if parserLong2Uint32 (lLong e) = []
        then (0, l\<lparr>pktMgr := snd (addMsgEvent_Random (Some ErrorFlipBits) (pktMgr l))\<rparr>)
        else (- 1, l)
      else (0, l))"

text \<open>The constructor.\<close>

definition SettingsManager :: "environment \<Rightarrow> nat \<Rightarrow> library \<Rightarrow> library" where
  "SettingsManager getenv memory l =
     (let l = loadEnvData getenv memory (dbg_setlevel 0 l);
          l = loadEnvData_Port l;
          l = loadEnvData_Autograder l;
          l = loadEnvData_Debug l;
          l = loadEnvData_SeedRand l;
          l = loadEnvData_ErrRate l;
          l = loadEnvData_ErrDrop l
      in snd (loadEnvData_ErrFlip l))"

section \<open>What the programs ask for\<close>

text \<open>An override from the environment wins; the value returned is \<open>- 1\<close> then.\<close>

definition setUserMode_Debug :: "int \<Rightarrow> library \<Rightarrow> int \<times> library" where
  "setUserMode_Debug debugLevel l =
     (if isSet (env_entry EDK_OVERRIDE_DEBUG l) then (- 1, l) else (0, dbg_setlevel debugLevel l))"

definition setUserMode_SeedRand :: "int \<Rightarrow> library \<Rightarrow> int \<times> library" where
  "setUserMode_SeedRand seedValue l =
     (if isSet (env_entry EDK_OVERRIDE_SEEDRAND l) then (- 1, l)
      else (0, l\<lparr>pktMgr := setRandSeed seedValue (pktMgr l)\<rparr>))"

definition setUserMode_ErrRate :: "cfloat \<Rightarrow> library \<Rightarrow> int \<times> library" where
  "setUserMode_ErrRate rate l =
     (if isSet (env_entry EDK_OVERRIDE_ERR_RATE l) then (- 1, l)
      else (0, l\<lparr>pktMgr := setErrorRate rate (pktMgr l)\<rparr>))"

definition setUserMode_ErrDrop :: "bool \<Rightarrow> library \<Rightarrow> int \<times> library" where
  "setUserMode_ErrDrop isEnabled l =
     (if isSet (env_entry EDK_OVERRIDE_ERR_DROP l) then (- 1, l)
      else if isEnabled then
        (case addMsgEvent_Random (Some new_errorDrop) (pktMgr l) of (n, pm) \<Rightarrow> (n, l\<lparr>pktMgr := pm\<rparr>))
      else (0, l))"

definition setUserMode_ErrFlip :: "bool \<Rightarrow> library \<Rightarrow> int \<times> library" where
  "setUserMode_ErrFlip isEnabled l =
     (if isSet (env_entry EDK_OVERRIDE_ERR_FLIP l) then (- 1, l)
      else if isEnabled then
        (case addMsgEvent_Random (Some ErrorFlipBits) (pktMgr l) of (n, pm) \<Rightarrow> (n, l\<lparr>pktMgr := pm\<rparr>))
      else (0, l))"

section \<open>What is loaded\<close>

lemma token_loop_count: "0 \<le> count \<Longrightarrow> 0 \<le> fst (token_loop s l count)"
  by (induction s l count rule: token_loop.induct) (simp add: token_loop.simps split: option.split prod.split)

lemma parser2ListLong_count: "parser2ListLong l s = (count, l') \<Longrightarrow> 0 \<le> count"
  using token_loop_count [of 0 s l] by (simp add: parser2ListLong_def)

text \<open>The variables are independent of each other.\<close>

lemma loadEnvKeys_other: "k \<notin> fst ` set keys \<Longrightarrow> m_EnvData (loadEnvKeys getenv memory keys l) k = m_EnvData l k"
  by (induction getenv memory keys l rule: loadEnvKeys.induct) (auto simp: Let_def split: option.split)

lemma loadEnvKeys_entry:
  assumes "distinct (map fst keys)" "(k, keyStr, typ) \<in> set keys" "m_EnvData l k = None"
  shows "m_EnvData (loadEnvKeys getenv memory keys l) k =
    map_option (\<lambda>s. load_value memory s \<lparr>entry_key = k, entry_type = typ, isSet = True, entry_data = VUnset, lLong = []\<rparr>)
      (getenv keyStr)"
  using assms
proof (induction getenv memory keys l rule: loadEnvKeys.induct)
  case (2 getenv memory k0 s0 t0 keys l)
  show ?case
  proof (cases "k = k0")
    case True
    with 2(3,4) have "keyStr = s0" "typ = t0" "k \<notin> fst ` set keys" by force+
    with True 2(5) show ?thesis
      by (simp add: loadEnvKeys_other env_entry_def new_entry_def Let_def split: option.split)
  next
    case False
    with 2 show ?thesis by (cases "getenv s0") (auto simp: Let_def)
  qed
qed simp

lemma loadEnvKeys_globals:
  "pktMgr (loadEnvKeys getenv memory keys l) = pktMgr l"
  "nextSeed (loadEnvKeys getenv memory keys l) = nextSeed l"
  by (induction getenv memory keys l rule: loadEnvKeys.induct) (simp_all add: Let_def split: option.split)

lemma loadEnvData_entry:
  assumes "(k, keyStr, typ) \<in> set g_EnvKeys" "m_EnvData l k = None"
  shows "env_entry k (loadEnvData getenv memory l) =
    (case getenv keyStr of
       None \<Rightarrow> new_entry
     | Some s \<Rightarrow> load_value memory s \<lparr>entry_key = k, entry_type = typ, isSet = True, entry_data = VUnset, lLong = []\<rparr>)"
proof -
  have "distinct (map fst g_EnvKeys)" by (simp add: g_EnvKeys_def)
  from loadEnvKeys_entry [OF this assms] show ?thesis
    by (simp add: env_entry_def loadEnvData_def split: option.split)
qed

text \<open>What the variables amount to.\<close>

definition env_seed :: "environment \<Rightarrow> int option" where
  "env_seed getenv = Option.bind (getenv ''CPE464_OVERRIDE_SEEDRAND'') strtol"

definition env_rate :: "environment \<Rightarrow> cfloat option" where
  "env_rate getenv = Option.bind (getenv ''CPE464_OVERRIDE_ERR_RATE'') strtof"

text \<open>The packets of a list; none of them if the variable asks for random events.\<close>

definition env_list :: "string \<Rightarrow> environment \<Rightarrow> u32 list option" where
  "env_list name getenv = map_option (\<lambda>s. parserLong2Uint32 (snd (parser2ListLong [] s))) (getenv name)"

abbreviation (input) env_drop :: "environment \<Rightarrow> u32 list option" where
  "env_drop \<equiv> env_list ''CPE464_OVERRIDE_ERR_DROP''"

abbreviation (input) env_flip :: "environment \<Rightarrow> u32 list option" where
  "env_flip \<equiv> env_list ''CPE464_OVERRIDE_ERR_FLIP''"

lemma key_in:
  "(EDK_OVERRIDE_SEEDRAND, ''CPE464_OVERRIDE_SEEDRAND'', EDT_LONG) \<in> set g_EnvKeys"
  "(EDK_OVERRIDE_ERR_RATE, ''CPE464_OVERRIDE_ERR_RATE'', EDT_FLOAT) \<in> set g_EnvKeys"
  "(EDK_OVERRIDE_ERR_DROP, ''CPE464_OVERRIDE_ERR_DROP'', EDT_LIST_LONG) \<in> set g_EnvKeys"
  "(EDK_OVERRIDE_ERR_FLIP, ''CPE464_OVERRIDE_ERR_FLIP'', EDT_LIST_LONG) \<in> set g_EnvKeys"
  by (simp_all add: g_EnvKeys_def)

lemma entries_loaded:
  assumes "m_EnvData l = Map.empty" and l': "l' = loadEnvData getenv memory l"
  shows "isSet (env_entry EDK_OVERRIDE_SEEDRAND l') \<longleftrightarrow> env_seed getenv \<noteq> None"
    "isSet (env_entry EDK_OVERRIDE_ERR_RATE l') \<longleftrightarrow> env_rate getenv \<noteq> None"
    "isSet (env_entry EDK_OVERRIDE_ERR_DROP l') \<longleftrightarrow> env_drop getenv \<noteq> None"
    "isSet (env_entry EDK_OVERRIDE_ERR_FLIP l') \<longleftrightarrow> env_flip getenv \<noteq> None"
    "env_seed getenv = Some v \<Longrightarrow> long_of (env_entry EDK_OVERRIDE_SEEDRAND l') = v"
    "env_rate getenv = Some x \<Longrightarrow> float_of (env_entry EDK_OVERRIDE_ERR_RATE l') = x"
    "env_drop getenv = Some ns \<Longrightarrow> parserLong2Uint32 (lLong (env_entry EDK_OVERRIDE_ERR_DROP l')) = ns"
    "env_flip getenv = Some ns \<Longrightarrow> parserLong2Uint32 (lLong (env_entry EDK_OVERRIDE_ERR_FLIP l')) = ns"
proof -
  note simps = l' new_entry_def load_value_def bind_eq_Some_conv
  note entry = loadEnvData_entry [OF _ fun_cong [OF assms(1), simplified], of _ _ _ getenv memory]
  show "isSet (env_entry EDK_OVERRIDE_SEEDRAND l') \<longleftrightarrow> env_seed getenv \<noteq> None"
    unfolding env_seed_def by (simp add: simps entry [OF key_in(1)] split: option.split)
  show "isSet (env_entry EDK_OVERRIDE_ERR_RATE l') \<longleftrightarrow> env_rate getenv \<noteq> None"
    unfolding env_rate_def by (simp add: simps entry [OF key_in(2)] split: option.split)
  show "isSet (env_entry EDK_OVERRIDE_ERR_DROP l') \<longleftrightarrow> env_drop getenv \<noteq> None"
    unfolding env_list_def by (auto simp: simps entry [OF key_in(3)] dest: parser2ListLong_count split: option.splits prod.splits)
  show "isSet (env_entry EDK_OVERRIDE_ERR_FLIP l') \<longleftrightarrow> env_flip getenv \<noteq> None"
    unfolding env_list_def by (auto simp: simps entry [OF key_in(4)] dest: parser2ListLong_count split: option.splits prod.splits)
  show "env_seed getenv = Some v \<Longrightarrow> long_of (env_entry EDK_OVERRIDE_SEEDRAND l') = v"
    unfolding env_seed_def by (auto simp: simps long_of_def entry [OF key_in(1)])
  show "env_rate getenv = Some x \<Longrightarrow> float_of (env_entry EDK_OVERRIDE_ERR_RATE l') = x"
    unfolding env_rate_def by (auto simp: simps float_of_def entry [OF key_in(2)])
  show "env_drop getenv = Some ns \<Longrightarrow> parserLong2Uint32 (lLong (env_entry EDK_OVERRIDE_ERR_DROP l')) = ns"
    unfolding env_list_def by (auto simp: simps entry [OF key_in(3)] dest: parser2ListLong_count split: prod.splits)
  show "env_flip getenv = Some ns \<Longrightarrow> parserLong2Uint32 (lLong (env_entry EDK_OVERRIDE_ERR_FLIP l')) = ns"
    unfolding env_list_def by (auto simp: simps entry [OF key_in(4)] dest: parser2ListLong_count split: prod.splits)
qed

end
