(* ===== verification/Hooks.thy ===== *)
theory Hooks
  imports Settings Networks
begin

text \<open>
  \<open>network-hooks.c\<close>: the functions that stand in for \<open>fork\<close>, \<open>socket\<close>, \<open>bind\<close>, \<open>select\<close> and the
  transfer calls, and \<open>sendErr_init\<close>, with which the two programs turn the error injection on.
\<close>

section \<open>Start-up\<close>

text \<open>The globals of the library when the program starts, at the time \<open>now\<close>.\<close>

definition library_boot :: "environment \<Rightarrow> nat \<Rightarrow> int \<Rightarrow> library" where
  "library_boot getenv memory now =
     SettingsManager getenv memory
       \<lparr>pktMgr = g_PktMgr now, m_EnvData = Map.empty, g_dbg_print_level = 3, socketType = 0,
        nextSeed = 10, childProcess = 0, s_hasOverridden = False\<rparr>"

text \<open>\<open>now\<close> and \<open>now'\<close> are what the two calls of \<open>time\<close> return.\<close>

definition sendErr_init ::
  "cfloat \<Rightarrow> bool \<Rightarrow> bool \<Rightarrow> int \<Rightarrow> bool \<Rightarrow> int \<Rightarrow> int \<Rightarrow> library \<Rightarrow> library" where
  "sendErr_init error_rate drop_flag flip_flag debug_flag random_flag now now' l =
     (let l = l\<lparr>pktMgr := snd (addMsgEvent_Standard (Some new_infoSeqNo) (pktMgr l))\<rparr>;
          l = snd (setUserMode_ErrRate (narrow error_rate) l);
          l = snd (setUserMode_ErrDrop drop_flag l);
          l = snd (setUserMode_ErrFlip flip_flag l);
          l = snd (setUserMode_SeedRand (if random_flag then now else nextSeed l) l);
          l = l\<lparr>nextSeed := (if random_flag then wrap32 now' else nextSeed l + 1)\<rparr>
      in snd (setUserMode_Debug debug_flag l))"

section \<open>The wrapped calls\<close>

text \<open>
  \<open>returnValue\<close> is what \<open>fork\<close> returns in the process the result describes. \<open>nextSeed\<close> counts as an
  integer: it starts at 10, and the \<open>int\<close> of the code would overflow only after \<open>2 ^ 31\<close> forks.
\<close>

definition forkMod :: "int \<Rightarrow> library \<Rightarrow> int \<times> library" where
  "forkMod returnValue l =
     (let tempNextSeed = nextSeed l; l = l\<lparr>nextSeed := nextSeed l + 1\<rparr> in
      if returnValue = 0 then (returnValue, (snd (setUserMode_SeedRand tempNextSeed l))\<lparr>childProcess := 1\<rparr>)
      else (returnValue, l))"

definition socketMod :: "int \<Rightarrow> int \<Rightarrow> int \<Rightarrow> (int \<Rightarrow> int \<Rightarrow> int \<Rightarrow> int) \<Rightarrow> library \<Rightarrow> int \<times> library" where
  "socketMod domain type protocol socket l = (socket domain type protocol, l\<lparr>socketType := type\<rparr>)"

text \<open>
  \<open>bind\<close> is the kernel's call. The two branches write the same field: \<open>sin_port\<close> and
  \<open>sin6_port\<close> stand at the same place. What is read back afterwards is only printed.
\<close>

definition bindMod :: "environment \<Rightarrow> (sockaddr_in6 \<Rightarrow> int) \<Rightarrow> sockaddr_in6 \<Rightarrow> library \<Rightarrow> int \<times> sockaddr_in6 \<times> library" where
  "bindMod getenv bind addr l =
     (case getenv ''CPE464_OVERRIDE_PORT'' of
        Some env_port \<Rightarrow>
          if \<not> s_hasOverridden l then
            let port = wrap32 (atol env_port); addr = addr\<lparr>sin6_port := htons (word_of_int port)\<rparr> in
            (bind addr, addr, l\<lparr>s_hasOverridden := True\<rparr>)
          else (bind addr, addr, l)
      | None \<Rightarrow> (bind addr, addr, l))"

text \<open>The notes \<open>selectMod\<close> prints; it returns what \<open>select\<close> returned.\<close>

datatype select_note = NullTime | NonStandardTime int int | InChild | TimedOut int int

definition selectMod :: "(int \<times> int) option \<Rightarrow> int \<Rightarrow> library \<Rightarrow> int \<times> select_note list" where
  "selectMod timeout nResult l =
     (nResult,
      (case timeout of
         None \<Rightarrow> [NullTime]
       | Some (tv_sec, tv_usec) \<Rightarrow>
           if (tv_sec \<noteq> 0 \<and> tv_sec \<noteq> 1 \<and> tv_sec \<noteq> 10) \<or> tv_usec \<noteq> 0
           then [NonStandardTime tv_sec tv_usec] else []) @
      (case timeout of
         None \<Rightarrow> []
       | Some (tv_sec, tv_usec) \<Rightarrow>
           if nResult = 0 \<and> (tv_sec \<noteq> 0 \<or> tv_usec \<noteq> 0)
           then (if childProcess l = 1 then [InChild] else []) @ [TimedOut tv_sec tv_usec] else []))"

definition sendtoErr :: "byte list \<Rightarrow> library \<Rightarrow> halt + (byte list option \<times> library)" where
  "sendtoErr msg l = map_sum id (\<lambda>(sent, m). (sent, l\<lparr>pktMgr := m\<rparr>)) (sendto_Err msg (pktMgr l))"

definition sendErr ::
  "(byte list \<Rightarrow> int) \<Rightarrow> byte list \<Rightarrow> library \<Rightarrow> halt + (int \<times> byte list option \<times> library)" where
  "sendErr send msg l = map_sum id (\<lambda>(n, given, m). (n, given, l\<lparr>pktMgr := m\<rparr>)) (send_Err send msg (pktMgr l))"

definition recvErr :: "byte list \<Rightarrow> int \<Rightarrow> int \<times> recv_line" where
  "recvErr buf ret = recv_Mod buf ret"

definition recvfromErr :: "byte list \<Rightarrow> int \<Rightarrow> int \<times> recv_line" where
  "recvfromErr buf ret = recvfrom_Mod buf ret"

section \<open>The configuration of the error injection\<close>

text \<open>The events that the environment asks for.\<close>

definition env_constant :: "environment \<Rightarrow> IMsgEvent list" where
  "env_constant getenv = (case env_drop getenv of Some (n # ns) \<Rightarrow> [ErrorDrop False (n # ns)] | _ \<Rightarrow> [])"

definition env_chance :: "environment \<Rightarrow> IMsgEvent list" where
  "env_chance getenv = (if env_drop getenv = Some [] then [new_errorDrop] else [])
     @ (if env_flip getenv = Some [] then [ErrorFlipBits] else [])"

definition boot_manager :: "environment \<Rightarrow> int \<Rightarrow> PacketManager" where
  "boot_manager getenv now = \<lparr>m_ErrorRate = (case env_rate getenv of None \<Rightarrow> Num 0 | Some r \<Rightarrow> r), m_MsgNo = 0,
     m_ErrorCase_Constant = env_constant getenv, m_ErrorCase_Chance = env_chance getenv,
     rand = srand48 (case env_seed getenv of None \<Rightarrow> now | Some v \<Rightarrow> v)\<rparr>"

text \<open>What the constructor leaves behind.\<close>

definition configured :: "environment \<Rightarrow> PacketManager \<Rightarrow> library \<Rightarrow> bool" where
  "configured getenv m l \<longleftrightarrow> pktMgr l = m
     \<and> (isSet (env_entry EDK_OVERRIDE_SEEDRAND l) \<longleftrightarrow> env_seed getenv \<noteq> None)
     \<and> (isSet (env_entry EDK_OVERRIDE_ERR_RATE l) \<longleftrightarrow> env_rate getenv \<noteq> None)
     \<and> (isSet (env_entry EDK_OVERRIDE_ERR_DROP l) \<longleftrightarrow> env_drop getenv \<noteq> None)
     \<and> (isSet (env_entry EDK_OVERRIDE_ERR_FLIP l) \<longleftrightarrow> env_flip getenv \<noteq> None)"

lemma library_boot_configured:
  "configured getenv (boot_manager getenv now) (library_boot getenv memory now) \<and> nextSeed (library_boot getenv memory now) = 10"
proof -
  let ?l0 = "dbg_setlevel 0 \<lparr>pktMgr = g_PktMgr now, m_EnvData = Map.empty, g_dbg_print_level = 3, socketType = 0,
        nextSeed = 10, childProcess = 0, s_hasOverridden = False\<rparr>"
  define l where "l = loadEnvData getenv memory ?l0"
  have "m_EnvData ?l0 = Map.empty" by (simp add: dbg_setlevel_def)
  note loaded = entries_loaded [OF this l_def]
  have pm: "pktMgr l = g_PktMgr now" "nextSeed l = 10"
    by (simp_all add: l_def loadEnvData_def loadEnvKeys_globals dbg_setlevel_def)
  have same [simp]: "env_entry k (l\<lparr>pktMgr := m\<rparr>) = env_entry k l" "env_entry k (l\<lparr>g_dbg_print_level := n\<rparr>) = env_entry k l"
    "env_entry k (l\<lparr>g_dbg_print_level := n, pktMgr := m\<rparr>) = env_entry k l" for k m n
    by (simp_all add: env_entry_def)
  define lv where "lv = (let e = env_entry EDK_OVERRIDE_DEBUG l in if isSet e then wrap32 (long_of e) else g_dbg_print_level l)"
  have debug: "loadEnvData_Debug l = l\<lparr>g_dbg_print_level := lv\<rparr>"
    by (simp add: loadEnvData_Debug_def lv_def dbg_setlevel_def Let_def)
  let ?m1 = "(g_PktMgr now)\<lparr>rand := srand48 (case env_seed getenv of None \<Rightarrow> now | Some v \<Rightarrow> v)\<rparr>"
  let ?m2 = "?m1\<lparr>m_ErrorRate := (case env_rate getenv of None \<Rightarrow> Num 0 | Some r \<Rightarrow> r)\<rparr>"
  let ?m3 = "?m2\<lparr>m_ErrorCase_Constant := env_constant getenv,
    m_ErrorCase_Chance := (if env_drop getenv = Some [] then [new_errorDrop] else [])\<rparr>"
  have 1: "loadEnvData_SeedRand (l\<lparr>g_dbg_print_level := lv\<rparr>) = l\<lparr>g_dbg_print_level := lv, pktMgr := ?m1\<rparr>"
    using loaded(1,5) pm by (cases "env_seed getenv") (auto simp: loadEnvData_SeedRand_def setRandSeed_def g_PktMgr_def Let_def)
  have 2: "loadEnvData_ErrRate (l\<lparr>g_dbg_print_level := lv, pktMgr := ?m1\<rparr>) = l\<lparr>g_dbg_print_level := lv, pktMgr := ?m2\<rparr>"
    using loaded(2,6) by (cases "env_rate getenv") (auto simp: loadEnvData_ErrRate_def setErrorRate_def g_PktMgr_def Let_def)
  have 3: "loadEnvData_ErrDrop (l\<lparr>g_dbg_print_level := lv, pktMgr := ?m2\<rparr>) = l\<lparr>g_dbg_print_level := lv, pktMgr := ?m3\<rparr>"
    using loaded(3,7)
    by (cases "env_drop getenv") (auto simp: loadEnvData_ErrDrop_def addMsgEvent_Random_def addMsgEvent_Standard_def
      g_PktMgr_def env_constant_def new_errorDrop_def Let_def split: list.split)
  have 4: "snd (loadEnvData_ErrFlip (l\<lparr>g_dbg_print_level := lv, pktMgr := ?m3\<rparr>)) = l\<lparr>g_dbg_print_level := lv, pktMgr := boot_manager getenv now\<rparr>"
    using loaded(4,8)
    by (cases "env_flip getenv") (auto simp: loadEnvData_ErrFlip_def addMsgEvent_Random_def g_PktMgr_def boot_manager_def env_chance_def Let_def)
  have "library_boot getenv memory now = l\<lparr>g_dbg_print_level := lv, pktMgr := boot_manager getenv now\<rparr>"
    unfolding library_boot_def SettingsManager_def Let_def loadEnvData_Port_def loadEnvData_Autograder_def
      l_def [symmetric] debug 1 2 3 4 ..
  then show ?thesis using loaded(1-4) pm by (simp add: configured_def)
qed

text \<open>The chance events the program adds, unless the environment has a say in them.\<close>

definition user_chance :: "bool \<Rightarrow> bool \<Rightarrow> environment \<Rightarrow> IMsgEvent list" where
  "user_chance drop_flag flip_flag getenv =
     (if drop_flag \<and> env_drop getenv = None then [new_errorDrop] else [])
     @ (if flip_flag \<and> env_flip getenv = None then [ErrorFlipBits] else [])"

lemma env_entry_updates [simp]:
  "env_entry k (l\<lparr>pktMgr := m\<rparr>) = env_entry k l" "env_entry k (l\<lparr>nextSeed := n\<rparr>) = env_entry k l"
  "env_entry k (l\<lparr>childProcess := n\<rparr>) = env_entry k l"
  by (simp_all add: env_entry_def)

lemma pktMgr_setUserMode_Debug [simp]: "pktMgr (snd (setUserMode_Debug n l)) = pktMgr l"
  by (simp add: setUserMode_Debug_def dbg_setlevel_def)

lemma setUserMode_configured:
  assumes "configured getenv m l"
  shows "snd (setUserMode_ErrRate x l) = l\<lparr>pktMgr := (if env_rate getenv = None then m\<lparr>m_ErrorRate := x\<rparr> else m)\<rparr>"
    "snd (setUserMode_ErrDrop d l) = l\<lparr>pktMgr := m\<lparr>m_ErrorCase_Chance := m_ErrorCase_Chance m
       @ (if d \<and> env_drop getenv = None then [new_errorDrop] else [])\<rparr>\<rparr>"
    "snd (setUserMode_ErrFlip f l) = l\<lparr>pktMgr := m\<lparr>m_ErrorCase_Chance := m_ErrorCase_Chance m
       @ (if f \<and> env_flip getenv = None then [ErrorFlipBits] else [])\<rparr>\<rparr>"
    "snd (setUserMode_SeedRand v l) = l\<lparr>pktMgr := (if env_seed getenv = None then m\<lparr>rand := srand48 v\<rparr> else m)\<rparr>"
  using assms
  by (auto simp: configured_def setUserMode_ErrRate_def setUserMode_ErrDrop_def setUserMode_ErrFlip_def
      setUserMode_SeedRand_def setErrorRate_def setRandSeed_def addMsgEvent_Random_def)

lemma configured_pktMgr: "configured getenv m l \<Longrightarrow> configured getenv m' (l\<lparr>pktMgr := m'\<rparr>)"
  by (simp add: configured_def)

lemma sendErr_init_configured:
  assumes "configured getenv m l"
  shows "pktMgr (sendErr_init error_rate drop_flag flip_flag debug_flag random_flag now now' l) =
    m\<lparr>m_ErrorRate := (if env_rate getenv = None then narrow error_rate else m_ErrorRate m),
      m_ErrorCase_Constant := m_ErrorCase_Constant m @ [new_infoSeqNo],
      m_ErrorCase_Chance := m_ErrorCase_Chance m @ user_chance drop_flag flip_flag getenv,
      rand := (if env_seed getenv = None then srand48 (if random_flag then now else nextSeed l) else rand m)\<rparr>"
proof -
  let ?m1 = "m\<lparr>m_ErrorCase_Constant := m_ErrorCase_Constant m @ [new_infoSeqNo]\<rparr>"
  let ?m2 = "if env_rate getenv = None then ?m1\<lparr>m_ErrorRate := narrow error_rate\<rparr> else ?m1"
  let ?m3 = "?m2\<lparr>m_ErrorCase_Chance := m_ErrorCase_Chance ?m2 @ (if drop_flag \<and> env_drop getenv = None then [new_errorDrop] else [])\<rparr>"
  let ?m4 = "?m3\<lparr>m_ErrorCase_Chance := m_ErrorCase_Chance ?m3 @ (if flip_flag \<and> env_flip getenv = None then [ErrorFlipBits] else [])\<rparr>"
  have pm: "snd (addMsgEvent_Standard (Some new_infoSeqNo) (pktMgr l)) = ?m1"
    using assms by (simp add: configured_def addMsgEvent_Standard_def)
  note c = configured_pktMgr [OF assms]
  show ?thesis
    unfolding sendErr_init_def Let_def pm setUserMode_configured [OF c [of ?m1]]
      library.update_convs(1) library.simps
    by (simp add: setUserMode_configured [OF c] user_chance_def)
qed

text \<open>
  C36. What the error injection is set to after the constructors and \<open>sendErr_init\<close>:
  every variable of the environment that can be read overrides the argument it belongs to, a list
  of packets to drop is a constant event before the journal, the other events are chance events,
  and the generator starts at the seed of the environment or at the time.
\<close>

theorem sendErr_configuration:
  "pktMgr (sendErr_init error_rate drop_flag flip_flag debug_flag random_flag now now' (library_boot getenv memory start)) =
    \<lparr>m_ErrorRate = (case env_rate getenv of None \<Rightarrow> narrow error_rate | Some r \<Rightarrow> r), m_MsgNo = 0,
     m_ErrorCase_Constant = env_constant getenv @ [new_infoSeqNo],
     m_ErrorCase_Chance = env_chance getenv @ user_chance drop_flag flip_flag getenv,
     rand = srand48 (case env_seed getenv of None \<Rightarrow> if random_flag then now else 10 | Some v \<Rightarrow> v)\<rparr>"
proof -
  have c: "configured getenv (boot_manager getenv start) (library_boot getenv memory start)"
    "nextSeed (library_boot getenv memory start) = 10"
    using library_boot_configured by blast+
  show ?thesis
    unfolding sendErr_init_configured [OF c(1)] c(2)
    by (simp add: boot_manager_def split: option.split)
qed

text \<open>The variables are all unset; the program asks for both kinds of errors.\<close>

lemma default_configuration:
  "pktMgr (sendErr_init error_rate True True debug_flag True now now' (library_boot (\<lambda>_. None) memory start)) =
    \<lparr>m_ErrorRate = narrow error_rate, m_MsgNo = 0, m_ErrorCase_Constant = [new_infoSeqNo],
     m_ErrorCase_Chance = [new_errorDrop, ErrorFlipBits], rand = srand48 now\<rparr>"
proof -
  have c: "configured (\<lambda>_. None) (boot_manager (\<lambda>_. None) start) (library_boot (\<lambda>_. None) memory start)"
    using library_boot_configured by blast
  have none: "env_seed (\<lambda>_. None) = None" "env_rate (\<lambda>_. None) = None" "env_list n (\<lambda>_. None) = None" for n
    by (simp_all add: env_seed_def env_rate_def env_list_def)
  show ?thesis
    unfolding sendErr_init_configured [OF c]
    by (simp add: none boot_manager_def env_constant_def env_chance_def user_chance_def)
qed

section \<open>The injection is harmless\<close>

lemma forkMod_configured:
  assumes "configured getenv m l"
  shows "\<exists>r. configured getenv (m\<lparr>rand := r\<rparr>) (snd (forkMod pid l))"
proof -
  let ?l = "l\<lparr>nextSeed := nextSeed l + 1\<rparr>"
  have c: "configured getenv m ?l" using assms by (simp add: configured_def)
  have "configured getenv (m\<lparr>rand := rand m\<rparr>) ?l" using c by simp
  moreover have "configured getenv (if env_seed getenv = None then m\<lparr>rand := srand48 (nextSeed l)\<rparr> else m)
      ((snd (setUserMode_SeedRand (nextSeed l) ?l))\<lparr>childProcess := 1\<rparr>)"
    using c by (simp add: setUserMode_configured(4) [OF c]) (simp add: configured_def)
  ultimately show ?thesis
    by (cases "pid = 0"; cases "env_seed getenv = None") (auto simp: forkMod_def Let_def intro: exI [of _ "rand m"])
qed

text \<open>
  The library of a process before \<open>sendErr_init\<close>, after any number of forks; \<open>pids\<close> is what they
  returned to it, 0 where it is the child.
\<close>

definition after_forks :: "int list \<Rightarrow> library \<Rightarrow> library" where
  "after_forks pids l = fold (\<lambda>pid l. snd (forkMod pid l)) pids l"

definition started :: "environment \<Rightarrow> library \<Rightarrow> bool" where
  "started getenv l \<longleftrightarrow> (\<exists>memory now pids. l = after_forks pids (library_boot getenv memory now))"

lemma after_forks_configured:
  "configured getenv m l \<Longrightarrow> \<exists>r. configured getenv (m\<lparr>rand := r\<rparr>) (after_forks pids l)"
proof (induction pids arbitrary: m l)
  case Nil
  then have "configured getenv (m\<lparr>rand := rand m\<rparr>) (after_forks [] l)" by (simp add: after_forks_def)
  then show ?case by blast
next
  case (Cons pid pids)
  obtain r where "configured getenv (m\<lparr>rand := r\<rparr>) (snd (forkMod pid l))" using forkMod_configured [OF Cons.prems] by blast
  from Cons.IH [OF this] obtain r' where "configured getenv (m\<lparr>rand := r, rand := r'\<rparr>) (after_forks pids (snd (forkMod pid l)))"
    by blast
  then have "configured getenv (m\<lparr>rand := r'\<rparr>) (after_forks (pid # pids) l)" by (simp add: after_forks_def)
  then show ?case by blast
qed

lemma started_configured:
  assumes "started getenv l"
  shows "\<exists>m. configured getenv m l \<and> m_ErrorCase_Constant m = env_constant getenv \<and> m_ErrorCase_Chance m = env_chance getenv
    \<and> m_ErrorRate m = (case env_rate getenv of None \<Rightarrow> Num 0 | Some r \<Rightarrow> r) \<and> m_MsgNo m = 0"
proof -
  obtain memory now pids where l: "l = after_forks pids (library_boot getenv memory now)"
    using assms by (auto simp: started_def)
  have "configured getenv (boot_manager getenv now) (library_boot getenv memory now)"
    using library_boot_configured by blast
  then obtain r where "configured getenv ((boot_manager getenv now)\<lparr>rand := r\<rparr>) l"
    using after_forks_configured l by blast
  then show ?thesis by (intro exI [of _ "(boot_manager getenv now)\<lparr>rand := r\<rparr>"]) (simp add: boot_manager_def)
qed

lemma started_boot: "started getenv (library_boot getenv memory now)"
  unfolding started_def by (intro exI [of _ memory] exI [of _ now] exI [of _ "[]"]) (simp add: after_forks_def)

lemma after_forks_snoc: "snd (forkMod pid (after_forks pids l)) = after_forks (pids @ [pid]) l"
  by (simp add: after_forks_def)

lemma started_fork: "started getenv l \<Longrightarrow> started getenv (snd (forkMod pid l))"
  unfolding started_def by (elim exE, simp only: after_forks_snoc) blast

lemma started_pm_ok:
  assumes "started getenv l"
  shows "pm_ok (pktMgr (sendErr_init error_rate drop_flag flip_flag debug_flag random_flag now now' l))"
proof -
  obtain m where "configured getenv m l" "m_ErrorCase_Constant m = env_constant getenv"
    using started_configured [OF assms] by blast
  then show ?thesis
    by (auto simp: sendErr_init_configured pm_ok_def env_constant_def new_infoSeqNo_def split: option.splits list.splits)
qed

text \<open>
  C37. Whatever the environment and the arguments of \<open>sendErr_init\<close> set, and after
  any number of forks, every packet with a good checksum of a sequence of sends is lost, delivered
  as it is, or damaged in a way that the checksum shows: what the receiver accepts is a
  subsequence of what was sent.
\<close>

theorem injection_is_harmless:
  assumes "started getenv l" "\<forall>d \<in> set bufs. good d"
  shows "\<exists>rs m'. send_all sendto_Err bufs
      (pktMgr (sendErr_init error_rate drop_flag flip_flag debug_flag random_flag now now' l)) = Inr (rs, m')
    \<and> list_all2 arrives bufs rs \<and> subseq (accepted rs) bufs"
  by (rule injection.receiver_sees_subseq [OF started_pm_ok [OF assms(1)] assms(2)])

text \<open>Every second packet is damaged or lost; the packets are their own checksums.\<close>

theorem injection_is_harmless_witness:
  "\<exists>rs m'. send_all sendto_Err [[255, 255], [254, 255, 1, 0]]
      (pktMgr (sendErr_init (Num (1 / 2)) True True 1 True 7 7 (library_boot (\<lambda>_. None) 0 3))) = Inr (rs, m')
    \<and> list_all2 arrives [[255, 255], [254, 255, 1, 0]] rs \<and> subseq (accepted rs) [[255, 255], [254, 255, 1, 0]]"
proof (rule injection_is_harmless [OF started_boot])
  have "in_cksum [255, 255] = 0" "in_cksum [254, 255, 1, 0] = 0" by code_simp+
  then show "\<forall>d \<in> set [[255, 255], [254, 255, 1, 0]]. good d" by (simp add: good_def)
qed

section \<open>A rate of zero\<close>

text \<open>
  The test is \<open>randNum <= m_ErrorRate\<close>, and a draw can be zero: this state of the generator is
  followed by one.
\<close>

lemma zero_draw: "drand48 107048004364969 = (0, 0)"
  by (simp add: drand48_def Let_def)

text \<open>
  C38. An error rate of zero does not turn the injection off: the test is \<open><=\<close>, and a
  draw of zero, which the generator can give, drops the packet.
\<close>

theorem zero_rate_can_drop:
  assumes "buf \<noteq> []" "m_ErrorRate m = Num 0" "m_ErrorCase_Chance m = [new_errorDrop]" "m_ErrorCase_Constant m = []"
    and "rand m = 107048004364969"
  shows "\<exists>m'. sendto_Err buf m = Inr (None, m')"
proof -
  obtain x r where d: "drand48 0 = (x, r)" by fastforce
  have "scaled 1 x = 0" using scaled_less [OF _ drand48_bound [OF d], of 1] by simp
  then show ?thesis
    using assms d zero_draw
    by (auto simp: sendto_Err_def processEvents_def new_errorDrop_def errorDrop_run_def to_float_def round_to_def Let_def)
qed

theorem zero_rate_can_drop_witness:
  "\<exists>m'. sendto_Err [1, 2, 3] ((g_PktMgr 0)\<lparr>m_ErrorCase_Chance := [new_errorDrop], rand := 107048004364969\<rparr>) = Inr (None, m')"
  by (rule zero_rate_can_drop) (simp_all add: g_PktMgr_def)

end
