(* ===== verification/Server.thy ===== *)
theory Server
  imports PduHelpers SlidingWindow Hooks
begin

text \<open>
  The server, \<open>src/server.c\<close>: the state machine of the child that serves one client, with one
  definition per state handler. \<open>sendData\<close> is cut at its two loops; their bodies have names of
  their own because the process blocks in them.
\<close>

section \<open>State\<close>

datatype server_STATE = START | DONE_SERVER | PROCESS_FILENAME | WAIT_ON_FILENAME_OK_ACK
  | SEND_DATA | SEND_EOF | RECV_POSSIBLE_EOF_ACK

datatype POLL_STATUS = RESPONSE_RECV | CONTINUE | RESEND_LOWEST | QUIT

text \<open>
  \<open>fileLeft\<close> is the open file from its current offset on, \<open>read_errs\<close> says which of the coming
  reads fail, and \<open>open_file\<close> gives the descriptor \<open>open\<close> returns for a name and the content. \<open>lastDataSeqNum\<close> is a local
  variable of \<open>sendData\<close> that is set at the end of the file and holds junk before.
\<close>

record server = proc +
  clientConn :: Connection
  win :: send_window
  serverSeqNum :: u32
  srvBufferSize :: u32
  srvWindowSize :: u32
  dataFile :: int
  fileLeft :: "byte list"
  read_errs :: "bool list"
  atEOF :: bool
  waitingForLastRR :: bool
  lastDataSeqNum :: u32
  eof_tryCount :: int
  open_file :: "byte list \<Rightarrow> int \<times> byte list"

section \<open>The file name\<close>

text \<open>
  \<open>pdu\<close> is the receive buffer of \<open>processServer\<close>, \<open>pduLen\<close> the length of the datagram with
  its header. The length of the copied name is computed from \<open>pduLen\<close> without the header.
\<close>

definition processFilename :: "byte list \<Rightarrow> int \<Rightarrow> server \<Rightarrow> (server, server_STATE) outcome" where
  "processFilename payload pduLen s =
     (let s = s\<lparr>srvBufferSize := ntohl (word32 (take 4 payload))\<rparr>;
          s = s\<lparr>srvWindowSize := ntohl (word32 (take 4 (drop SIZE_OF_BUFFER_SIZE payload)))\<rparr> in
      bindO (setupWindow (s32 (srvWindowSize s)) s) (\<lambda>w s.
      let s = s\<lparr>win := w\<rparr>;
          len = pduLen - int SIZE_OF_BUFFER_SIZE - int SIZE_OF_WINDOW_SIZE in
      bindO (liftO (memcpy (replicate (MAX_FILENAME_LENGTH + 1) 0) 0
               (drop (SIZE_OF_BUFFER_SIZE + SIZE_OF_WINDOW_SIZE) payload) len) s) (\<lambda>filename s.
      bindO (safeGetUdpSocket s) (\<lambda>sock s.
      let s = s\<lparr>clientConn := (clientConn s)\<lparr>socketNum := sock\<rparr>, udp_sock := sock\<rparr> in
      bindO (addToPollSet sock s) (\<lambda>_ s.
      bindO (liftO (c_string (take (nat len) filename)) s) (\<lambda>name s.
      case open_file s name of (fd, content) \<Rightarrow>
        if fd < 0 then
          bindO (sendPDU (clientConn s) [flag_code FNAME_BAD] 1 (flag_code FNAME_STATUS) SETUP_SEQ_NUM
                   (s\<lparr>dataFile := fd\<rparr>)) (\<lambda>_. Ret DONE_SERVER)
        else
          bindO (sendPDU (clientConn s) [flag_code FNAME_OK] 1 (flag_code FNAME_STATUS) SETUP_SEQ_NUM
                   (s\<lparr>dataFile := fd, fileLeft := content\<rparr>))
            (\<lambda>_. Ret WAIT_ON_FILENAME_OK_ACK)))))))"

text \<open>Nothing of the received PDU is looked at.\<close>

definition server_filenameOk :: "server \<Rightarrow> (server, server_STATE) outcome" where
  "server_filenameOk s =
     bindO (pollCall LONG_TIME s) (\<lambda>v s.
     if v = - 1 then Ret DONE_SERVER s
     else bindO (retrievePDU (clientConn s) (replicate MAX_PAYLOAD_SIZE 0) s)
            (\<lambda>(conn, flag, clientSeqNum, checksumResult, payload, payloadSize) s.
               Ret SEND_DATA (s\<lparr>clientConn := conn\<rparr>)))"

section \<open>Responses of the client\<close>

text \<open>The result is what \<open>*waitingForLastRR\<close> holds afterwards.\<close>

definition processResponse :: "bool \<Rightarrow> u32 \<Rightarrow> server \<Rightarrow> (server, bool) outcome" where
  "processResponse waiting lastSeqNum s =
     bindO (retrievePDU (clientConn s) (replicate MAX_PAYLOAD_SIZE 0) s)
       (\<lambda>(conn, flag, clientSeqNum, checksumResult, payload, payloadSize) s.
     let s = s\<lparr>clientConn := conn\<rparr>; targetSeqNum = ntohl (word32 (take 4 payload)) in
     if checksumResult = CRC_ERROR then Ret waiting s
     else if flag = flag_code SREJ then
       bindO (liftO (getDataFromWindow targetSeqNum (replicate MAX_PAYLOAD_SIZE 0) (win s)) s)
         (\<lambda>(data, dataLen) s.
       bindO (sendPDU (clientConn s) data dataLen (flag_code RESENT_DATA_SREJ) targetSeqNum s)
         (\<lambda>_. Ret waiting))
     else if flag = flag_code RR then
       Ret (if targetSeqNum - 1 = lastSeqNum then False else waiting)
         (s\<lparr>win := updateLower targetSeqNum (win s)\<rparr>)
     else if flag = flag_code EOF_ACK then Stop (Exit 0) s
     else Ret waiting s)"

definition respond :: "server \<Rightarrow> (server, unit) outcome" where
  "respond s =
     bindO (processResponse (waitingForLastRR s) (lastDataSeqNum s) s)
       (\<lambda>waiting s. Ret () (s\<lparr>waitingForLastRR := waiting\<rparr>))"

section \<open>Sending the file\<close>

text \<open>
  \<open>read\<close> of a regular file into \<open>payload\<close>: as many bytes as asked for and left, none at the
  end; the count is the \<open>int\<close> as a \<open>size_t\<close>. More than the array holds is an overflow.
\<close>

definition read_file :: "server \<Rightarrow> (server, int \<times> byte list) outcome" where
  "read_file s =
     (case read_errs s of
        True # es \<Rightarrow> Ret (- 1, []) (s\<lparr>read_errs := es\<rparr>)
      | _ \<Rightarrow>
        let count = s32 (srvBufferSize s);
            n = (if count < 0 then length (fileLeft s) else min (nat count) (length (fileLeft s)));
            s' = s\<lparr>read_errs := drop 1 (read_errs s), fileLeft := drop n (fileLeft s)\<rparr> in
        if MAX_PAYLOAD_SIZE < n then Stop (Fault OutOfBounds) s'
        else Ret (int n, take n (fileLeft s)) s')"

text \<open>
  The first half of the body of the first loop: read and, unless it is the end, send. The
  result says whether the function returns.
\<close>

definition fill_send :: "server \<Rightarrow> (server, bool) outcome" where
  "fill_send s =
     bindO (read_file s) (\<lambda>(lenRead, bytes) s.
     if lenRead = 0 then Ret False (s\<lparr>atEOF := True, lastDataSeqNum := serverSeqNum s - 1\<rparr>)
     else if lenRead = - 1 then Ret True s
     else
       let payload = bytes @ replicate (MAX_PAYLOAD_SIZE - length bytes) 0 in
       bindO (liftO (addDataToWindow (serverSeqNum s) payload lenRead (win s)) s) (\<lambda>w s.
       bindO (sendPDU (clientConn s) payload lenRead (flag_code DATA) (serverSeqNum s) (s\<lparr>win := w\<rparr>))
         (\<lambda>_ s. Ret False (s\<lparr>serverSeqNum := serverSeqNum s + 1\<rparr>))))"

text \<open>The second half: a response that is already there.\<close>

definition fill_poll :: "server \<Rightarrow> (server, unit) outcome" where
  "fill_poll s =
     bindO (pollCall 0 s) (\<lambda>v s. if v \<noteq> - 1 then respond s else Ret () s)"

definition eof_check :: "server \<Rightarrow> (server, unit) outcome" where
  "eof_check s =
     (if atEOF s then
        bindO (liftO (getLowestSeqNum (win s)) s) (\<lambda>lowest s.
          if lastDataSeqNum s + 1 \<noteq> lowest then Ret () (s\<lparr>waitingForLastRR := True\<rparr>) else Ret () s)
      else Ret () s)"

text \<open>The body of the second loop: the new try count, \<open>None\<close> when it gives up.\<close>

definition wait_body :: "int \<Rightarrow> server \<Rightarrow> (server, int option) outcome" where
  "wait_body tryCount s =
     bindO (processPoll tryCount SHORT_TIME 10 RESEND_LOWEST RESPONSE_RECV QUIT s)
       (\<lambda>(pollStatus, tryCount) s.
     case pollStatus of
       RESEND_LOWEST \<Rightarrow>
         bindO (liftO (getLowestSeqNumData (replicate MAX_PAYLOAD_SIZE 0) (win s)) s)
           (\<lambda>(data, seqNum, dataLen) s.
         bindO (sendPDU (clientConn s) data dataLen (flag_code RESENT_DATA_TIMEOUT) seqNum s)
           (\<lambda>_. Ret (Some tryCount)))
     | RESPONSE_RECV \<Rightarrow> bindO (respond s) (\<lambda>_. Ret (Some tryCount))
     | QUIT \<Rightarrow> Ret None s
     | CONTINUE \<Rightarrow> Ret (Some tryCount) s)"

section \<open>The loops\<close>

text \<open>
  What the first loop consumes is the file, what the second one consumes is the kernel's
  reports or its tries; the lemmas before each loop say that its body keeps the rest.
\<close>

definition file_frame :: "server \<Rightarrow> server \<Rightarrow> bool" where
  "file_frame s s' \<longleftrightarrow> fileLeft s' = fileLeft s \<and> atEOF s' = atEOF s \<and> read_errs s' = read_errs s"

lemma sendPDU_server:
  assumes "sendPDU c pl n f q s = Ret x s'"
  shows "net_in s' = net_in s \<and> file_frame s s' \<and> win s' = win s \<and> serverSeqNum s' = serverSeqNum s
    \<and> waitingForLastRR s' = waitingForLastRR s \<and> lastDataSeqNum s' = lastDataSeqNum s"
  using sendPDU_shape [OF assms] by (auto simp: file_frame_def)

lemma processResponse_Ret:
  assumes "processResponse w q s = Ret w' s'"
  shows "length (net_in s') < length (net_in s) \<and> file_frame s s'"
proof (cases "retrievePDU (clientConn s) (replicate MAX_PAYLOAD_SIZE 0) s")
  case (Stop h t)
  with assms show ?thesis by (simp add: processResponse_def)
next
  case (Ret x t)
  obtain conn f k crc pl n where x: "x = (conn, f, k, crc, pl, n)" by (cases x)
  from retrievePDU_Ret [OF Ret [unfolded x]] obtain es where
    t: "t = s\<lparr>net_in := es\<rparr>" "length es < length (net_in s)" by blast
  let ?t = "t\<lparr>clientConn := conn\<rparr>" and ?k = "ntohl (word32 (take 4 pl))"
  have eq: "processResponse w q s =
    (if crc = CRC_ERROR then Ret w ?t
     else if f = flag_code SREJ then
       bindO (liftO (getDataFromWindow ?k (replicate MAX_PAYLOAD_SIZE 0) (win ?t)) ?t)
         (\<lambda>(data, dataLen) s.
       bindO (sendPDU (clientConn s) data dataLen (flag_code RESENT_DATA_SREJ) ?k s) (\<lambda>_. Ret w))
     else if f = flag_code RR then
       Ret (if ?k - 1 = q then False else w) (?t\<lparr>win := updateLower ?k (win ?t)\<rparr>)
     else if f = flag_code EOF_ACK then Stop (Exit 0) ?t
     else Ret w ?t)"
    unfolding processResponse_def Ret x by (simp add: Let_def)
  have "net_in s' = net_in ?t \<and> file_frame ?t s'"
  proof (cases "crc = CRC_ERROR \<or> f \<noteq> flag_code SREJ")
    case True
    with assms eq show ?thesis by (auto simp: file_frame_def split: if_splits)
  next
    case False
    with assms eq obtain data m where
      "sendPDU (clientConn ?t) data m (flag_code RESENT_DATA_SREJ) ?k ?t = Ret () s'"
      by (auto simp: run_simps)
    from sendPDU_server [OF this] show ?thesis by simp
  qed
  with t show ?thesis by (simp add: file_frame_def)
qed

lemma respond_Ret:
  "respond s = Ret u s' \<Longrightarrow> length (net_in s') < length (net_in s) \<and> file_frame s s'"
  by (auto simp: respond_def run_simps file_frame_def dest!: processResponse_Ret)

lemma pollCall_Ret:
  assumes "pollCall t p = Ret v p'"
  shows "\<exists>es. p' = p\<lparr>net_in := es\<rparr> \<and> (es = net_in p \<or> length es < length (net_in p))"
  using assms
  by (auto simp: pollCall_def run_simps pollCall_result_def Let_def split: list.splits event.splits
      if_splits intro: exI [of _ "net_in p"])

lemma fill_poll_Ret:
  "fill_poll s = Ret u s' \<Longrightarrow> length (net_in s') \<le> length (net_in s) \<and> file_frame s s'"
  by (auto simp: fill_poll_def run_simps file_frame_def split: if_splits
      dest!: pollCall_Ret respond_Ret)

lemma read_file_eq:
  assumes "read_errs s = [] \<or> \<not> hd (read_errs s)"
  shows "\<exists>m \<le> length (fileLeft s). (0 \<le> s32 (srvBufferSize s) \<longrightarrow>
      m = min (nat (s32 (srvBufferSize s))) (length (fileLeft s))) \<and>
    read_file s = (let s' = s\<lparr>read_errs := drop 1 (read_errs s), fileLeft := drop m (fileLeft s)\<rparr> in
      if MAX_PAYLOAD_SIZE < m then Stop (Fault OutOfBounds) s' else Ret (int m, take m (fileLeft s)) s')"
  using assms
  by (intro exI [of _ "if s32 (srvBufferSize s) < 0 then length (fileLeft s)
        else min (nat (s32 (srvBufferSize s))) (length (fileLeft s))"])
    (cases "read_errs s"; simp add: read_file_def Let_def)

lemma read_file_Ret:
  assumes "read_file s = Ret (n, bs) s'"
  shows "(\<exists>es. s' = s\<lparr>read_errs := es\<rparr> \<and> n = - 1 \<and> bs = []) \<or>
   (\<exists>es l. s' = s\<lparr>read_errs := es, fileLeft := l\<rparr> \<and> fileLeft s = bs @ l
     \<and> n = int (length bs) \<and> length bs \<le> MAX_PAYLOAD_SIZE)"
proof (cases "read_errs s = [] \<or> \<not> hd (read_errs s)")
  case False
  then obtain es where "read_errs s = True # es" by (cases "read_errs s") auto
  with assms show ?thesis by (auto simp: read_file_def)
next
  case True
  from read_file_eq [OF this] obtain m where m: "m \<le> length (fileLeft s)"
    and eq: "read_file s = (let s' = s\<lparr>read_errs := drop 1 (read_errs s), fileLeft := drop m (fileLeft s)\<rparr> in
      if MAX_PAYLOAD_SIZE < m then Stop (Fault OutOfBounds) s' else Ret (int m, take m (fileLeft s)) s')"
    by blast
  with assms show ?thesis
    by (auto simp: Let_def split: if_splits intro!: exI [of _ "drop 1 (read_errs s)"]
        exI [of _ "drop m (fileLeft s)"])
qed

lemma fill_send_Ret:
  assumes "fill_send s = Ret False s'"
  shows "net_in s' = net_in s \<and>
    (atEOF s' \<or> length (fileLeft s') < length (fileLeft s) \<and> atEOF s' = atEOF s)"
proof (cases "read_file s")
  case (Stop h t)
  with assms show ?thesis by (simp add: fill_send_def)
next
  case (Ret x t)
  obtain n bs where x: "x = (n, bs)" by fastforce
  from read_file_Ret [OF Ret [unfolded x]] show ?thesis
  proof (elim disjE exE conjE)
    fix es assume "n = - 1"
    with Ret x assms show ?thesis by (simp add: fill_send_def)
  next
    fix es l assume t: "t = s\<lparr>read_errs := es, fileLeft := l\<rparr>" and left: "fileLeft s = bs @ l"
      and n: "n = int (length bs)"
    show ?thesis
    proof (cases "bs = []")
      case True
      with Ret x assms t n have "s' = t\<lparr>atEOF := True, lastDataSeqNum := serverSeqNum t - 1\<rparr>"
        by (simp add: fill_send_def)
      with t show ?thesis by simp
    next
      case False
      let ?pl = "bs @ replicate (MAX_PAYLOAD_SIZE - length bs) 0"
      from Ret x assms n False obtain w s1 where
        send: "sendPDU (clientConn t) ?pl n (flag_code DATA) (serverSeqNum t) (t\<lparr>win := w\<rparr>) = Ret () s1"
        and s': "s' = s1\<lparr>serverSeqNum := serverSeqNum s1 + 1\<rparr>"
        by (auto simp: fill_send_def run_simps Let_def)
      from sendPDU_server [OF send] s' t left False show ?thesis by (simp add: file_frame_def)
    qed
  qed
qed

text \<open>The first loop; the result says whether the function has returned from inside it.\<close>

function fill_loop :: "server \<Rightarrow> (server, bool) outcome" where
  "fill_loop s =
     (if isWindowOpen (win s) \<and> \<not> atEOF s then
        bindO (fill_send s) (\<lambda>quit s.
          if quit then Ret True s else bindO (fill_poll s) (\<lambda>_. fill_loop))
      else Ret False s)"
  by pat_completeness auto
termination
proof (relation "measure (\<lambda>s. if atEOF s then 0 else Suc (length (fileLeft s)))", goal_cases)
  case (2 s q t u v)
  then show ?case
    using fill_send_Ret [of s t] fill_poll_Ret [of t u v] by (auto simp: file_frame_def)
qed simp

declare fill_loop.simps [simp del]

lemma processPoll_Ret:
  assumes "processPoll n t m X R D p = Ret (st, n') p'"
  shows "(\<exists>es. p' = p\<lparr>net_in := es\<rparr> \<and> length es \<le> length (net_in p)) \<and>
    (st = R \<or> st = D \<or> st = X \<and> n' = n + 1 \<and> n' < m)"
proof -
  from assms obtain v where v: "pollCall t p = Ret v p'"
    and r: "processPoll_result v n m X R D = (st, n')"
    by (auto simp: processPoll_def run_simps)
  from pollCall_Ret [OF v] have "\<exists>es. p' = p\<lparr>net_in := es\<rparr> \<and> length es \<le> length (net_in p)"
    by fastforce
  with r show ?thesis by (auto simp: processPoll_result_def Let_def split: if_splits)
qed

text \<open>The continuation of \<open>wait_body\<close> after \<open>processPoll\<close>.\<close>

definition wait_act :: "POLL_STATUS \<Rightarrow> int \<Rightarrow> server \<Rightarrow> (server, int option) outcome" where
  "wait_act pollStatus tryCount s =
     (case pollStatus of
       RESEND_LOWEST \<Rightarrow>
         bindO (liftO (getLowestSeqNumData (replicate MAX_PAYLOAD_SIZE 0) (win s)) s)
           (\<lambda>(data, seqNum, dataLen) s.
         bindO (sendPDU (clientConn s) data dataLen (flag_code RESENT_DATA_TIMEOUT) seqNum s)
           (\<lambda>_. Ret (Some tryCount)))
     | RESPONSE_RECV \<Rightarrow> bindO (respond s) (\<lambda>_. Ret (Some tryCount))
     | QUIT \<Rightarrow> Ret None s
     | CONTINUE \<Rightarrow> Ret (Some tryCount) s)"

lemma wait_body_act:
  "wait_body n s = bindO (processPoll n SHORT_TIME 10 RESEND_LOWEST RESPONSE_RECV QUIT s)
     (\<lambda>(st, n) s. wait_act st n s)"
  by (simp add: wait_body_def wait_act_def)

lemma wait_act_Ret:
  assumes "wait_act st n s = Ret r s'"
  shows "length (net_in s') \<le> length (net_in s) \<and> file_frame s s'
    \<and> (st = RESPONSE_RECV \<longrightarrow> length (net_in s') < length (net_in s))
    \<and> r = (if st = QUIT then None else Some n)"
proof (cases st)
  case RESPONSE_RECV
  with assms show ?thesis by (auto simp: wait_act_def run_simps dest!: respond_Ret)
next
  case RESEND_LOWEST
  with assms obtain d q m where "sendPDU (clientConn s) d m (flag_code RESENT_DATA_TIMEOUT) q s = Ret () s'"
    "r = Some n"
    by (auto simp: wait_act_def run_simps)
  with sendPDU_server RESEND_LOWEST show ?thesis by fastforce
qed (use assms in \<open>auto simp: wait_act_def file_frame_def\<close>)

lemma wait_body_Ret:
  assumes "wait_body n s = Ret r s'"
  shows "length (net_in s') \<le> length (net_in s) \<and> file_frame s s'
    \<and> (\<forall>n'. r = Some n' \<longrightarrow> length (net_in s') < length (net_in s) \<or> n' = n + 1 \<and> n' < 10)"
proof -
  from assms obtain st m q where
    p: "processPoll n SHORT_TIME 10 RESEND_LOWEST RESPONSE_RECV QUIT s = Ret (st, m) q"
    and a: "wait_act st m q = Ret r s'"
    by (auto simp: wait_body_act run_simps)
  from processPoll_Ret [OF p] wait_act_Ret [OF a] show ?thesis
    by (auto simp: file_frame_def)
qed

text \<open>The second loop, with the same kind of result.\<close>

function wait_loop :: "int \<Rightarrow> server \<Rightarrow> (server, bool) outcome" where
  "wait_loop tryCount s =
     (if isWindowClosed (win s) \<or> waitingForLastRR s then
        bindO (wait_body tryCount s) (\<lambda>r s.
          case r of None \<Rightarrow> Ret True s | Some tryCount \<Rightarrow> wait_loop tryCount s)
      else Ret False s)"
  by pat_completeness auto
termination
proof (relation "inv_image (less_than <*lex*> less_than) (\<lambda>(n, s). (length (net_in s), nat (10 - n)))",
    goal_cases)
  case (2 n s r t m)
  then show ?case using wait_body_Ret [of n s r t] by auto
qed (auto intro!: wf_inv_image wf_lex_prod)

declare wait_loop.simps [simp del]

definition sendData :: "server \<Rightarrow> (server, server_STATE) outcome" where
  "sendData s =
     bindO (fill_loop s) (\<lambda>quit s.
     if quit then Ret DONE_SERVER s
     else
       bindO (eof_check s) (\<lambda>_ s.
       bindO (wait_loop 0 s) (\<lambda>quit s.
       if quit then Ret DONE_SERVER s
       else Ret (if \<not> waitingForLastRR s \<and> atEOF s then SEND_EOF else SEND_DATA) s)))"

section \<open>The end of the file\<close>

text \<open>Here \<open>processResponse\<close> works on a variable of its own instead of \<open>waitingForLastRR\<close>.\<close>

definition eof_send :: "server \<Rightarrow> (server, unit) outcome" where
  "eof_send s = sendFlagOnly (clientConn s) (flag_code END_OF_FILE) (serverSeqNum s) s"

definition eof_poll :: "server \<Rightarrow> (server, server_STATE) outcome" where
  "eof_poll s =
     bindO (processPoll (eof_tryCount s) SHORT_TIME 10 SEND_EOF RECV_POSSIBLE_EOF_ACK DONE_SERVER s)
       (\<lambda>(pollResult, tryCount) s.
     let s = s\<lparr>eof_tryCount := tryCount\<rparr> in
     if pollResult = RECV_POSSIBLE_EOF_ACK
     then bindO (processResponse False (serverSeqNum s) s) (\<lambda>_. Ret SEND_EOF)
     else Ret pollResult s)"

definition sendEofAndWaitForAck :: "server \<Rightarrow> (server, server_STATE) outcome" where
  "sendEofAndWaitForAck s = bindO (eof_send s) (\<lambda>_. eof_poll)"

section \<open>The state machine of the child\<close>

fun server_step :: "byte list \<Rightarrow> int \<Rightarrow> server_STATE \<Rightarrow> server \<Rightarrow> (server, server_STATE) outcome" where
  "server_step pdu pduLen START s = Ret PROCESS_FILENAME s"
| "server_step pdu pduLen PROCESS_FILENAME s = processFilename (drop PDU_HEADER_SIZE pdu) pduLen s"
| "server_step pdu pduLen WAIT_ON_FILENAME_OK_ACK s = server_filenameOk s"
| "server_step pdu pduLen SEND_DATA s = sendData s"
| "server_step pdu pduLen SEND_EOF s = sendEofAndWaitForAck s"
| "server_step pdu pduLen DONE_SERVER s = Ret DONE_SERVER s"
| "server_step pdu pduLen RECV_POSSIBLE_EOF_ACK s = Ret DONE_SERVER s"

fun processClient_loop ::
  "nat \<Rightarrow> byte list \<Rightarrow> int \<Rightarrow> server_STATE \<Rightarrow> server \<Rightarrow> (server, unit) outcome option" where
  "processClient_loop fuel pdu pduLen DONE_SERVER s = Some (Ret () s)"
| "processClient_loop 0 pdu pduLen st s = None"
| "processClient_loop (Suc fuel) pdu pduLen st s =
     (case server_step pdu pduLen st s of
        Stop h s \<Rightarrow> Some (Stop h s)
      | Ret st s \<Rightarrow> processClient_loop fuel pdu pduLen st s)"

definition processClient :: "nat \<Rightarrow> byte list \<Rightarrow> int \<Rightarrow> server \<Rightarrow> (server, unit) outcome option" where
  "processClient fuel pdu pduLen s =
     processClient_loop fuel pdu pduLen START
       (s\<lparr>dataFile := 0, srvBufferSize := 0, srvWindowSize := 0, serverSeqNum := START_SEQ_NUM\<rparr>)"

text \<open>
  The child after \<open>fork\<close> has returned 0 to it. The exit status is 0 in both cases: a child that has
  given up returns from \<open>processClient\<close> and exits here, one that hears the EOF_ACK exits in
  \<open>processResponse\<close>.
\<close>

definition child_main :: "nat \<Rightarrow> byte list \<Rightarrow> int \<Rightarrow> server \<Rightarrow> (server, unit) outcome option" where
  "child_main fuel pdu pduLen s =
     (case setupPollSet s of
        Stop h s \<Rightarrow> Some (Stop h s)
      | Ret _ s \<Rightarrow>
          (case processClient fuel pdu pduLen s of
             None \<Rightarrow> None
           | Some (Stop h s) \<Rightarrow> Some (Stop h s)
           | Some (Ret _ s) \<Rightarrow> Some (Stop (Exit 0) s)))"

section \<open>The parent\<close>

text \<open>
  \<open>processServer\<close>: \<open>pdu\<close> is its receive buffer, \<open>l\<close> the state of the library, \<open>pids\<close> what the
  coming calls of \<open>fork\<close> return to the parent. The result is the list of the children, each with
  the address of its client, its copies of the buffer, the length and the library, and the reason
  why the parent goes no further.
\<close>

fun processServer ::
  "byte list \<Rightarrow> library \<Rightarrow> int list \<Rightarrow> event list
   \<Rightarrow> (sockaddr_in6 \<times> byte list \<times> int \<times> library) list \<times> halt" where
  "processServer pdu l pids [] = ([], Waiting)"
| "processServer pdu l pids (Timeout # es) = processServer pdu l pids es"
| "processServer pdu l pids (Hangup # es) = processServer pdu l pids es"
| "processServer pdu l pids (SysErr # es) = ([], Exit (- 1))"
| "processServer pdu l pids (Arrive a d # es) =
     (let received = take MAX_PDU_SIZE d; pduLen = length received;
          pdu = received @ drop pduLen pdu in
      if checkChecksum pdu (int pduLen) = CRC_ERROR then processServer pdu l pids es
      else case pids of
        [] \<Rightarrow> ([], Exit (- 1))
      | pid # pids \<Rightarrow>
          if pid < 0 then ([], Exit (- 1))
          else case processServer pdu (snd (forkMod pid l)) pids es of (children, h) \<Rightarrow>
            ((a, pdu, int pduLen, snd (forkMod 0 l)) # children, h))"

text \<open>
  The child after the fork: the static variables as the parent has left them, the error injection
  set up, and a connection with the client's address only. \<open>junk\<close> is the uninitialised
  \<open>lastDataSeqNum\<close>. What the child does then is \<open>child_main\<close>; the set-up of the poll set
  and of the error injection touch different variables, so their order does not matter.
\<close>

definition server_boot ::
  "sockaddr_in6 \<Rightarrow> event list \<Rightarrow> bool list \<Rightarrow> PacketManager \<Rightarrow> nat \<Rightarrow> int list \<Rightarrow> bool list \<Rightarrow> u32
   \<Rightarrow> (byte list \<Rightarrow> int \<times> byte list) \<Rightarrow> server" where
  "server_boot client reports errs manager memory descriptors reads junk opens =
     \<lparr>net_in = reports, net_out = [], send_errs = errs, pm = manager,
      polled = static_pollset, udp_sock = 0, heap = memory, sockets = descriptors,
      clientConn = \<lparr>socketNum = 0, info = client, addrLen = 28\<rparr>, win = static_window,
      serverSeqNum = START_SEQ_NUM, srvBufferSize = 0, srvWindowSize = 0, dataFile = 0,
      fileLeft = [], read_errs = reads, atEOF = False, waitingForLastRR = False,
      lastDataSeqNum = junk, eof_tryCount = 0, open_file = opens\<rparr>"

end
