(* ===== verification/ServerLoop.thy ===== *)
theory ServerLoop
  imports Server
begin

text \<open>
  The server's child as a whole: a small-step form of its state machine, in which every point
  at which the process can block is a step of its own, and the proof that the handlers are runs
  of it; the order of the states; and that the child ends.
\<close>

section \<open>Small steps\<close>

text \<open>
  Where a child stands: before a handler, before or after the first half of the body of the
  first loop of \<open>sendData\<close>, in its second loop with a try count, or between the two halves of
  \<open>sendEofAndWaitForAck\<close>.
\<close>

datatype server_pc = is_At: At server_STATE | Fill | FillPoll | is_Wait: Wait int
  | EofPoll

fun server_small ::
  "byte list \<Rightarrow> int \<Rightarrow> server_pc \<Rightarrow> server \<Rightarrow> (server, server_pc) outcome" where
  "server_small pdu pduLen (At SEND_DATA) s = Ret Fill s"
| "server_small pdu pduLen Fill s =
     (if isWindowOpen (win s) \<and> \<not> atEOF s
      then bindO (fill_send s) (\<lambda>quit. Ret (if quit then At DONE_SERVER else FillPoll))
      else bindO (eof_check s) (\<lambda>_. Ret (Wait 0)))"
| "server_small pdu pduLen FillPoll s = bindO (fill_poll s) (\<lambda>_. Ret Fill)"
| "server_small pdu pduLen (Wait n) s =
     (if isWindowClosed (win s) \<or> waitingForLastRR s
      then bindO (wait_body n s)
             (\<lambda>r. Ret (case r of None \<Rightarrow> At DONE_SERVER | Some n \<Rightarrow> Wait n))
      else Ret (At (if \<not> waitingForLastRR s \<and> atEOF s then SEND_EOF else SEND_DATA)) s)"
| "server_small pdu pduLen (At SEND_EOF) s = bindO (eof_send s) (\<lambda>_. Ret EofPoll)"
| "server_small pdu pduLen EofPoll s = bindO (eof_poll s) (\<lambda>st. Ret (At st))"
| "server_small pdu pduLen (At st) s = bindO (server_step pdu pduLen st s) (\<lambda>st. Ret (At st))"

text \<open>A run of small steps up to the next handler.\<close>

inductive handler_run ::
  "byte list \<Rightarrow> int \<Rightarrow> server_pc \<Rightarrow> server \<Rightarrow> (server, server_STATE) outcome \<Rightarrow> bool"
  for pdu pduLen where
  run_stop: "server_small pdu pduLen pc s = Stop h t \<Longrightarrow> handler_run pdu pduLen pc s (Stop h t)"
| run_at: "server_small pdu pduLen pc s = Ret (At st) t \<Longrightarrow> handler_run pdu pduLen pc s (Ret st t)"
| run_more: "server_small pdu pduLen pc s = Ret pc' t \<Longrightarrow> \<not> is_At pc' \<Longrightarrow>
    handler_run pdu pduLen pc' t r \<Longrightarrow> handler_run pdu pduLen pc s r"

inductive_cases handler_runE: "handler_run pdu pduLen pc s r"

text \<open>The two loops and what follows them.\<close>

definition after_wait :: "(server, bool) outcome \<Rightarrow> (server, server_STATE) outcome" where
  "after_wait m = bindO m (\<lambda>quit s. if quit then Ret DONE_SERVER s
     else Ret (if \<not> waitingForLastRR s \<and> atEOF s then SEND_EOF else SEND_DATA) s)"

definition after_fill :: "(server, bool) outcome \<Rightarrow> (server, server_STATE) outcome" where
  "after_fill m = bindO m (\<lambda>quit s. if quit then Ret DONE_SERVER s
     else bindO (eof_check s) (\<lambda>_ s. after_wait (wait_loop 0 s)))"

lemma sendData_after_fill: "sendData s = after_fill (fill_loop s)"
  unfolding sendData_def after_fill_def after_wait_def ..

lemma wait_loop_run: "handler_run pdu pduLen (Wait n) s (after_wait (wait_loop n s))"
proof (induction n s rule: wait_loop.induct)
  case (1 n s)
  show ?case
  proof (cases "isWindowClosed (win s) \<or> waitingForLastRR s")
    case False
    then show ?thesis
      by (auto simp: after_wait_def wait_loop.simps [of n s] intro!: run_at)
  next
    case True
    show ?thesis
    proof (cases "wait_body n s")
      case (Stop h t)
      with True show ?thesis
        by (auto simp: after_wait_def wait_loop.simps [of n s] intro!: run_stop)
    next
      case (Ret r t)
      show ?thesis
      proof (cases r)
        case None
        with True Ret show ?thesis
          by (auto simp: after_wait_def wait_loop.simps [of n s] intro!: run_at)
      next
        case (Some m)
        from 1 True Ret Some have "handler_run pdu pduLen (Wait m) t (after_wait (wait_loop m t))"
          by blast
        with True Ret Some show ?thesis
          by (auto simp: after_wait_def wait_loop.simps [of n s] intro: run_more)
      qed
    qed
  qed
qed

lemma fill_loop_run: "handler_run pdu pduLen Fill s (after_fill (fill_loop s))"
proof (induction s rule: fill_loop.induct)
  case (1 s)
  show ?case
  proof (cases "isWindowOpen (win s) \<and> \<not> atEOF s")
    case False
    then have "fill_loop s = Ret False s" unfolding fill_loop.simps [of s] by (rule if_not_P)
    then have eq: "after_fill (fill_loop s) = bindO (eof_check s) (\<lambda>_ s. after_wait (wait_loop 0 s))"
      by (simp add: after_fill_def)
    show ?thesis
    proof (cases "eof_check s")
      case (Stop h t)
      with False eq show ?thesis by (auto intro!: run_stop)
    next
      case (Ret u t)
      have "server_small pdu pduLen Fill s = Ret (Wait 0) t" using False Ret by auto
      then show ?thesis unfolding eq Ret by (auto intro: run_more wait_loop_run)
    qed
  next
    case True
    then have eq: "fill_loop s = bindO (fill_send s) (\<lambda>quit s.
          if quit then Ret True s else bindO (fill_poll s) (\<lambda>_. fill_loop))"
      by (simp add: fill_loop.simps [of s])
    show ?thesis
    proof (cases "fill_send s")
      case (Stop h t)
      with True show ?thesis by (auto simp: eq after_fill_def intro!: run_stop)
    next
      case (Ret quit t)
      show ?thesis
      proof (cases quit)
        case True
        with \<open>isWindowOpen (win s) \<and> \<not> atEOF s\<close> Ret show ?thesis
          by (auto simp: eq after_fill_def intro!: run_at)
      next
        case False
        have first: "server_small pdu pduLen Fill s = Ret FillPoll t" using True Ret False by simp
        have "handler_run pdu pduLen FillPoll t (after_fill (bindO (fill_poll t) (\<lambda>_. fill_loop)))"
        proof (cases "fill_poll t")
          case (Stop h u)
          then show ?thesis by (auto simp: after_fill_def intro!: run_stop)
        next
          case (Ret v u)
          with 1 [OF True \<open>fill_send s = Ret quit t\<close> False Ret] show ?thesis
            by (auto intro: run_more)
        qed
        with first Ret False show ?thesis by (auto simp: eq intro: run_more)
      qed
    qed
  qed
qed

text \<open>
  Every state handler of the server, \<open>sendData\<close> with its two loops included, is
  a run of the small steps between which the process can block.
\<close>

theorem handlers_are_runs_of_small_steps:
  "handler_run pdu pduLen (At st) s (server_step pdu pduLen st s)"
proof (cases st)
  case SEND_DATA
  have "handler_run pdu pduLen Fill s (sendData s)"
    unfolding sendData_after_fill by (rule fill_loop_run)
  then show ?thesis unfolding SEND_DATA by (auto intro: run_more)
next
  case SEND_EOF
  show ?thesis
  proof (cases "eof_send s")
    case (Stop h t)
    with SEND_EOF show ?thesis by (auto simp: sendEofAndWaitForAck_def intro!: run_stop)
  next
    case (Ret u t)
    have "handler_run pdu pduLen EofPoll t (eof_poll t)"
      by (cases "eof_poll t") (auto intro: run_stop run_at)
    with SEND_EOF Ret show ?thesis by (auto simp: sendEofAndWaitForAck_def intro: run_more)
  qed
qed (cases "server_step pdu pduLen st s"; auto intro: run_stop run_at)+

text \<open>A run is determined by where it starts.\<close>

lemma handler_run_deterministic:
  "handler_run pdu pduLen pc s r \<Longrightarrow> handler_run pdu pduLen pc s r' \<Longrightarrow> r = r'"
proof (induction arbitrary: r' rule: handler_run.induct)
  case (run_stop pc s h t)
  from run_stop.prems show ?case by (rule handler_runE) (use run_stop.hyps in simp_all)
next
  case (run_at pc s st t)
  from run_at.prems show ?case by (rule handler_runE) (use run_at.hyps in simp_all)
next
  case (run_more pc s pc' t r)
  from run_more.prems show ?case
  proof (rule handler_runE)
    fix pc'' u
    assume a: "server_small pdu pduLen pc s = Ret pc'' u" "handler_run pdu pduLen pc'' u r'"
    from a(1) run_more.hyps(1) have "pc'' = pc'" "u = t" by simp_all
    with a(2) run_more.IH show "r = r'" by blast
  qed (use run_more.hyps in simp_all)
qed

section \<open>The order of the states\<close>

text \<open>The states in the order in which a child goes through them.\<close>

fun srank :: "server_STATE \<Rightarrow> nat" where
  "srank START = 0"
| "srank PROCESS_FILENAME = 1"
| "srank WAIT_ON_FILENAME_OK_ACK = 2"
| "srank SEND_DATA = 3"
| "srank SEND_EOF = 4"
| "srank RECV_POSSIBLE_EOF_ACK = 5"
| "srank DONE_SERVER = 6"

lemma srank_inj: "srank a = srank b \<longleftrightarrow> a = b"
  by (cases a; cases b) simp_all

instantiation server_STATE :: linorder
begin

definition less_eq_server_STATE :: "server_STATE \<Rightarrow> server_STATE \<Rightarrow> bool" where
  "less_eq_server_STATE a b \<longleftrightarrow> srank a \<le> srank b"

definition less_server_STATE :: "server_STATE \<Rightarrow> server_STATE \<Rightarrow> bool" where
  "less_server_STATE a b \<longleftrightarrow> srank a < srank b"

instance
  by standard (auto simp: less_eq_server_STATE_def less_server_STATE_def srank_inj)

end

lemmas state_order = less_eq_server_STATE_def less_server_STATE_def

lemma processFilename_next:
  "processFilename pl n s = Ret st s' \<Longrightarrow> st \<in> {DONE_SERVER, WAIT_ON_FILENAME_OK_ACK}"
  by (auto simp: processFilename_def run_simps Let_def split_def split: if_splits)

lemma server_filenameOk_next:
  "server_filenameOk s = Ret st s' \<Longrightarrow> st \<in> {DONE_SERVER, SEND_DATA}"
  by (auto simp: server_filenameOk_def run_simps split: if_splits)

lemma sendData_next:
  "sendData s = Ret st s' \<Longrightarrow> st \<in> {DONE_SERVER, SEND_DATA, SEND_EOF}"
  by (auto simp: sendData_def run_simps split: if_splits)

lemma eof_poll_Ret:
  assumes "eof_poll s = Ret st s'"
  shows "st = DONE_SERVER \<or> st = SEND_EOF \<and> (length (net_in s') < length (net_in s)
      \<or> length (net_in s') \<le> length (net_in s) \<and> eof_tryCount s' = eof_tryCount s + 1 \<and> eof_tryCount s' < 10)
    \<and> file_frame s s'"
proof -
  from assms obtain st1 n q where
    p: "processPoll (eof_tryCount s) SHORT_TIME 10 SEND_EOF RECV_POSSIBLE_EOF_ACK DONE_SERVER s = Ret (st1, n) q"
    and r: "(if st1 = RECV_POSSIBLE_EOF_ACK
      then bindO (processResponse False (serverSeqNum q) (q\<lparr>eof_tryCount := n\<rparr>)) (\<lambda>_. Ret SEND_EOF)
      else Ret st1 (q\<lparr>eof_tryCount := n\<rparr>)) = Ret st s'"
    by (auto simp: eof_poll_def run_simps Let_def cong: if_cong)
  from processPoll_Ret [OF p] obtain es where q: "q = s\<lparr>net_in := es\<rparr>" "length es \<le> length (net_in s)"
    and st1: "st1 = RECV_POSSIBLE_EOF_ACK \<or> st1 = DONE_SERVER \<or> st1 = SEND_EOF \<and> n = eof_tryCount s + 1 \<and> n < 10"
    by blast
  show ?thesis
  proof (cases "st1 = RECV_POSSIBLE_EOF_ACK")
    case True
    with r obtain w where "processResponse False (serverSeqNum q) (q\<lparr>eof_tryCount := n\<rparr>) = Ret w s'" "st = SEND_EOF"
      by (auto simp: run_simps)
    with processResponse_Ret q show ?thesis by (fastforce simp: file_frame_def)
  next
    case False
    with r have "st = st1" "s' = q\<lparr>eof_tryCount := n\<rparr>" by simp_all
    with False st1 q show ?thesis by (auto simp: file_frame_def)
  qed
qed

lemma eof_send_Ret:
  "eof_send s = Ret u s' \<Longrightarrow> net_in s' = net_in s \<and> file_frame s s' \<and> eof_tryCount s' = eof_tryCount s"
  by (auto simp: eof_send_def sendFlagOnly_def file_frame_def dest!: sendPDU_shape)

text \<open>
  C16. The states of the server are passed through in one direction only: no handler leads back to
  an earlier state.
\<close>

theorem server_states_never_go_back:
  assumes "server_step pdu pduLen st s = Ret st' s'"
  shows "st \<le> st'"
  using assms
  by (cases st) (auto simp: state_order sendEofAndWaitForAck_def run_simps
      dest!: processFilename_next server_filenameOk_next sendData_next eof_poll_Ret)

text \<open>The file-name acknowledgment does not come within ten seconds.\<close>

theorem server_states_never_go_back_witness:
  "let s = server_boot zero_sockaddr_in6 [Timeout] [] (g_PktMgr 0) 0 [] [] 0 (\<lambda>_. (- 1, []))
   in server_step [] 0 WAIT_ON_FILENAME_OK_ACK s = Ret DONE_SERVER (s\<lparr>net_in := []\<rparr>)
     \<and> WAIT_ON_FILENAME_OK_ACK \<le> DONE_SERVER"
proof -
  let ?s = "server_boot zero_sockaddr_in6 [Timeout] [] (g_PktMgr 0) 0 [] [] 0 (\<lambda>_. (- 1, []))"
  have "server_step [] 0 WAIT_ON_FILENAME_OK_ACK ?s = Ret DONE_SERVER (?s\<lparr>net_in := []\<rparr>)"
    by (simp add: server_filenameOk_def pollCall_def pollCall_result_def server_boot_def)
  with server_states_never_go_back [OF this] show ?thesis by simp
qed

section \<open>The child ends\<close>

text \<open>What the two loops leave behind when they end normally.\<close>

lemma wait_loop_Ret:
  "wait_loop n s = Ret q s' \<Longrightarrow> length (net_in s') \<le> length (net_in s) \<and> file_frame s s'
   \<and> (\<not> q \<longrightarrow> \<not> waitingForLastRR s' \<and>
        (isWindowClosed (win s) \<or> waitingForLastRR s \<longrightarrow> length (net_in s') < length (net_in s)))"
proof (induction n s rule: wait_loop.induct)
  case (1 n s)
  show ?case
  proof (cases "isWindowClosed (win s) \<or> waitingForLastRR s")
    case False
    with 1(2) show ?thesis by (simp add: wait_loop.simps [of n s] file_frame_def)
  next
    case True
    then obtain r t where b: "wait_body n s = Ret r t"
      and next_: "(case r of None \<Rightarrow> Ret True t | Some m \<Rightarrow> wait_loop m t) = Ret q s'"
      using 1(2) by (auto simp: wait_loop.simps [of n s] run_simps)
    note body = wait_body_Ret [OF b]
    show ?thesis
    proof (cases r)
      case None
      with next_ body show ?thesis by (auto simp: file_frame_def)
    next
      case (Some m)
      note IH = 1(1) [OF True b Some] 
      from b obtain st k u where
        p: "processPoll n SHORT_TIME 10 RESEND_LOWEST RESPONSE_RECV QUIT s = Ret (st, k) u"
        and act: "wait_act st k u = Ret r t" by (auto simp: wait_body_act run_simps)
      from processPoll_Ret [OF p] obtain es where
        u: "u = s\<lparr>net_in := es\<rparr>" "length es \<le> length (net_in s)" by blast
      have "length (net_in t) < length (net_in s) \<or>
        isWindowClosed (win t) \<or> waitingForLastRR t"
      proof (cases "st = RESPONSE_RECV")
        case True
        with wait_act_Ret [OF act] u show ?thesis by auto
      next
        case False
        with act have "win t = win u \<and> waitingForLastRR t = waitingForLastRR u"
          by (cases st) (auto simp: wait_act_def run_simps dest!: sendPDU_server)
        with True u show ?thesis by simp
      qed
      with IH next_ Some body show ?thesis by (auto simp: file_frame_def)
    qed
  qed
qed

lemma fill_loop_Ret:
  "fill_loop s = Ret False s' \<Longrightarrow> length (net_in s') \<le> length (net_in s)
   \<and> (\<not> atEOF s' \<longrightarrow> \<not> atEOF s \<and> length (fileLeft s') \<le> length (fileLeft s)
        \<and> (isWindowOpen (win s) \<longrightarrow> length (fileLeft s') < length (fileLeft s)))
   \<and> (isWindowClosed (win s) \<longrightarrow> s' = s)"
proof (induction s rule: fill_loop.induct)
  case (1 s)
  show ?case
  proof (cases "isWindowOpen (win s) \<and> \<not> atEOF s")
    case False
    with 1(2) have "s' = s" unfolding fill_loop.simps [of s] by simp
    with False show ?thesis by (auto simp: isWindowOpen_def isWindowClosed_def)
  next
    case True
    then have "bindO (fill_send s) (\<lambda>quit s.
        if quit then Ret True s else bindO (fill_poll s) (\<lambda>_. fill_loop)) = Ret False s'"
      using 1(2) unfolding fill_loop.simps [of s] by simp
    then obtain t u where t: "fill_send s = Ret False t" and u: "fill_poll t = Ret () u"
      and rest: "fill_loop u = Ret False s'"
      by (auto simp: run_simps split: if_splits)
    from fill_send_Ret [OF t] fill_poll_Ret [OF u] 1(1) [OF True t _ u rest] True
    show ?thesis by (auto simp: file_frame_def isWindowOpen_def isWindowClosed_def)
  qed
qed

lemma eof_check_Ret:
  assumes "eof_check s = Ret x t"
  shows "atEOF t = atEOF s \<and> (\<not> atEOF s \<longrightarrow> t = s) \<and> net_in t = net_in s \<and> win t = win s"
proof (cases "atEOF s")
  case False
  with assms show ?thesis by (simp add: eof_check_def)
next
  case True
  with assms obtain q where "(if lastDataSeqNum s + 1 \<noteq> q then Ret () (s\<lparr>waitingForLastRR := True\<rparr>)
      else Ret () s) = Ret x t"
    by (auto simp: eof_check_def bindO_eq_Ret liftO_eq_Ret)
  with True show ?thesis by (cases "lastDataSeqNum s + 1 = q") auto
qed

lemma sendData_again:
  assumes "sendData s = Ret SEND_DATA s'"
  shows "length (net_in s') + length (fileLeft s') < length (net_in s) + length (fileLeft s)"
proof -
  from assms obtain t u where t: "fill_loop s = Ret False t" and u: "eof_check t = Ret () u"
    and w: "wait_loop 0 u = Ret False s'" and st: "waitingForLastRR s' \<or> \<not> atEOF s'"
    by (auto simp: sendData_def run_simps split: if_splits)
  note wait = wait_loop_Ret [OF w]
  then have "\<not> atEOF u" using st by (auto simp: file_frame_def)
  with eof_check_Ret [OF u] have u_eq: "u = t" by blast
  note fill = fill_loop_Ret [OF t]
  show ?thesis
  proof (cases "isWindowOpen (win s)")
    case True
    with fill wait u_eq \<open>\<not> atEOF u\<close> show ?thesis by (auto simp: file_frame_def)
  next
    case False
    with fill have "t = s" by (simp add: isWindowOpen_def isWindowClosed_def)
    with False wait u_eq show ?thesis by (auto simp: file_frame_def isWindowOpen_def isWindowClosed_def)
  qed
qed

text \<open>Each pass of the loop goes down in this order.\<close>

definition child_order :: "((server_STATE \<times> server) \<times> (server_STATE \<times> server)) set" where
  "child_order = inv_image (less_than <*lex*> less_than <*lex*> less_than)
     (\<lambda>(st, s). (6 - srank st, length (net_in s) + length (fileLeft s), nat (10 - eof_tryCount s)))"

lemma wf_child_order: "wf child_order"
  by (auto simp: child_order_def intro!: wf_inv_image wf_lex_prod)

lemma sendEof_again:
  assumes "sendEofAndWaitForAck s = Ret SEND_EOF s'"
  shows "((SEND_EOF, s'), (SEND_EOF, s)) \<in> child_order"
proof -
  from assms obtain t where t: "eof_send s = Ret () t" and p: "eof_poll t = Ret SEND_EOF s'"
    by (auto simp: sendEofAndWaitForAck_def run_simps)
  from eof_send_Ret [OF t] eof_poll_Ret [OF p] show ?thesis
    by (auto simp: child_order_def file_frame_def)
qed

lemma server_step_order:
  assumes "server_step pdu pduLen st s = Ret st' s'" "st \<noteq> DONE_SERVER"
  shows "((st', s'), (st, s)) \<in> child_order"
proof (cases "st' = st")
  case True
  with assms have "st = SEND_DATA \<or> st = SEND_EOF"
    by (cases st) (auto dest: processFilename_next server_filenameOk_next)
  with True assms(1) sendData_again [of s s'] sendEof_again [of s s'] show ?thesis
    by (auto simp: child_order_def)
next
  case False
  have "st \<le> st'" using assms(1)
    by (cases st) (auto simp: state_order sendEofAndWaitForAck_def run_simps
      dest!: processFilename_next server_filenameOk_next sendData_next eof_poll_Ret)
  with False have "srank st < srank st'" using le_neq_trans [of st st'] by (simp add: state_order)
  moreover have "srank st' \<le> 6" by (cases st') simp_all
  ultimately show ?thesis by (auto simp: child_order_def)
qed

lemma processClient_loop_ends:
  "\<exists>fuel r. processClient_loop fuel pdu pduLen st s = Some r"
proof (induction "(st, s)" arbitrary: st s rule: wf_induct_rule [OF wf_child_order])
  case 1
  show ?case
  proof (cases "st = DONE_SERVER")
    case False
    have eq: "processClient_loop (Suc fuel) pdu pduLen st s = (case server_step pdu pduLen st s of
        Stop h s \<Rightarrow> Some (Stop h s) | Ret st s \<Rightarrow> processClient_loop fuel pdu pduLen st s)" for fuel
      using False by (cases st) simp_all
    show ?thesis
    proof (cases "server_step pdu pduLen st s")
      case (Ret st' s')
      from 1 [OF server_step_order [OF this False]] obtain fuel r where
        "processClient_loop fuel pdu pduLen st' s' = Some r" by blast
      with eq Ret have "processClient_loop (Suc fuel) pdu pduLen st s = Some r" by simp
      then show ?thesis by blast
    next
      case (Stop h s')
      with eq have "processClient_loop (Suc 0) pdu pduLen st s = Some (Stop h s')" by simp
      then show ?thesis by blast
    qed
  qed auto
qed

lemma processClient_ends: "\<exists>fuel r. processClient fuel pdu pduLen s = Some r"
  using processClient_loop_ends unfolding processClient_def by blast

text \<open>
  C13. The child of the server ends whatever arrives: for every state and every sequence of
  reports there is a bound on the passes of the loop of \<open>processClient\<close> with which
  the child has exited, has faulted, or waits for a report that does not come.
\<close>

theorem server_child_always_ends:
  "\<exists>fuel h t. child_main fuel pdu pduLen s = Some (Stop h t)"
proof (cases "setupPollSet s")
  case (Stop h t)
  then show ?thesis by (simp add: child_main_def)
next
  case (Ret u t)
  obtain fuel r where "processClient fuel pdu pduLen t = Some r" using processClient_ends by blast
  with Ret show ?thesis by (intro exI [of _ fuel]) (cases r; simp add: child_main_def)
qed

end
