(* ===== verification/ServerData.thy ===== *)
theory ServerData
  imports ServerLoop Channels
begin

text \<open>
  What the server's child keeps while it sends the file: \<open>C\<close> blocks have been read and sent,
  the client has acknowledged all below \<open>lo\<close>, and the window holds the last \<open>n\<close> blocks. The
  lemmas go through the steps of \<open>sendData\<close> and \<open>sendEofAndWaitForAck\<close>; each says which
  messages leave.
\<close>

section \<open>The invariant\<close>

definition win_holds :: "nat \<Rightarrow> nat \<Rightarrow> byte list \<Rightarrow> nat \<Rightarrow> send_window \<Rightarrow> bool" where
  "win_holds n b F C w \<longleftrightarrow>
     (\<forall>k. k < C \<longrightarrow> C \<le> k + n \<longrightarrow> win_look k w = Some (of_nat k, chunk b F k)) \<and>
     (\<forall>k. C \<le> k \<longrightarrow> k < n \<longrightarrow> win_look k w = Some (0, []))"

definition srv_core :: "nat \<Rightarrow> nat \<Rightarrow> byte list \<Rightarrow> nat \<Rightarrow> nat \<Rightarrow> server \<Rightarrow> bool" where
  "srv_core n b F lo C s \<longleftrightarrow> proc_ok s \<and> win_ok (win s) \<and> win_cap (win s) = n
     \<and> lower (win s) = int lo \<and> upper (win s) = int (lo + n) \<and> current (win s) = int C
     \<and> serverSeqNum s = of_nat C \<and> lo \<le> C \<and> C \<le> lo + n \<and> C \<le> nchunks b F
     \<and> srvBufferSize s = of_nat b \<and> fileLeft s = drop (C * b) F \<and> win_holds n b F C (win s)
     \<and> (atEOF s \<longrightarrow> C = nchunks b F \<and> lastDataSeqNum s = of_nat C - 1)
     \<and> (waitingForLastRR s \<longrightarrow> atEOF s \<and> 0 < C)"

text \<open>The sizes of a transfer for which the sequence numbers do not wrap.\<close>

definition sizes_ok :: "nat \<Rightarrow> nat \<Rightarrow> byte list \<Rightarrow> bool" where
  "sizes_ok n b F \<longleftrightarrow> 0 < n \<and> 0 < b \<and> b \<le> MAX_PAYLOAD_SIZE \<and> nchunks b F + n < 2 ^ 31"

lemma srv_core_updates [simp]:
  "srv_core n b F lo C (s\<lparr>net_in := es\<rparr>) \<longleftrightarrow> srv_core n b F lo C s"
  "srv_core n b F lo C (s\<lparr>clientConn := c\<rparr>) \<longleftrightarrow> srv_core n b F lo C s"
  "srv_core n b F lo C (s\<lparr>eof_tryCount := t\<rparr>) \<longleftrightarrow> srv_core n b F lo C s"
  "srv_core n b F lo C (s\<lparr>read_errs := rs\<rparr>) \<longleftrightarrow> srv_core n b F lo C s"
  by (auto simp: srv_core_def proc_ok_def)

lemma srv_core_small:
  assumes "srv_core n b F lo C s" "sizes_ok n b F"
  shows "lo < 2 ^ 31" "C < 2 ^ 31" "lo + n < 2 ^ 31" "C \<le> nchunks b F"
  using assms by (auto simp: srv_core_def sizes_ok_def)

lemma srv_core_sent:
  assumes "srv_core n b F lo C s" "sent ms s s'"
  shows "srv_core n b F lo C s' \<and> net_in s' = net_in s \<and> win s' = win s
    \<and> atEOF s' = atEOF s \<and> waitingForLastRR s' = waitingForLastRR s
    \<and> (\<exists>out. net_out s' = net_out s @ out \<and> transmits ms out)"
  using assms by (auto simp: sent_def sent_state_def srv_core_def proc_ok_def)

section \<open>The window in the numbers of the transfer\<close>

lemma win_closed_iff:
  "srv_core n b F lo C s \<Longrightarrow> isWindowClosed (win s) \<longleftrightarrow> C = lo + n"
  "srv_core n b F lo C s \<Longrightarrow> isWindowOpen (win s) \<longleftrightarrow> C < lo + n"
  by (auto simp: srv_core_def isWindowClosed_def isWindowOpen_def)

text \<open>The slot at the lower edge: the oldest block not acknowledged, or something older.\<close>

lemma lowest_slot:
  assumes core: "srv_core n b F lo C s" and N: "sizes_ok n b F"
  shows "\<exists>k pl. win_look lo (win s) = Some (of_nat k, pl) \<and> k \<le> lo \<and> length pl \<le> MAX_PAYLOAD_SIZE
    \<and> (if lo < C then k = lo \<and> pl = chunk b F lo else k < lo \<or> C = 0 \<and> k = 0)"
proof (cases "lo < C")
  case True
  with core have "win_look lo (win s) = Some (of_nat lo, chunk b F lo)"
    by (simp add: srv_core_def win_holds_def)
  with True N length_chunk_le [of b F lo] show ?thesis by (fastforce simp: sizes_ok_def)
next
  case False
  then have lo: "lo = C" using core by (simp add: srv_core_def)
  show ?thesis
  proof (cases "C < n")
    case True
    with core lo have "win_look lo (win s) = Some (0, [])" by (simp add: srv_core_def win_holds_def)
    with lo show ?thesis by (intro exI [of _ 0] exI [of _ "[]"]) auto
  next
    case False
    have "win_look lo (win s) = win_look (C - n) (win s)"
      using core lo False by (simp add: win_look_def srv_core_def mod_if [of C n])
    moreover have "0 < n" using N by (simp add: sizes_ok_def)
    ultimately have "win_look lo (win s) = Some (of_nat (C - n), chunk b F (C - n))"
      using core False by (simp add: srv_core_def win_holds_def)
    with lo False \<open>0 < n\<close> N length_chunk_le [of b F "C - n"] show ?thesis
      by (intro exI [of _ "C - n"] exI [of _ "chunk b F (C - n)"]) (auto simp: sizes_ok_def)
  qed
qed

lemma block_look:
  "srv_core n b F lo C s \<Longrightarrow> lo \<le> v \<Longrightarrow> v < C \<Longrightarrow> win_look v (win s) = Some (of_nat v, chunk b F v)"
  by (simp add: srv_core_def win_holds_def)

section \<open>What leaves the server\<close>

text \<open>
  At most one message in a step: something that is no news to a client expecting \<open>E\<close> (a block
  again, or the end of file), or the next block.
\<close>

definition emits ::
  "nat \<Rightarrow> byte list \<Rightarrow> nat \<Rightarrow> nat \<Rightarrow> nat \<Rightarrow> nat \<Rightarrow> nat \<Rightarrow> server \<Rightarrow> server \<Rightarrow> bool" where
  "emits b F lo C E lo' C' s s' \<longleftrightarrow> lo \<le> lo' \<and> lo' \<le> E \<and> C \<le> C' \<and>
     (\<exists>ms out. net_out s' = net_out s @ out \<and> transmits ms out \<and>
        (ms = [] \<or> (\<exists>m. ms = [m] \<and> data_fits b F lo' C' m
           \<and> (unat (fst (snd m)) \<le> E \<or> unat (fst (snd m)) = C))))"

text \<open>The lower edge moves to the number in the message that was taken.\<close>

definition lower_from :: "byte list \<Rightarrow> nat \<Rightarrow> nat \<Rightarrow> bool" where
  "lower_from d lo lo' \<longleftrightarrow> lo' = lo \<or> (\<exists>m. dec d = Some m \<and> ack_val m = Some lo')"

lemma emits_nothing: "lo \<le> lo' \<Longrightarrow> lo' \<le> E \<Longrightarrow> net_out s' = net_out s \<Longrightarrow> emits b F lo C E lo' C s s'"
  unfolding emits_def by (auto intro!: exI [of _ "[]"])

lemma emits_sent:
  assumes "srv_core n b F lo C s0" "sent [m] s0 s'" "net_out s0 = net_out s" "data_fits b F lo C m"
    "unat (fst (snd m)) \<le> E" "lo \<le> E"
  shows "emits b F lo C E lo C s s'"
  using srv_core_sent [OF assms(1,2)] assms(3-6) unfolding emits_def by fastforce

section \<open>Responses\<close>

definition resp_core ::
  "nat \<Rightarrow> nat \<Rightarrow> byte list \<Rightarrow> nat \<Rightarrow> nat \<Rightarrow> nat \<Rightarrow> byte list \<Rightarrow> event list \<Rightarrow> server \<Rightarrow> nat \<Rightarrow> server \<Rightarrow> bool"
  where
  "resp_core n b F lo C E d es s lo' s' \<longleftrightarrow> srv_core n b F lo' C s' \<and> net_in s' = es
     \<and> atEOF s' = atEOF s \<and> waitingForLastRR s' = waitingForLastRR s
     \<and> emits b F lo C E lo' C s s' \<and> lower_from d lo lo'"

text \<open>\<open>processResponse\<close> once the PDU has been retrieved.\<close>

definition response_act ::
  "bool \<Rightarrow> u32 \<Rightarrow> byte \<Rightarrow> crc_status \<Rightarrow> byte list \<Rightarrow> server \<Rightarrow> (server, bool) outcome" where
  "response_act waiting lastSeqNum flag checksumResult payload s =
     (let targetSeqNum = ntohl (word32 (take 4 payload)) in
     if checksumResult = CRC_ERROR then Ret waiting s
     else if flag = flag_code SREJ then
       bindO (liftO (getDataFromWindow targetSeqNum (replicate MAX_PAYLOAD_SIZE 0) (win s)) s)
         (\<lambda>(data, dataLen) s.
       bindO (sendPDU (clientConn s) data dataLen (flag_code RESENT_DATA_SREJ) targetSeqNum s)
         (\<lambda>_. Ret waiting))
     else if flag = flag_code RR then
       Ret (if targetSeqNum - 1 = lastSeqNum then False else waiting)
         (s\<lparr>win := updateLower targetSeqNum (win s)\<rparr>)
     else if flag = flag_code EOF_ACK then Stop (Exit 0) s
     else Ret waiting s)"

lemma processResponse_eq:
  assumes "net_in s = ts @ Arrive a d # es" "set ts \<subseteq> {Timeout, Hangup}" "dgram_ok d"
  shows "processResponse w q s = response_act w q (d ! 6) (crc_of d)
    (drop 7 d @ drop (length d - 7) (replicate MAX_PAYLOAD_SIZE 0))
    (s\<lparr>net_in := es, clientConn := (clientConn s)\<lparr>info := a\<rparr>\<rparr>)"
proof -
  have "retrievePDU (clientConn s) (replicate MAX_PAYLOAD_SIZE 0) s =
      Ret ((clientConn s)\<lparr>info := a\<rparr>, d ! 6, ntohl (word32 (take 4 d)), crc_of d,
        drop 7 d @ drop (length d - 7) (replicate MAX_PAYLOAD_SIZE 0), int (length d) - 7) (s\<lparr>net_in := es\<rparr>)"
    by (rule retrievePDU_result [OF assms(2,1,3)]) simp
  then show ?thesis unfolding processResponse_def response_act_def by (simp add: Let_def)
qed

lemma srv_core_updateLower:
  assumes core: "srv_core n b F lo C s" and N: "sizes_ok n b F" and v: "lo \<le> v" "v \<le> C"
  shows "srv_core n b F v C (s\<lparr>win := updateLower (of_nat v) (win s)\<rparr>)"
proof -
  have w: "win_ok (win s)" "win_cap (win s) = n" and small: "v + win_cap (win s) < 2 ^ 31"
    using core N v by (auto simp: srv_core_def sizes_ok_def)
  note u = updateLower_ok [OF w(1) small]
  have "win_holds n b F C (updateLower (of_nat v) (win s))"
    using core u by (simp add: srv_core_def win_holds_def)
  with core u w v show ?thesis by (auto simp: srv_core_def proc_ok_def)
qed

lemma send_block:
  assumes core: "srv_core n b F lo C s" and d: "length d \<le> MAX_PAYLOAD_SIZE"
  shows "ends (sendPDU (clientConn s) (d @ drop (length d) (replicate MAX_PAYLOAD_SIZE 0)) (int (length d)) f q s)
    (\<lambda>_. sent [(f, q, d)] s) (sent [(f, q, d)] s)"
  using core d by (intro sendPDU_ends) (auto simp: srv_core_def proc_ok_def)

lemma data_fits_block:
  assumes "v < C" "v < 2 ^ 31" "sizes_ok n b F" "f \<noteq> flag_code END_OF_FILE"
  shows "data_fits b F lo C (f, of_nat v, chunk b F v)"
  using assms length_chunk_le [of b F v] by (auto simp: data_fits_def sizes_ok_def unat_seq)

lemma ack_val_ntohl:
  assumes "ack_val (f, q, pl) = Some v" "4 \<le> length pl"
  shows "ntohl (word32 (take 4 (pl @ xs))) = of_nat v"
  using assms by (auto simp: ack_val.simps split: if_splits)

lemma processResponse_ok:
  assumes core: "srv_core n b F lo C s" and N: "sizes_ok n b F" and E: "lo \<le> E" "E \<le> C"
    and net: "net_in s = ts @ Arrive a d # es" "set ts \<subseteq> {Timeout, Hangup}" "dgram_ok d"
    and fits: "\<And>m. dec d = Some m \<Longrightarrow> ack_fits lo E C m"
  shows "ends (processResponse w q s)
    (\<lambda>w' s'. \<exists>lo'. resp_core n b F lo C E d es s lo' s' \<and> (w' = w \<or> \<not> w' \<and> of_nat lo' - 1 = q))
    (\<lambda>s'. \<exists>lo'. resp_core n b F lo C E d es s lo' s')"
proof -
  let ?s = "s\<lparr>net_in := es, clientConn := (clientConn s)\<lparr>info := a\<rparr>\<rparr>"
  let ?pl = "drop 7 d @ drop (length d - 7) (replicate MAX_PAYLOAD_SIZE 0)"
  have core': "srv_core n b F lo C ?s" using core by simp
  have same: "resp_core n b F lo C E d es s lo ?s"
    using core' E(1) by (auto simp: resp_core_def lower_from_def intro!: emits_nothing)
  note eq = processResponse_eq [OF net]
  show ?thesis
  proof (cases "in_cksum d = 0")
    case False
    then have "processResponse w q s = Ret w ?s"
      unfolding eq by (simp add: response_act_def crc_of_def Let_def)
    with same show ?thesis by auto
  next
    case True
    let ?m = "(d ! 6, ntohl (word32 (take 4 d)), drop 7 d)"
    have dec: "dec d = Some ?m" using True net(3) by (simp add: dec_def)
    note f = fits [OF dec, unfolded ack_fits_def, rule_format]
    consider v where "d ! 6 = flag_code SREJ" "ack_val ?m = Some v"
      | v where "d ! 6 = flag_code RR" "ack_val ?m = Some v" | "d ! 6 = flag_code EOF_ACK"
      | "d ! 6 \<noteq> flag_code SREJ" "d ! 6 \<noteq> flag_code RR" "d ! 6 \<noteq> flag_code EOF_ACK"
      by (auto simp: ack_val.simps)
    then show ?thesis
    proof cases
      case (1 v)
      have v: "lo \<le> v" "v \<le> E" "v < C" "4 \<le> length (drop 7 d)" using f [OF 1(2)] 1(1) by auto
      have t: "ntohl (word32 (take 4 ?pl)) = of_nat v" using ack_val_ntohl [OF 1(2) v(4)] .
      have small: "v < 2 ^ 31" using v srv_core_small [OF core N] by simp
      let ?blk = "chunk b F v"
      have len: "length ?blk \<le> MAX_PAYLOAD_SIZE"
        using N length_chunk_le [of b F v] by (simp add: sizes_ok_def)
      have "getDataFromWindow (of_nat v) (replicate MAX_PAYLOAD_SIZE 0) (win ?s) =
          Inr (?blk @ drop (length ?blk) (replicate MAX_PAYLOAD_SIZE 0), int (length ?blk))"
        using getDataFromWindow_ok [OF _ small _ block_look [OF core' v(1,3)]] core'
        by (simp add: srv_core_def)
      then have "processResponse w q s = bindO (sendPDU (clientConn ?s)
          (?blk @ drop (length ?blk) (replicate MAX_PAYLOAD_SIZE 0)) (int (length ?blk))
          (flag_code RESENT_DATA_SREJ) (of_nat v) ?s) (\<lambda>_. Ret w)"
        unfolding eq response_act_def Let_def t using 1 True by (simp add: crc_of_def)
      moreover have rc: "resp_core n b F lo C E d es s lo s'"
        if sn: "sent [(flag_code RESENT_DATA_SREJ, of_nat v, ?blk)] ?s s'" for s'
      proof -
        have "data_fits b F lo C (flag_code RESENT_DATA_SREJ, of_nat v, ?blk)"
          by (rule data_fits_block [OF v(3) small N]) simp
        then have "emits b F lo C E lo C s s'"
          by (rule emits_sent [OF core' sn _ _ _ E(1), of s, rotated]) (use v small in \<open>simp_all add: unat_seq\<close>)
        with srv_core_sent [OF core' sn] show ?thesis
          by (simp add: resp_core_def lower_from_def)
      qed
      ultimately show ?thesis
        using send_block [OF core' len, of "flag_code RESENT_DATA_SREJ" "of_nat v"]
        by (auto intro!: ends_bindO exI [of _ lo] rc elim!: ends_mono)
    next
      case (2 v)
      have v: "lo \<le> v" "v \<le> E" "4 \<le> length (drop 7 d)" using f [OF 2(2)] by auto
      have t: "ntohl (word32 (take 4 ?pl)) = of_nat v" using ack_val_ntohl [OF 2(2) v(3)] .
      let ?s' = "?s\<lparr>win := updateLower (of_nat v) (win ?s)\<rparr>"
      have "processResponse w q s = Ret (if of_nat v - 1 = q then False else w) ?s'"
        unfolding eq response_act_def Let_def t using 2 True by (simp add: crc_of_def)
      moreover have "srv_core n b F v C ?s'"
        using v(2) E(2) by (intro srv_core_updateLower [OF core' N v(1)]) simp
      then have "resp_core n b F lo C E d es s v ?s'"
        using v dec 2(2) unfolding resp_core_def lower_from_def by (auto intro!: emits_nothing)
      ultimately show ?thesis by auto
    next
      case 3
      then have "processResponse w q s = Stop (Exit 0) ?s"
        unfolding eq response_act_def Let_def using True by (simp add: crc_of_def)
      with same show ?thesis by auto
    next
      case 4
      then have "processResponse w q s = Ret w ?s"
        unfolding eq response_act_def Let_def using True by (simp add: crc_of_def)
      with same show ?thesis by auto
    qed
  qed
qed

section \<open>One small step\<close>

text \<open>Where the flags stand at each point of the child.\<close>

fun pc_ok :: "server_pc \<Rightarrow> nat \<Rightarrow> nat \<Rightarrow> server \<Rightarrow> bool" where
  "pc_ok (At WAIT_ON_FILENAME_OK_ACK) lo C s \<longleftrightarrow> \<not> atEOF s \<and> \<not> waitingForLastRR s"
| "pc_ok (At SEND_DATA) lo C s \<longleftrightarrow> \<not> atEOF s \<and> \<not> waitingForLastRR s"
| "pc_ok Fill lo C s \<longleftrightarrow> \<not> waitingForLastRR s"
| "pc_ok FillPoll lo C s \<longleftrightarrow> \<not> waitingForLastRR s"
| "pc_ok (Wait n) lo C s \<longleftrightarrow> (atEOF s \<and> \<not> waitingForLastRR s \<longrightarrow> lo = C)"
| "pc_ok (At SEND_EOF) lo C s \<longleftrightarrow> atEOF s \<and> \<not> waitingForLastRR s \<and> lo = C"
| "pc_ok EofPoll lo C s \<longleftrightarrow> atEOF s \<and> \<not> waitingForLastRR s \<and> lo = C"
| "pc_ok (At DONE_SERVER) lo C s \<longleftrightarrow> True"
| "pc_ok (At st) lo C s \<longleftrightarrow> False"

text \<open>The reports taken in a step contain at most one message.\<close>

definition took :: "event list \<Rightarrow> event list \<Rightarrow> nat \<Rightarrow> nat \<Rightarrow> bool" where
  "took es es' lo lo' \<longleftrightarrow> ins_ok es' \<and> (\<exists>taken. msgs_in es = taken @ msgs_in es' \<and> length taken \<le> 1
     \<and> (lo' = lo \<or> (\<exists>m. taken = [m] \<and> ack_val m = Some lo')))"

lemma took_refl: "ins_ok es \<Longrightarrow> took es es lo lo"
  by (simp add: took_def)

lemma took_datagram:
  assumes "ins_ok (ts @ Arrive a d # es)" "lower_from d lo lo'" "set ts \<subseteq> {Timeout, Hangup}"
  shows "took (ts @ Arrive a d # es) es lo lo'"
proof -
  have "msgs_in ts = []" using assms(3) by (induction ts) auto
  with assms(1,2) show ?thesis
    by (cases "dec d") (auto simp: took_def lower_from_def simp del: split_paired_Ex)
qed

definition step_core ::
  "nat \<Rightarrow> nat \<Rightarrow> byte list \<Rightarrow> nat \<Rightarrow> nat \<Rightarrow> nat \<Rightarrow> server \<Rightarrow> nat \<Rightarrow> nat \<Rightarrow> server \<Rightarrow> bool" where
  "step_core n b F lo C E s lo' C' s' \<longleftrightarrow> srv_core n b F lo' C' s'
     \<and> emits b F lo C E lo' C' s s' \<and> took (net_in s) (net_in s') lo lo'"

lemma step_coreI:
  assumes "srv_core n b F lo C s'" "net_out s' = net_out s" "ins_ok (net_in s')"
    "msgs_in (net_in s') = msgs_in (net_in s)" "lo \<le> E"
  shows "step_core n b F lo C E s lo C s'"
  using assms by (auto simp: step_core_def took_def intro: emits_nothing)

text \<open>A response within \<open>sendData\<close>, where the flag is the static variable.\<close>

lemma respond_ok:
  assumes core: "srv_core n b F lo C s" and N: "sizes_ok n b F" and E: "lo \<le> E" "E \<le> C"
    and net: "net_in s = ts @ Arrive a d # es" "set ts \<subseteq> {Timeout, Hangup}" "ins_ok (net_in s)"
    and acks: "acks_ok lo E C (msgs_in (net_in s))"
  shows "ends (respond s)
    (\<lambda>_ s'. \<exists>lo'. step_core n b F lo C E s lo' C s' \<and> atEOF s' = atEOF s
      \<and> (waitingForLastRR s' = waitingForLastRR s \<and> (lo = C \<longrightarrow> lo' = C)
         \<or> \<not> waitingForLastRR s' \<and> (atEOF s \<longrightarrow> lo' = C)))
    (\<lambda>s'. \<exists>lo'. step_core n b F lo C E s lo' C s')"
proof -
  have d: "dgram_ok d" using net by simp
  have fits: "ack_fits lo E C m" if "dec d = Some m" for m
    using acks net(1,2) that by (simp add: acks_ok_def timeouts_only)
  have step: "step_core n b F lo C E s lo' C s'" if "resp_core n b F lo C E d es s lo' s'" for lo' s'
    using that took_datagram [of ts a d es lo lo'] net by (simp add: resp_core_def step_core_def)
  have small: "C < 2 ^ 31" using srv_core_small [OF core N] by simp
  show ?thesis
    unfolding respond_def
  proof (rule ends_bindO, rule ends_mono [OF processResponse_ok [OF core N E net(1,2) d fits]])
    fix w' s'
    assume "\<exists>lo'. resp_core n b F lo C E d es s lo' s' \<and>
      (w' = waitingForLastRR s \<or> \<not> w' \<and> of_nat lo' - 1 = lastDataSeqNum s)"
    then obtain lo' where rc: "resp_core n b F lo C E d es s lo' s'"
      and w: "w' = waitingForLastRR s \<or> \<not> w' \<and> of_nat lo' - 1 = lastDataSeqNum s" by blast
    note st = step [OF rc]
    have bounds: "lo \<le> lo'" "lo' \<le> E" using st by (auto simp: step_core_def emits_def)
    have core': "srv_core n b F lo' C (s'\<lparr>waitingForLastRR := w'\<rparr>)"
      using st w rc by (auto simp: step_core_def srv_core_def proc_ok_def resp_core_def)
    have "step_core n b F lo C E s lo' C (s'\<lparr>waitingForLastRR := w'\<rparr>)"
      using st core' by (simp add: step_core_def emits_def)
    moreover have "lo' = C" if "atEOF s" "of_nat lo' - 1 = lastDataSeqNum s"
    proof -
      have "of_nat lo' = (of_nat C :: u32)" using that core by (simp add: srv_core_def)
      with small bounds E show ?thesis using seq_eq [of lo' C] by simp
    qed
    moreover have "lo = C \<longrightarrow> lo' = C" using bounds E by simp
    ultimately show "ends (Ret () (s'\<lparr>waitingForLastRR := w'\<rparr>))
      (\<lambda>_ s'. \<exists>lo'. step_core n b F lo C E s lo' C s' \<and> atEOF s' = atEOF s
        \<and> (waitingForLastRR s' = waitingForLastRR s \<and> (lo = C \<longrightarrow> lo' = C)
           \<or> \<not> waitingForLastRR s' \<and> (atEOF s \<longrightarrow> lo' = C)))
      (\<lambda>s'. \<exists>lo'. step_core n b F lo C E s lo' C s')"
      using w rc by (auto simp: resp_core_def intro!: exI [of _ lo'])
  qed (assumption, elim exE, rule exI, erule step)
qed

text \<open>What is left to know of a server that has stopped.\<close>

definition stop_core :: "nat \<Rightarrow> nat \<Rightarrow> byte list \<Rightarrow> nat \<Rightarrow> nat \<Rightarrow> nat \<Rightarrow> server \<Rightarrow> server \<Rightarrow> bool" where
  "stop_core n b F lo C E s s' \<longleftrightarrow> (\<exists>lo' C'. emits b F lo C E lo' C' s s' \<and> lo' \<le> C' \<and> C' \<le> lo' + n
     \<and> C' \<le> nchunks b F)"

lemma step_core_skip:
  assumes "net_in s = e # es" "e \<in> {Timeout, Hangup}"
  shows "step_core n b F lo C E (s\<lparr>net_in := es\<rparr>) lo' C' s' \<longleftrightarrow> step_core n b F lo C E s lo' C' s'"
    "stop_core n b F lo C E (s\<lparr>net_in := es\<rparr>) s' \<longleftrightarrow> stop_core n b F lo C E s s'"
proof -
  have "msgs_in (net_in s) = msgs_in es" using assms by auto
  moreover have "emits b F lo C E lo' C' (s\<lparr>net_in := es\<rparr>) s' \<longleftrightarrow> emits b F lo C E lo' C' s s'" for lo' C'
    by (simp add: emits_def)
  ultimately show "step_core n b F lo C E (s\<lparr>net_in := es\<rparr>) lo' C' s' \<longleftrightarrow> step_core n b F lo C E s lo' C' s'"
    "stop_core n b F lo C E (s\<lparr>net_in := es\<rparr>) s' \<longleftrightarrow> stop_core n b F lo C E s s'"
    by (simp_all add: step_core_def stop_core_def took_def)
qed

lemma step_core_stop: "step_core n b F lo C E s lo' C' s' \<Longrightarrow> stop_core n b F lo C E s s'"
  by (auto simp: step_core_def stop_core_def srv_core_def)

lemma win_holds_add:
  assumes holds: "win_holds n b F C w" and cap: "win_cap w = n" "win_cap w' = n" and n: "0 < n"
    and look: "\<And>j. win_look j w' = (if j mod n = C mod n then Some (of_nat C, chunk b F C) else win_look j w)"
  shows "win_holds n b F (Suc C) w'"
  unfolding win_holds_def
proof (intro conjI allI impI)
  fix k assume k: "k < Suc C" "Suc C \<le> k + n"
  show "win_look k w' = Some (of_nat k, chunk b F k)"
  proof (cases "k = C")
    case False
    then have "k mod n \<noteq> C mod n" using mod_window_inj [of k n C k] k by auto
    with k False holds show ?thesis by (simp add: look win_holds_def)
  qed (simp add: look)
next
  fix k assume k: "Suc C \<le> k" "k < n"
  then have "k mod n \<noteq> C mod n" by simp
  with k holds show "win_look k w' = Some (0, [])" by (simp add: look win_holds_def)
qed

text \<open>
  The same without the lower edge: the child is about to read block \<open>C\<close>, and the window holds the
  last \<open>n\<close> blocks, whatever it counts as acknowledged.
\<close>

definition at_block :: "nat \<Rightarrow> nat \<Rightarrow> byte list \<Rightarrow> nat \<Rightarrow> server \<Rightarrow> bool" where
  "at_block n b F C s \<longleftrightarrow> win_ok (win s) \<and> win_cap (win s) = n \<and> current (win s) = int C
     \<and> serverSeqNum s = of_nat C \<and> srvBufferSize s = of_nat b \<and> fileLeft s = drop (C * b) F
     \<and> win_holds n b F C (win s)"

lemma srv_core_at_block: "srv_core n b F lo C s \<Longrightarrow> at_block n b F C s"
  by (simp add: srv_core_def at_block_def)

lemma read_at_block:
  assumes core: "at_block n b F C s" and N: "sizes_ok n b F" and ok: "read_errs s = [] \<or> \<not> hd (read_errs s)"
  shows "read_file s = Ret (int (length (chunk b F C)), chunk b F C)
    (s\<lparr>read_errs := drop 1 (read_errs s), fileLeft := drop (Suc C * b) F\<rparr>)"
proof -
  have b: "srvBufferSize s = of_nat b" "fileLeft s = drop (C * b) F" "b < 2 ^ 31" "b \<le> MAX_PAYLOAD_SIZE"
    using core N by (auto simp: at_block_def sizes_ok_def)
  from read_file_eq [OF ok] obtain m where m: "m = min b (length (fileLeft s))"
    and eq: "read_file s = (let s' = s\<lparr>read_errs := drop 1 (read_errs s), fileLeft := drop m (fileLeft s)\<rparr> in
      if MAX_PAYLOAD_SIZE < m then Stop (Fault OutOfBounds) s' else Ret (int m, take m (fileLeft s)) s')"
    using b by (auto simp: s32_seq)
  have "take m (fileLeft s) = chunk b F C" "m = length (chunk b F C)"
    using m b(2) by (simp_all add: chunk_def min_def)
  moreover have "drop m (fileLeft s) = drop (Suc C * b) F"
    using m b(2) by (cases "b \<le> length (fileLeft s)") (auto simp: add.commute)
  moreover have "m \<le> MAX_PAYLOAD_SIZE" using m b(4) by simp
  ultimately show ?thesis unfolding eq by (simp add: Let_def)
qed

lemmas read_block = read_at_block [OF srv_core_at_block]

lemma fill_send_at_block:
  assumes core: "at_block n b F C s" and N: "sizes_ok n b F" and open_: "isWindowOpen (win s)"
    and rd: "read_errs s = [] \<or> \<not> hd (read_errs s)" and CN: "C < nchunks b F"
  shows "\<exists>w'. fill_send s = bindO (sendPDU (clientConn s)
        (chunk b F C @ replicate (MAX_PAYLOAD_SIZE - length (chunk b F C)) 0) (int (length (chunk b F C)))
        (flag_code DATA) (of_nat C)
        (s\<lparr>read_errs := drop 1 (read_errs s), fileLeft := drop (Suc C * b) F, win := w'\<rparr>))
      (\<lambda>_ s. Ret False (s\<lparr>serverSeqNum := serverSeqNum s + 1\<rparr>))
    \<and> at_block n b F (Suc C) (s\<lparr>read_errs := drop 1 (read_errs s), fileLeft := drop (Suc C * b) F,
        win := w', serverSeqNum := serverSeqNum s + 1\<rparr>)
    \<and> lower w' = lower (win s) \<and> upper w' = upper (win s)"
proof -
  note rd = read_at_block [OF core N rd]
  let ?s = "s\<lparr>read_errs := drop 1 (read_errs s), fileLeft := drop (Suc C * b) F\<rparr>" and ?blk = "chunk b F C"
  let ?pl = "?blk @ replicate (MAX_PAYLOAD_SIZE - length ?blk) 0"
  have b: "0 < b" "0 < n" "b \<le> MAX_PAYLOAD_SIZE" using N by (auto simp: sizes_ok_def)
  have len: "length ?blk \<le> MAX_PAYLOAD_SIZE" using length_chunk_le [of b F C] b by simp
  have C: "C < 2 ^ 31" using CN N by (simp add: sizes_ok_def)
  have ne: "?blk \<noteq> []" using chunk_empty_iff [OF b(1), of F C] CN by simp
  have w: "win_ok (win s)" "win_cap (win s) = n" using core by (simp_all add: at_block_def)
  obtain w' where add: "addDataToWindow (of_nat C) ?pl (int (length ?blk)) (win s) = Inr w'"
    and w': "win_ok w'" "current w' = wrap32 (current (win s) + 1)" "lower w' = lower (win s)"
      "upper w' = upper (win s)" "win_cap w' = n"
    and look: "\<And>j. win_look j w' = (if j mod n = C mod n then Some (of_nat C, ?blk) else win_look j (win s))"
    using addDataToWindow_ok [OF w(1) open_ C, of "length ?blk" ?pl] len w(2) by (auto simp: win_cap_def)
  have cur: "wrap32 (int C + 1) = int (Suc C)"
    using CN N by (subst wrap32_seq) (auto simp: sizes_ok_def)
  have "at_block n b F (Suc C) (?s\<lparr>win := w', serverSeqNum := serverSeqNum s + 1\<rparr>)"
    using core w' cur win_holds_add [OF _ w(2) w'(5) b(2) look] by (simp add: at_block_def)
  moreover have "fill_send s = bindO (sendPDU (clientConn s) ?pl (int (length ?blk)) (flag_code DATA) (of_nat C)
      (?s\<lparr>win := w'\<rparr>)) (\<lambda>_ s. Ret False (s\<lparr>serverSeqNum := serverSeqNum s + 1\<rparr>))"
    using rd ne add core by (simp add: fill_send_def at_block_def Let_def)
  ultimately show ?thesis using w'(3,4) by blast
qed

lemma fill_send_block:
  assumes core: "srv_core n b F lo C s" and N: "sizes_ok n b F" and open_: "C < lo + n"
    and fl: "\<not> atEOF s" and rd: "read_errs s = [] \<or> \<not> hd (read_errs s)" and CN: "C < nchunks b F"
  shows "\<exists>w'. fill_send s = bindO (sendPDU (clientConn s)
        (chunk b F C @ replicate (MAX_PAYLOAD_SIZE - length (chunk b F C)) 0) (int (length (chunk b F C)))
        (flag_code DATA) (of_nat C)
        (s\<lparr>read_errs := drop 1 (read_errs s), fileLeft := drop (Suc C * b) F, win := w'\<rparr>))
      (\<lambda>_ s. Ret False (s\<lparr>serverSeqNum := serverSeqNum s + 1\<rparr>))
    \<and> srv_core n b F lo (Suc C) (s\<lparr>read_errs := drop 1 (read_errs s), fileLeft := drop (Suc C * b) F,
        win := w', serverSeqNum := serverSeqNum s + 1\<rparr>)"
proof -
  have "isWindowOpen (win s)" using win_closed_iff(2) [OF core] open_ by simp
  from fill_send_at_block [OF srv_core_at_block [OF core] N this rd CN] core fl open_ CN show ?thesis
    by (auto simp: at_block_def srv_core_def proc_ok_def)
qed

lemma fill_send_ok:
  assumes core: "srv_core n b F lo C s" and N: "sizes_ok n b F" and E: "lo \<le> E" "E \<le> C"
    and open_: "C < lo + n" and fl: "\<not> atEOF s" "\<not> waitingForLastRR s" and ins: "ins_ok (net_in s)"
  shows "ends (fill_send s)
    (\<lambda>quit s'. \<exists>C'. step_core n b F lo C E s lo C' s' \<and> \<not> waitingForLastRR s')
    (stop_core n b F lo C E s)"
proof (cases "read_errs s = [] \<or> \<not> hd (read_errs s)")
  case False
  then obtain es where "read_errs s = True # es" by (cases "read_errs s") auto
  then have "fill_send s = Ret True (s\<lparr>read_errs := es\<rparr>)" by (simp add: fill_send_def read_file_def)
  moreover have "step_core n b F lo C E s lo C (s\<lparr>read_errs := es\<rparr>)"
    using core ins E by (intro step_coreI) simp_all
  ultimately show ?thesis using fl by auto
next
  case True
  note rd = read_block [OF core N True]
  let ?s = "s\<lparr>read_errs := drop 1 (read_errs s), fileLeft := drop (Suc C * b) F\<rparr>" and ?blk = "chunk b F C"
  have b: "0 < b" "0 < n" "b \<le> MAX_PAYLOAD_SIZE" using N by (auto simp: sizes_ok_def)
  have len: "length ?blk \<le> MAX_PAYLOAD_SIZE" using length_chunk_le [of b F C] b by simp
  have C: "C < 2 ^ 31" "C \<le> nchunks b F" using srv_core_small [OF core N] by simp_all
  show ?thesis
  proof (cases "?blk = []")
    case True
    then have CN: "C = nchunks b F" using chunk_empty_iff [OF b(1), of F C] C by simp
    let ?s' = "?s\<lparr>atEOF := True, lastDataSeqNum := serverSeqNum ?s - 1\<rparr>"
    have "fill_send s = Ret False ?s'" using True rd by (simp add: fill_send_def)
    moreover have "drop (b + C * b) F = drop (C * b) F"
      using True b(1) by (auto simp: chunk_def)
    then have "srv_core n b F lo C ?s'" using core CN fl by (auto simp: srv_core_def proc_ok_def)
    then have "step_core n b F lo C E s lo C ?s'" using ins E by (intro step_coreI) simp_all
    ultimately show ?thesis using fl by auto
  next
    case False
    then have CN: "C < nchunks b F" using chunk_empty_iff [OF b(1), of F C] by simp
    let ?pl = "?blk @ replicate (MAX_PAYLOAD_SIZE - length ?blk) 0"
    obtain w' where eq: "fill_send s = bindO (sendPDU (clientConn s) ?pl (int (length ?blk)) (flag_code DATA)
        (of_nat C) (?s\<lparr>win := w'\<rparr>)) (\<lambda>_ s. Ret False (s\<lparr>serverSeqNum := serverSeqNum s + 1\<rparr>))"
      and core': "srv_core n b F lo (Suc C) (?s\<lparr>win := w', serverSeqNum := serverSeqNum s + 1\<rparr>)"
      using fill_send_block [OF core N open_ fl(1) True CN] by blast
    have pm: "pm_ok (pm (?s\<lparr>win := w'\<rparr>))" using core by (simp add: srv_core_def proc_ok_def)
    have send: "ends (sendPDU (clientConn s) ?pl (int (length ?blk)) (flag_code DATA) (of_nat C) (?s\<lparr>win := w'\<rparr>))
      (\<lambda>_. sent [(flag_code DATA, of_nat C, ?blk)] (?s\<lparr>win := w'\<rparr>))
      (sent [(flag_code DATA, of_nat C, ?blk)] (?s\<lparr>win := w'\<rparr>))"
      by (rule sendPDU_ends [OF pm]) (use len in simp_all)
    have fits: "data_fits b F lo (Suc C) (flag_code DATA, of_nat C, ?blk)"
      by (rule data_fits_block [OF _ C(1) N]) simp_all
    have em: "emits b F lo C E lo (Suc C) s s' \<and> net_in s' = net_in s \<and>
        srv_core n b F lo (Suc C) (s'\<lparr>serverSeqNum := serverSeqNum s' + 1\<rparr>) \<and>
        waitingForLastRR s' = waitingForLastRR s"
      if sn: "sent [(flag_code DATA, of_nat C, ?blk)] (?s\<lparr>win := w'\<rparr>) s'" for s'
    proof -
      from sn obtain out fs pm' where t: "transmits [(flag_code DATA, of_nat C, ?blk)] out" "pm_ok pm'"
        and s': "s' = ?s\<lparr>win := w', pm := pm', net_out := net_out s @ out, send_errs := fs\<rparr>"
        by (auto simp: sent_def sent_state_def)
      have "srv_core n b F lo (Suc C) (s'\<lparr>serverSeqNum := serverSeqNum s' + 1\<rparr>)"
        using core' t(2) fl unfolding s' by (auto simp: srv_core_def proc_ok_def)
      moreover have "emits b F lo C E lo (Suc C) s s'"
        using t(1) fits E C(1) unfolding emits_def s'
        by (auto simp: unat_seq intro!: exI [of _ "[(flag_code DATA, of_nat C, ?blk)]"])
      ultimately show ?thesis unfolding s' by simp
    qed
    have stop: "stop_core n b F lo C E s s'"
      if "sent [(flag_code DATA, of_nat C, ?blk)] (?s\<lparr>win := w'\<rparr>) s'" for s'
      using em [OF that] E CN open_ unfolding stop_core_def by (intro exI [of _ lo] exI [of _ "Suc C"]) simp
    have ret: "step_core n b F lo C E s lo (Suc C) (s'\<lparr>serverSeqNum := serverSeqNum s' + 1\<rparr>)
        \<and> \<not> waitingForLastRR (s'\<lparr>serverSeqNum := serverSeqNum s' + 1\<rparr>)"
      if "sent [(flag_code DATA, of_nat C, ?blk)] (?s\<lparr>win := w'\<rparr>) s'" for s'
      using em [OF that] ins fl by (simp add: step_core_def emits_def took_refl)
    show ?thesis
      unfolding eq by (rule ends_bindO, rule ends_mono [OF send]) (use stop ret in auto)
  qed
qed

lemma fill_poll_ok:
  assumes core: "srv_core n b F lo C s" and N: "sizes_ok n b F" and E: "lo \<le> E" "E \<le> C"
    and fl: "\<not> waitingForLastRR s" and ins: "ins_ok (net_in s)" "net_in s \<noteq> []"
    and ready: "\<And>es. net_in s = Hangup # es \<Longrightarrow> arrived es \<noteq> []"
    and acks: "acks_ok lo E C (msgs_in (net_in s))"
  shows "ends (fill_poll s)
    (\<lambda>_ s'. \<exists>lo'. step_core n b F lo C E s lo' C s' \<and> \<not> waitingForLastRR s')
    (stop_core n b F lo C E s)"
proof -
  have ok: "proc_ok s" using core by (simp add: srv_core_def)
  from ins obtain e es where es: "net_in s = e # es" by (cases "net_in s") auto
  show ?thesis
  proof (cases e)
    case Timeout
    then have net: "net_in s = Timeout # es" using es by simp
    have "fill_poll s = Ret () (s\<lparr>net_in := es\<rparr>)"
      using pollCall_timeout [OF net, of 0] by (simp add: fill_poll_def)
    moreover have "step_core n b F lo C E s lo C (s\<lparr>net_in := es\<rparr>)"
      using core ins(1) net E by (intro step_coreI) simp_all
    ultimately show ?thesis using fl by auto
  next
    case (Arrive a d)
    then have net: "net_in s = Arrive a d # es" using es by simp
    have "0 < udp_sock s" using ok by (simp add: proc_ok_def)
    then have eq: "fill_poll s = respond s"
      using pollCall_ready [OF ok net, of 0] by (simp add: fill_poll_def)
    have net': "net_in s = [] @ Arrive a d # es" "set [] \<subseteq> {Timeout, Hangup}" using net by simp_all
    show ?thesis
      unfolding eq by (rule ends_mono [OF respond_ok [OF core N E net' ins(1) acks]])
        (use fl in \<open>auto dest: step_core_stop\<close>)
  next
    case Hangup
    then have net: "net_in s = Hangup # es" using es by simp
    let ?s = "s\<lparr>net_in := es\<rparr>"
    have ins': "ins_ok es" and acks': "acks_ok lo E C (msgs_in es)" and ne: "arrived es \<noteq> []"
      using ins acks ready net by auto
    have eq: "fill_poll s = respond ?s"
      using pollCall_hangup [OF ok net, of 0] by (simp add: fill_poll_def)
    have core': "srv_core n b F lo C ?s" using core by simp
    from ins' show ?thesis
    proof (cases rule: ins_cases)
      case (1 ts a d es')
      then have "net_in ?s = ts @ Arrive a d # es'" by simp
      from respond_ok [OF core' N E this 1(2)] ins' acks' have "ends (respond ?s)
        (\<lambda>_ s'. \<exists>lo'. step_core n b F lo C E s lo' C s' \<and> atEOF s' = atEOF s
          \<and> (waitingForLastRR s' = waitingForLastRR s \<and> (lo = C \<longrightarrow> lo' = C)
             \<or> \<not> waitingForLastRR s' \<and> (atEOF s \<longrightarrow> lo' = C)))
        (\<lambda>s'. \<exists>lo'. step_core n b F lo C E s lo' C s')" by (simp add: step_core_skip(1) [OF net])
      then show ?thesis unfolding eq
        by (rule ends_mono) (use fl in \<open>auto dest: step_core_stop\<close>)
    next
      case 2
      with ne show ?thesis by (simp add: timeouts_only)
    qed
  qed (use es ins in simp)
qed

lemma eof_check_ok:
  assumes core: "srv_core n b F lo C s" and N: "sizes_ok n b F" and E: "lo \<le> E"
    and fl: "\<not> waitingForLastRR s" and ins: "ins_ok (net_in s)"
  shows "ends (eof_check s)
    (\<lambda>_ s'. step_core n b F lo C E s lo C s' \<and> pc_ok (Wait 0) lo C s')
    (stop_core n b F lo C E s)"
proof (cases "atEOF s")
  case False
  then have "eof_check s = Ret () s" by (simp add: eof_check_def)
  moreover have "step_core n b F lo C E s lo C s" using core ins E by (intro step_coreI) simp_all
  ultimately show ?thesis using False by simp
next
  case True
  obtain k pl where k: "win_look lo (win s) = Some (of_nat k, pl)" "k \<le> lo"
    and kC: "if lo < C then k = lo else k < lo \<or> C = 0 \<and> k = 0"
    using lowest_slot [OF core N] by (auto split: if_splits)
  have w: "win_ok (win s)" "lower (win s) = int lo" and last: "lastDataSeqNum s + 1 = of_nat C"
    and lo: "lo \<le> C" using core True by (auto simp: srv_core_def)
  have small: "C < 2 ^ 31" "k < 2 ^ 31" using srv_core_small [OF core N] k(2) by simp_all
  have low: "getLowestSeqNum (win s) = Inr (of_nat k)" by (rule getLowestSeqNum_ok [OF w k(1)])
  show ?thesis
  proof (cases "C = k")
    case True
    then have "eof_check s = Ret () s" using low last \<open>atEOF s\<close> by (simp add: eof_check_def)
    moreover have "lo = C" using True k(2) lo by simp
    moreover have "step_core n b F lo C E s lo C s" using core ins E by (intro step_coreI) simp_all
    ultimately show ?thesis by simp
  next
    case False
    then have "(of_nat C :: u32) \<noteq> of_nat k" using seq_eq [OF small] by simp
    then have eq: "eof_check s = Ret () (s\<lparr>waitingForLastRR := True\<rparr>)"
      using low last \<open>atEOF s\<close> by (simp add: eof_check_def)
    have "0 < C" using False kC k(2) lo by (auto split: if_splits)
    then have "srv_core n b F lo C (s\<lparr>waitingForLastRR := True\<rparr>)"
      using core True by (auto simp: srv_core_def proc_ok_def)
    then have "step_core n b F lo C E s lo C (s\<lparr>waitingForLastRR := True\<rparr>)"
      using ins E by (intro step_coreI) simp_all
    then show ?thesis unfolding eq by simp
  qed
qed

text \<open>The resend after a timeout: something the client need not have, but nothing beyond.\<close>

lemma resend_lowest_ok:
  assumes core: "srv_core n b F lo C s" and N: "sizes_ok n b F" and E: "lo \<le> E"
    and C: "0 < C" and ins: "ins_ok (net_in s)"
  shows "ends (wait_act RESEND_LOWEST m s)
    (\<lambda>r s'. r = Some m \<and> step_core n b F lo C E s lo C s' \<and> atEOF s' = atEOF s
      \<and> waitingForLastRR s' = waitingForLastRR s)
    (stop_core n b F lo C E s)"
proof -
  obtain k pl where k: "win_look lo (win s) = Some (of_nat k, pl)" "k \<le> lo" "length pl \<le> MAX_PAYLOAD_SIZE"
    and kC: "if lo < C then k = lo \<and> pl = chunk b F lo else k < lo"
    using lowest_slot [OF core N] C by (auto split: if_splits)
  have w: "win_ok (win s)" "lower (win s) = int lo" and lo: "lo \<le> C"
    using core by (auto simp: srv_core_def)
  have small: "k < 2 ^ 31" using srv_core_small [OF core N] k(2) by simp
  have get: "getLowestSeqNumData (replicate MAX_PAYLOAD_SIZE 0) (win s) =
      Inr (pl @ drop (length pl) (replicate MAX_PAYLOAD_SIZE 0), of_nat k, int (length pl))"
    using getLowestSeqNumData_ok [OF w _ k(1), of "replicate MAX_PAYLOAD_SIZE 0"] by simp
  then have eq: "wait_act RESEND_LOWEST m s = bindO (sendPDU (clientConn s)
      (pl @ drop (length pl) (replicate MAX_PAYLOAD_SIZE 0)) (int (length pl))
      (flag_code RESENT_DATA_TIMEOUT) (of_nat k) s) (\<lambda>_. Ret (Some m))"
    by (simp add: wait_act_def)
  have fits: "data_fits b F lo C (flag_code RESENT_DATA_TIMEOUT, of_nat k, pl)"
    using k kC lo small by (auto simp: data_fits_def unat_seq split: if_splits)
  have step: "step_core n b F lo C E s lo C s' \<and> atEOF s' = atEOF s \<and> waitingForLastRR s' = waitingForLastRR s"
    if sn: "sent [(flag_code RESENT_DATA_TIMEOUT, of_nat k, pl)] s s'" for s'
  proof -
    have "emits b F lo C E lo C s s'"
      by (rule emits_sent [OF core sn _ fits _ E]) (use k E small in \<open>simp_all add: unat_seq\<close>)
    with srv_core_sent [OF core sn] ins show ?thesis by (simp add: step_core_def took_refl)
  qed
  have stop: "stop_core n b F lo C E s s'"
    if "sent [(flag_code RESENT_DATA_TIMEOUT, of_nat k, pl)] s s'" for s'
    using step [OF that] step_core_stop by blast
  show ?thesis
    unfolding eq
    by (rule ends_bindO, rule ends_mono [OF send_block [OF core k(3)]]) (use step stop in auto)
qed

text \<open>Where the child is after a step, together with what it keeps.\<close>

definition step_post ::
  "nat \<Rightarrow> nat \<Rightarrow> byte list \<Rightarrow> nat \<Rightarrow> nat \<Rightarrow> nat \<Rightarrow> server \<Rightarrow> server_pc \<Rightarrow> server \<Rightarrow> bool" where
  "step_post n b F lo C E s pc' s' \<longleftrightarrow> (\<exists>lo' C'. step_core n b F lo C E s lo' C' s' \<and> pc_ok pc' lo' C' s')"

lemma wait_body_ok:
  assumes core: "srv_core n b F lo C s" and N: "sizes_ok n b F" and E: "lo \<le> E" "E \<le> C"
    and pc: "pc_ok (Wait m) lo C s" "isWindowClosed (win s) \<or> waitingForLastRR s"
    and ins: "ins_ok (net_in s)" "net_in s \<noteq> []" and acks: "acks_ok lo E C (msgs_in (net_in s))"
  shows "ends (wait_body m s)
    (\<lambda>r. step_post n b F lo C E s (case r of None \<Rightarrow> At DONE_SERVER | Some k \<Rightarrow> Wait k))
    (stop_core n b F lo C E s)"
proof -
  have ok: "proc_ok s" using core by (simp add: srv_core_def)
  have C: "0 < C" using pc(2) core N win_closed_iff(1) [OF core] by (auto simp: srv_core_def sizes_ok_def)
  from ins obtain e es where es: "net_in s = e # es" by (cases "net_in s") auto
  consider (timer) "e \<in> {Timeout, Hangup}" | (arrive) a d where "e = Arrive a d" | "e = SysErr" by (cases e) auto
  then show ?thesis
  proof cases
    case timer
    let ?s = "s\<lparr>net_in := es\<rparr>"
    have ins': "ins_ok (net_in ?s)" and same: "msgs_in (net_in s) = msgs_in es" using es timer ins(1) by auto
    have eq: "wait_body m s = wait_act (if 10 \<le> m + 1 then QUIT else RESEND_LOWEST) (m + 1) ?s"
      unfolding wait_body_act using timer es by (auto simp: processPoll_timeout processPoll_hangup [OF ok])
    show ?thesis
    proof (cases "10 \<le> m + 1")
      case True
      then have "wait_body m s = Ret None ?s" unfolding eq by (simp add: wait_act_def)
      moreover have "step_core n b F lo C E s lo C ?s"
        using core ins' same E by (intro step_coreI) simp_all
      ultimately show ?thesis by (auto simp: step_post_def)
    next
      case False
      then have eq': "wait_body m s = wait_act RESEND_LOWEST (m + 1) ?s" unfolding eq by simp
      have core': "srv_core n b F lo C ?s" using core by simp
      have post: "step_post n b F lo C E s (case r of None \<Rightarrow> At DONE_SERVER | Some k \<Rightarrow> Wait k) s'"
        if "r = Some (m + 1) \<and> step_core n b F lo C E ?s lo C s' \<and> atEOF s' = atEOF ?s
          \<and> waitingForLastRR s' = waitingForLastRR ?s" for r s'
        using that pc(1) step_core_skip(1) [OF es timer, of n b F lo C E lo C s']
        unfolding step_post_def by (intro exI [of _ lo] exI [of _ C]) simp
      have stop: "stop_core n b F lo C E s s'" if "stop_core n b F lo C E ?s s'" for s'
        using that step_core_skip(2) [OF es timer] by blast
      show ?thesis
        unfolding eq' by (rule ends_mono [OF resend_lowest_ok [OF core' N E(1) C ins']])
          (use post stop in blast)+
    qed
  next
    case (arrive a d)
    then have net: "net_in s = Arrive a d # es" using es by simp
    then have net': "net_in s = [] @ Arrive a d # es" "set [] \<subseteq> {Timeout, Hangup}" by simp_all
    have eq: "wait_body m s = bindO (respond s) (\<lambda>_. Ret (Some 0))"
      unfolding wait_body_act by (simp add: processPoll_ready [OF ok net] wait_act_def)
    show ?thesis
      unfolding eq
    proof (rule ends_bindO, rule ends_mono [OF respond_ok [OF core N E net' ins(1) acks]])
      fix u s'
      assume "\<exists>lo'. step_core n b F lo C E s lo' C s' \<and> atEOF s' = atEOF s
        \<and> (waitingForLastRR s' = waitingForLastRR s \<and> (lo = C \<longrightarrow> lo' = C)
           \<or> \<not> waitingForLastRR s' \<and> (atEOF s \<longrightarrow> lo' = C))"
      with pc(1) show "ends (Ret (Some 0) s')
          (\<lambda>r. step_post n b F lo C E s (case r of None \<Rightarrow> At DONE_SERVER | Some k \<Rightarrow> Wait k))
          (stop_core n b F lo C E s)"
        by (auto simp: step_post_def)
    qed (use step_core_stop in blast)
  qed (use es ins in simp)
qed

lemma eof_send_ok:
  assumes core: "srv_core n b F lo C s" and E: "lo \<le> E" and N: "sizes_ok n b F"
    and pc: "pc_ok (At SEND_EOF) lo C s" and ins: "ins_ok (net_in s)"
  shows "ends (eof_send s) (\<lambda>_. step_post n b F lo C E s EofPoll) (stop_core n b F lo C E s)"
proof -
  have pm: "pm_ok (pm s)" and q: "serverSeqNum s = of_nat C" and C: "C = nchunks b F" "lo = C"
    using core pc by (auto simp: srv_core_def proc_ok_def)
  have small: "C < 2 ^ 31" using srv_core_small [OF core N] by simp
  let ?m = "(flag_code END_OF_FILE, of_nat C, [])"
  have fits: "data_fits b F lo C ?m" using C small by (simp add: data_fits_def unat_seq)
  have step: "step_core n b F lo C E s lo C s' \<and> pc_ok EofPoll lo C s'" if sn: "sent [?m] s s'" for s'
  proof -
    have "emits b F lo C E lo C s s'"
      by (rule emits_sent [OF core sn _ fits _ E]) (use C E small in \<open>simp_all add: unat_seq\<close>)
    with srv_core_sent [OF core sn] ins pc show ?thesis by (simp add: step_core_def took_refl)
  qed
  have stop: "stop_core n b F lo C E s s'" if "sent [?m] s s'" for s'
    using step [OF that] step_core_stop by blast
  have "ends (eof_send s) (\<lambda>_. sent [?m] s) (sent [?m] s)"
    using sendPDU_ends [OF pm, of 0 "[]" "[]" "clientConn s" "flag_code END_OF_FILE" "of_nat C"]
    by (simp add: eof_send_def sendFlagOnly_def q)
  then show ?thesis
    by (rule ends_mono) (use step stop in \<open>auto simp: step_post_def\<close>)
qed

lemma eof_poll_ok:
  assumes core: "srv_core n b F lo C s" and N: "sizes_ok n b F" and E: "lo \<le> E" "E \<le> C"
    and pc: "pc_ok EofPoll lo C s"
    and ins: "ins_ok (net_in s)" "net_in s \<noteq> []" and acks: "acks_ok lo E C (msgs_in (net_in s))"
  shows "ends (eof_poll s) (\<lambda>st. step_post n b F lo C E s (At st)) (stop_core n b F lo C E s)"
proof -
  have ok: "proc_ok s" using core by (simp add: srv_core_def)
  from ins obtain e es where es: "net_in s = e # es" by (cases "net_in s") auto
  consider (timer) "e \<in> {Timeout, Hangup}" | (arrive) a d where "e = Arrive a d" | "e = SysErr" by (cases e) auto
  then show ?thesis
  proof cases
    case timer
    let ?s = "s\<lparr>net_in := es, eof_tryCount := eof_tryCount s + 1\<rparr>"
    have "eof_poll s = Ret (if 10 \<le> eof_tryCount s + 1 then DONE_SERVER else SEND_EOF) ?s"
      using timer es by (auto simp: eof_poll_def processPoll_timeout processPoll_hangup [OF ok])
    moreover have "step_core n b F lo C E s lo C ?s"
      using core es timer ins(1) E by (intro step_coreI) auto
    ultimately show ?thesis using pc by (auto simp: step_post_def intro!: exI [of _ lo] exI [of _ C])
  next
    case (arrive a d)
    then have net: "net_in s = [] @ Arrive a d # es" "set [] \<subseteq> {Timeout, Hangup}" using es by simp_all
    let ?s = "s\<lparr>eof_tryCount := 0\<rparr>"
    have d: "dgram_ok d" using net ins(1) by simp
    have fits: "ack_fits lo E C m" if "dec d = Some m" for m
      using acks net(1) that by (simp add: acks_ok_def)
    have eq: "eof_poll s = bindO (processResponse False (serverSeqNum ?s) ?s) (\<lambda>_. Ret SEND_EOF)"
      using processPoll_ready [OF ok, of a d es "eof_tryCount s" SHORT_TIME 10 SEND_EOF
        RECV_POSSIBLE_EOF_ACK DONE_SERVER] net by (simp add: eof_poll_def)
    have core': "srv_core n b F lo C ?s" using core by simp
    have net': "net_in ?s = [] @ Arrive a d # es" using net by simp
    have step: "step_core n b F lo C E s lo' C s' \<and> pc_ok (At SEND_EOF) lo' C s'"
      if "resp_core n b F lo C E d es ?s lo' s'" for lo' s'
      using that took_datagram [of "[]" a d es lo lo'] net ins pc E
      by (auto simp: resp_core_def step_core_def emits_def)
    note pr = processResponse_ok [OF core' N E net' net(2) d, of False "serverSeqNum ?s"]
    show ?thesis
      unfolding eq
      by (rule ends_bindO, rule ends_mono [OF pr])
        (use fits step step_core_stop in \<open>fastforce simp: step_post_def\<close>)+
  qed (use es ins in simp)
qed

lemma server_filenameOk_arrives:
  assumes "proc_ok s" "net_in s = Arrive a d # es" "dgram_ok d"
  shows "server_filenameOk s = Ret SEND_DATA (s\<lparr>net_in := es, clientConn := (clientConn s)\<lparr>info := a\<rparr>\<rparr>)"
proof -
  have net: "net_in s = [] @ Arrive a d # es" "set [] \<subseteq> {Timeout, Hangup}" using assms(2) by simp_all
  have "pollCall LONG_TIME s = Ret (udp_sock s) s" "udp_sock s \<noteq> - 1"
    using pollCall_ready [OF assms(1,2), of LONG_TIME] assms(1) by (auto simp: proc_ok_def)
  then show ?thesis
    using retrievePDU_result [OF net(2,1) assms(3), of "replicate MAX_PAYLOAD_SIZE 0" "clientConn s"]
    by (simp add: server_filenameOk_def)
qed

lemma server_filenameOk_ok:
  assumes core: "srv_core n b F lo C s" and E: "lo \<le> E"
    and pc: "pc_ok (At WAIT_ON_FILENAME_OK_ACK) lo C s"
    and ins: "ins_ok (net_in s)" "net_in s \<noteq> []"
    and ready: "\<And>es. net_in s = Hangup # es \<Longrightarrow> arrived es \<noteq> []"
  shows "ends (server_filenameOk s) (\<lambda>st. step_post n b F lo C E s (At st)) (stop_core n b F lo C E s)"
proof -
  have ok: "proc_ok s" using core by (simp add: srv_core_def)
  from ins obtain e es where es: "net_in s = e # es" by (cases "net_in s") auto
  show ?thesis
  proof (cases e)
    case Timeout
    then have net: "net_in s = Timeout # es" using es by simp
    have "server_filenameOk s = Ret DONE_SERVER (s\<lparr>net_in := es\<rparr>)"
      using pollCall_timeout [OF net, of LONG_TIME] by (simp add: server_filenameOk_def)
    moreover have "step_core n b F lo C E s lo C (s\<lparr>net_in := es\<rparr>)"
      using core net ins(1) E by (intro step_coreI) simp_all
    ultimately show ?thesis by (auto simp: step_post_def)
  next
    case (Arrive a d)
    then have net: "net_in s = [] @ Arrive a d # es" "set [] \<subseteq> {Timeout, Hangup}" using es by simp_all
    have d: "dgram_ok d" using net ins(1) by simp
    let ?s = "s\<lparr>net_in := es, clientConn := (clientConn s)\<lparr>info := a\<rparr>\<rparr>"
    have "server_filenameOk s = Ret SEND_DATA ?s"
      using server_filenameOk_arrives [OF ok _ d] net by simp
    moreover have "step_core n b F lo C E s lo C ?s"
      using core took_datagram [of "[]" a d es lo lo] net ins E
      by (simp add: step_core_def emits_nothing lower_from_def)
    moreover have "pc_ok (At SEND_DATA) lo C ?s" using pc by simp
    ultimately have "step_post n b F lo C E s (At SEND_DATA) ?s" unfolding step_post_def by blast
    with \<open>server_filenameOk s = Ret SEND_DATA ?s\<close> show ?thesis by simp
  next
    case Hangup
    then have net: "net_in s = Hangup # es" using es by simp
    have "ins_ok es" "arrived es \<noteq> []" using ins ready net by simp_all
    then obtain ts a d es' where 1: "es = ts @ Arrive a d # es'" "set ts \<subseteq> {Timeout, Hangup}" "dgram_ok d" "ins_ok es'"
      by (cases rule: ins_cases) (auto simp: timeouts_only)
    let ?s = "s\<lparr>net_in := es', clientConn := (clientConn s)\<lparr>info := a\<rparr>\<rparr>"
    have eq: "server_filenameOk s = Ret SEND_DATA ?s"
      using pollCall_hangup [OF ok net, of LONG_TIME] retrievePDU_result [OF 1(2) _ 1(3), of "s\<lparr>net_in := es\<rparr>" a es'
          "replicate MAX_PAYLOAD_SIZE 0" "clientConn s"] 1(1) by (simp add: server_filenameOk_def)
    have "step_core n b F lo C E s lo C ?s"
      using core took_datagram [of "Hangup # ts" a d es' lo lo] net 1 ins E
      by (simp add: step_core_def emits_nothing lower_from_def)
    moreover have "pc_ok (At SEND_DATA) lo C ?s" using pc by simp
    ultimately have "step_post n b F lo C E s (At SEND_DATA) ?s" unfolding step_post_def by blast
    with eq show ?thesis by simp
  qed (use es ins in simp)
qed

text \<open>Every small step of the child keeps the invariant; it never faults.\<close>

definition polls :: "server_pc \<Rightarrow> server \<Rightarrow> bool" where
  "polls pc s \<longleftrightarrow> pc \<in> {At WAIT_ON_FILENAME_OK_ACK, FillPoll, EofPoll}
     \<or> (is_Wait pc \<and> (isWindowClosed (win s) \<or> waitingForLastRR s))"

text \<open>
  The child can go no further: it polls and there is no report, or a hang-up of the standard input
  has sent it on to \<open>recvfrom\<close> and there is no datagram.
\<close>

definition blocked :: "server_pc \<Rightarrow> server \<Rightarrow> bool" where
  "blocked pc s \<longleftrightarrow> polls pc s \<and> net_in s = [] \<or> pc \<in> {At WAIT_ON_FILENAME_OK_ACK, FillPoll}
     \<and> (\<exists>es. net_in s = Hangup # es \<and> arrived es = [])"

lemma server_small_ok:
  assumes core: "srv_core n b F lo C s" and N: "sizes_ok n b F" and E: "lo \<le> E" "E \<le> C"
    and pc: "pc_ok pc lo C s" and ins: "ins_ok (net_in s)" and ready: "\<not> blocked pc s"
    and acks: "acks_ok lo E C (msgs_in (net_in s))"
  shows "ends (server_small pdu pduLen pc s) (step_post n b F lo C E s) (stop_core n b F lo C E s)"
proof -
  have stay: "step_core n b F lo C E s lo C s" using core ins E by (intro step_coreI) simp_all
  show ?thesis
  proof (cases pc)
    case (At st)
    show ?thesis
    proof (cases st)
      case WAIT_ON_FILENAME_OK_ACK
      have "ends (server_filenameOk s) (\<lambda>st. step_post n b F lo C E s (At st)) (stop_core n b F lo C E s)"
        using server_filenameOk_ok [OF core E(1) _ ins] pc ready At WAIT_ON_FILENAME_OK_ACK
        by (simp add: polls_def blocked_def)
      then show ?thesis using At WAIT_ON_FILENAME_OK_ACK by (auto intro!: ends_bindO elim!: ends_mono)
    next
      case SEND_DATA
      then show ?thesis using At pc stay by (auto simp: step_post_def)
    next
      case SEND_EOF
      then show ?thesis using At eof_send_ok [OF core E(1) N _ ins] pc
        by (auto intro!: ends_bindO elim!: ends_mono)
    qed (use At pc stay in \<open>auto simp: step_post_def\<close>)
  next
    case Fill
    show ?thesis
    proof (cases "isWindowOpen (win s) \<and> \<not> atEOF s")
      case True
      then have op: "C < lo + n" "\<not> atEOF s" using win_closed_iff(2) [OF core] by auto
      have w: "\<not> waitingForLastRR s" using pc Fill by simp
      have "step_post n b F lo C E s (At DONE_SERVER) s'" "step_post n b F lo C E s FillPoll s'"
        if "step_core n b F lo C E s lo C' s'" "\<not> waitingForLastRR s'" for C' s'
        using that by (auto simp: step_post_def)
      with fill_send_ok [OF core N E op w ins] True Fill show ?thesis
        by (auto intro!: ends_bindO elim!: ends_mono)
    next
      case False
      have w: "\<not> waitingForLastRR s" using pc Fill by simp
      have post: "ends (Ret (Wait 0) s') (step_post n b F lo C E s) (stop_core n b F lo C E s)"
        if "step_core n b F lo C E s lo C s' \<and> pc_ok (Wait 0) lo C s'" for s'
        using that unfolding step_post_def ends_Ret by blast
      have eq: "server_small pdu pduLen pc s = bindO (eof_check s) (\<lambda>_. Ret (Wait 0))"
        using False Fill by auto
      show ?thesis
        unfolding eq by (rule ends_bindO, rule ends_mono [OF eof_check_ok [OF core N E(1) w ins]])
          (rule post, assumption+)
    qed
  next
    case FillPoll
    have w: "\<not> waitingForLastRR s" and ne: "net_in s \<noteq> []"
      and hang: "\<And>es. net_in s = Hangup # es \<Longrightarrow> arrived es \<noteq> []"
      using pc ready FillPoll by (auto simp: polls_def blocked_def)
    have "step_post n b F lo C E s Fill s'"
      if "step_core n b F lo C E s lo' C s'" "\<not> waitingForLastRR s'" for lo' s'
      using that by (auto simp: step_post_def)
    with fill_poll_ok [OF core N E w ins ne hang acks] FillPoll show ?thesis
      by (auto intro!: ends_bindO elim!: ends_mono)
  next
    case (Wait m)
    show ?thesis
    proof (cases "isWindowClosed (win s) \<or> waitingForLastRR s")
      case True
      have ne: "net_in s \<noteq> []" using ready Wait True by (simp add: polls_def blocked_def)
      have "pc_ok (Wait m) lo C s" using pc Wait by simp
      from wait_body_ok [OF core N E this True ins ne acks] True Wait show ?thesis
        by (auto intro!: ends_bindO elim!: ends_mono)
    next
      case False
      then have "server_small pdu pduLen pc s =
          Ret (At (if \<not> waitingForLastRR s \<and> atEOF s then SEND_EOF else SEND_DATA)) s"
        using Wait by simp
      with False pc Wait stay show ?thesis by (auto simp: step_post_def)
    qed
  next
    case EofPoll
    have ne: "net_in s \<noteq> []" using ready EofPoll by (simp add: polls_def blocked_def)
    have "pc_ok EofPoll lo C s" using pc EofPoll by simp
    from eof_poll_ok [OF core N E this ins ne acks] EofPoll show ?thesis
      by (auto intro!: ends_bindO elim!: ends_mono)
  qed
qed

end
