(* ===== verification/ServerExit.thy ===== *)
theory ServerExit
  imports ServerData
begin

text \<open>
  How the child ends well: of the handlers only \<open>processResponse\<close> calls \<open>exit(0)\<close>, so a child
  that has exited with 0 in a handler has read an EOF_ACK. (A child that gives up reaches \<open>DONE\<close>
  instead; it exits after \<open>processClient\<close>, also with 0.) Then the points at which the child waits.
\<close>

section \<open>The only \<open>exit(0)\<close> of the handlers\<close>

lemma memcpy_no_exit: "memcpy d i s n \<noteq> Inl (Exit k)"
  by (simp add: memcpy_def)

lemma sendPDU_no_exit0: "sendPDU c pl n f q p \<noteq> Stop (Exit 0) p'"
  by (auto simp: sendPDU_def run_simps createPDU_def memcpy_no_exit Let_def safeSendto_def sendto_Err_def
      kernel_sendto_def split: prod.splits option.splits list.splits bool.splits)

lemma window_at_no_exit: "window_at i w \<noteq> Inl (Exit k)" "getIndex v w \<noteq> Inl (Exit k)"
  by (simp_all add: window_at_def getIndex_def)

lemma window_no_exit0:
  "getDataFromWindow q data w \<noteq> Inl (Exit 0)" "getLowestSeqNum w \<noteq> Inl (Exit 0)"
  "getLowestSeqNumData data w \<noteq> Inl (Exit 0)" "addDataToWindow q data n w \<noteq> Inl (Exit 0)"
  by (auto simp: getDataFromWindow_def getLowestSeqNum_def getLowestSeqNumData_def addDataToWindow_def
      run_simps memcpy_no_exit window_at_no_exit Let_def)

lemma pollCall_no_exit0: "pollCall t p \<noteq> Stop (Exit 0) p'"
  by (auto simp: pollCall_def pollCall_result_def Let_def split: list.splits event.splits)

lemma processPoll_no_exit0: "processPoll n t m X R D p \<noteq> Stop (Exit 0) p'"
  by (auto simp: processPoll_def run_simps pollCall_no_exit0)

lemma retrievePDU_no_exit0: "retrievePDU c payload p \<noteq> Stop (Exit 0) p'"
proof (cases "recvfrom (net_in p)")
  case (Pair r es)
  then show ?thesis
    using recvfrom_no_exit0 [of "net_in p" es]
    by (cases r) (auto simp: retrievePDU_def safeRecvfrom_def run_simps memcpy_no_exit Let_def
        split: prod.splits)
qed

lemma server_filenameOk_no_exit0: "server_filenameOk s \<noteq> Stop (Exit 0) s'"
  unfolding server_filenameOk_def
  by (cases "pollCall LONG_TIME s") (auto simp: pollCall_no_exit0 run_simps retrievePDU_no_exit0 split: if_splits)

definition acked_eof :: "server \<Rightarrow> bool" where
  "acked_eof s \<longleftrightarrow> (\<exists>m \<in> set (msgs_in (net_in s)). fst m = flag_code EOF_ACK)"

lemma processResponse_exit0:
  assumes "processResponse w q s = Stop (Exit 0) s'" "ins_ok (net_in s)"
  shows "acked_eof s"
  using assms(2)
proof (cases rule: ins_cases)
  case (1 ts a d es)
  from assms(1) have "d ! 6 = flag_code EOF_ACK \<and> in_cksum d = 0"
    unfolding processResponse_eq [OF 1(1-3)] response_act_def Let_def
    by (auto simp: crc_of_def run_simps window_no_exit0 sendPDU_no_exit0 split: if_splits)
  then have "dec d = Some (flag_code EOF_ACK, ntohl (word32 (take 4 d)), drop 7 d)"
    using 1(3) by (simp add: dec_def)
  with 1(5) show ?thesis unfolding acked_eof_def by auto
next
  case 2
  then have "processResponse w q s = Stop Waiting (s\<lparr>net_in := []\<rparr>)"
    by (simp add: processResponse_def retrievePDU_def safeRecvfrom_def recvfrom_only_timeouts)
  with assms(1) show ?thesis by simp
qed

lemma respond_exit0: "respond s = Stop (Exit 0) s' \<Longrightarrow> ins_ok (net_in s) \<Longrightarrow> acked_eof s"
  by (auto simp: respond_def run_simps dest: processResponse_exit0)

lemma server_small_exit0:
  assumes "server_small pdu pduLen pc s = Stop (Exit 0) s'" "proc_ok s" "pc_ok pc lo C s" "ins_ok (net_in s)"
  shows "acked_eof s"
proof (cases pc)
  case (At st)
  with assms(1,3) show ?thesis
    by (cases st) (auto simp: run_simps server_filenameOk_no_exit0 eof_send_def sendFlagOnly_def
        sendPDU_no_exit0)
next
  case Fill
  with assms(1) show ?thesis
    by (auto simp: run_simps fill_send_def eof_check_def read_file_def Let_def window_no_exit0 sendPDU_no_exit0
        split: if_splits list.splits bool.splits)
next
  case FillPoll
  from assms(1) obtain v p where p: "pollCall 0 s = Ret v p" "v \<noteq> - 1" "respond p = Stop (Exit 0) s'"
    unfolding FillPoll by (auto simp: run_simps fill_poll_def pollCall_no_exit0 split: if_splits)
  from assms(2) p(1) show ?thesis
  proof (cases rule: pollCall_cases)
    case (1 a d es)
    then show ?thesis using respond_exit0 [OF p(3)] assms(4) by simp
  next
    case (2 es)
    with p(2) show ?thesis by simp
  next
    case (3 es)
    then show ?thesis using respond_exit0 [OF p(3)] assms(4) by (simp add: acked_eof_def)
  qed
next
  case (Wait n)
  from assms(1) obtain st m p where
    p: "processPoll n SHORT_TIME 10 RESEND_LOWEST RESPONSE_RECV QUIT s = Ret (st, m) p"
    and a: "wait_act st m p = Stop (Exit 0) s'"
    unfolding Wait by (auto simp: run_simps wait_body_act processPoll_no_exit0 split: if_splits)
  from a have st: "st = RESPONSE_RECV" and "respond p = Stop (Exit 0) s'"
    by (cases st; auto simp: wait_act_def run_simps window_no_exit0 sendPDU_no_exit0)+
  moreover have "p = s" using assms(2) p by (rule processPoll_cases) (use st in \<open>simp_all split: if_splits\<close>)
  ultimately show ?thesis using respond_exit0 [of s s'] assms(4) by simp
next
  case EofPoll
  let ?poll = "processPoll (eof_tryCount s) SHORT_TIME 10 SEND_EOF RECV_POSSIBLE_EOF_ACK DONE_SERVER s"
  have e: "eof_poll s = Stop (Exit 0) s'"
    using assms(1) EofPoll by (cases "eof_poll s") simp_all
  obtain st m p where p: "?poll = Ret (st, m) p"
  proof (cases ?poll)
    case (Stop h q)
    with e have "?poll = Stop (Exit 0) s'" by (simp add: eof_poll_def)
    with processPoll_no_exit0 show ?thesis by fast
  qed (use that in fast)
  have a: "st = RECV_POSSIBLE_EOF_ACK"
    "processResponse False (serverSeqNum p) (p\<lparr>eof_tryCount := m\<rparr>) = Stop (Exit 0) s'"
    using e p by (auto simp: eof_poll_def Let_def run_simps split: if_splits)
  have "p = s" using assms(2) p by (rule processPoll_cases) (use a(1) in \<open>simp_all split: if_splits\<close>)
  then have "net_in p = net_in s" by simp
  with processResponse_exit0 [OF a(2)] assms(4) show ?thesis by (simp add: acked_eof_def)
qed

section \<open>Where the child waits\<close>

lemma respond_waits:
  assumes "set (net_in s) \<subseteq> {Timeout, Hangup}"
  shows "respond s = Stop Waiting (s\<lparr>net_in := []\<rparr>)"
  using assms by (simp add: respond_def processResponse_def retrievePDU_def safeRecvfrom_def recvfrom_only_timeouts)

lemma server_waits:
  assumes "blocked pc s" "proc_ok s" "ins_ok (net_in s)"
  shows "\<exists>s'. server_small pdu pduLen pc s = Stop Waiting s'"
proof (cases "polls pc s \<and> net_in s = []")
  case True
  then have p: "pollCall t s = Stop Waiting s" for t by (simp add: pollCall_def)
  show ?thesis
    using True p
    by (cases pc) (auto simp: polls_def server_filenameOk_def fill_poll_def eof_poll_def wait_body_def
        processPoll_def)
next
  case False
  with assms(1) obtain es where pc: "pc \<in> {At WAIT_ON_FILENAME_OK_ACK, FillPoll}" and net: "net_in s = Hangup # es"
    and none: "arrived es = []" by (auto simp: blocked_def)
  have "ins_ok es" using assms(3) net by simp
  then have skip: "set es \<subseteq> {Timeout, Hangup}" by (cases rule: ins_cases) (use none in auto)
  note p = pollCall_hangup [OF assms(2) net]
  have "server_filenameOk s = Stop Waiting (s\<lparr>net_in := []\<rparr>)"
    using skip by (simp add: server_filenameOk_def p retrievePDU_def safeRecvfrom_def recvfrom_only_timeouts)
  moreover have "fill_poll s = Stop Waiting (s\<lparr>net_in := []\<rparr>)"
    using respond_waits [of "s\<lparr>net_in := es\<rparr>"] skip by (simp add: fill_poll_def p)
  ultimately show ?thesis using pc by auto
qed

end
