(* ===== verification/Protocol.thy ===== *)
theory Protocol
  imports RcopySteps ServerExit
begin

text \<open>
  The transfer as a whole: client and server child as one system with the two directions of the
  link between them. The link carries datagrams in order; it may lose the one at its head or
  duplicate it, and timers expire and polls find a hang-up of the standard input at any time. Damage and deliberate loss come from the error
  injection under the sends. The invariant ties the numbers of both sides to the messages under
  way; its first consequence is that the output is a prefix of the file in every reachable
  state.
\<close>

section \<open>The system\<close>

record sys =
  cpc :: client_pc
  cl :: rcopy
  chalt :: "halt option"
  spc :: server_pc
  sv :: server
  shalt :: "halt option"

text \<open>
  What a process has sent and the link has not passed on is in its \<open>net_out\<close>; a datagram is
  delivered by a move to the end of the other's \<open>net_in\<close>. A step that cannot go on for want of
  a report (\<open>Waiting\<close>) is no step of the system. A child that has given up stays in \<open>DONE\<close>, where
  only \<open>child_main\<close> is left to exit; so \<open>shalt = Some (Exit 0)\<close> means the \<open>exit(0)\<close> of
  \<open>processResponse\<close>, which the EOF_ACK leads to.
\<close>

inductive sys_step :: "byte list \<Rightarrow> int \<Rightarrow> sys \<Rightarrow> sys \<Rightarrow> bool" for pdu pduLen where
  client_go: "chalt s = None \<Longrightarrow> cpc s \<noteq> AtC DONE_RCOPY \<Longrightarrow> client_small (cpc s) (cl s) = Ret pc c \<Longrightarrow>
    sys_step pdu pduLen s (s\<lparr>cpc := pc, cl := c\<rparr>)"
| client_halts: "chalt s = None \<Longrightarrow> client_small (cpc s) (cl s) = Stop h c \<Longrightarrow> h \<noteq> Waiting \<Longrightarrow>
    sys_step pdu pduLen s (s\<lparr>cl := c, chalt := Some h\<rparr>)"
| server_go: "shalt s = None \<Longrightarrow> spc s \<noteq> At DONE_SERVER \<Longrightarrow>
    server_small pdu pduLen (spc s) (sv s) = Ret pc v \<Longrightarrow>
    sys_step pdu pduLen s (s\<lparr>spc := pc, sv := v\<rparr>)"
| server_halts: "shalt s = None \<Longrightarrow> server_small pdu pduLen (spc s) (sv s) = Stop h v \<Longrightarrow> h \<noteq> Waiting \<Longrightarrow>
    sys_step pdu pduLen s (s\<lparr>sv := v, shalt := Some h\<rparr>)"
| to_client: "net_out (sv s) = (a, d) # out \<Longrightarrow>
    sys_step pdu pduLen s (s\<lparr>sv := (sv s)\<lparr>net_out := out\<rparr>,
      cl := (cl s)\<lparr>net_in := net_in (cl s) @ [Arrive src d]\<rparr>\<rparr>)"
| to_server: "net_out (cl s) = (a, d) # out \<Longrightarrow>
    sys_step pdu pduLen s (s\<lparr>cl := (cl s)\<lparr>net_out := out\<rparr>,
      sv := (sv s)\<lparr>net_in := net_in (sv s) @ [Arrive src d]\<rparr>\<rparr>)"
| lose_to_client: "net_out (sv s) = x # out \<Longrightarrow> sys_step pdu pduLen s (s\<lparr>sv := (sv s)\<lparr>net_out := out\<rparr>\<rparr>)"
| lose_to_server: "net_out (cl s) = x # out \<Longrightarrow> sys_step pdu pduLen s (s\<lparr>cl := (cl s)\<lparr>net_out := out\<rparr>\<rparr>)"
| repeat_to_client: "net_out (sv s) = x # out \<Longrightarrow>
    sys_step pdu pduLen s (s\<lparr>sv := (sv s)\<lparr>net_out := x # x # out\<rparr>\<rparr>)"
| repeat_to_server: "net_out (cl s) = x # out \<Longrightarrow>
    sys_step pdu pduLen s (s\<lparr>cl := (cl s)\<lparr>net_out := x # x # out\<rparr>\<rparr>)"
| client_timer: "sys_step pdu pduLen s (s\<lparr>cl := (cl s)\<lparr>net_in := net_in (cl s) @ [Timeout]\<rparr>\<rparr>)"
| server_timer: "sys_step pdu pduLen s (s\<lparr>sv := (sv s)\<lparr>net_in := net_in (sv s) @ [Timeout]\<rparr>\<rparr>)"
| client_hangup: "sys_step pdu pduLen s (s\<lparr>cl := (cl s)\<lparr>net_in := net_in (cl s) @ [Hangup]\<rparr>\<rparr>)"
| server_hangup: "sys_step pdu pduLen s (s\<lparr>sv := (sv s)\<lparr>net_in := net_in (sv s) @ [Hangup]\<rparr>\<rparr>)"

text \<open>
  The start of the transfer of \<open>F\<close> in blocks of \<open>b\<close> bytes through a window of \<open>n\<close>: the file
  name has been exchanged and nothing of that exchange is under way any more.
\<close>

definition sys_init :: "nat \<Rightarrow> nat \<Rightarrow> byte list \<Rightarrow> sys \<Rightarrow> bool" where
  "sys_init n b F s \<longleftrightarrow> cpc s = AtC FILENAME_OK_STATE \<and> spc s = At WAIT_ON_FILENAME_OK_ACK
     \<and> chalt s = None \<and> shalt s = None
     \<and> net_in (cl s) = [] \<and> net_out (cl s) = [] \<and> net_in (sv s) = [] \<and> net_out (sv s) = []
     \<and> client_core n b F 0 0 (cl s) \<and> dataState (cl s) = IN_ORDER
     \<and> (\<forall>j. buf_look j (recvBuf (cl s)) = None)
     \<and> srv_core n b F 0 0 (sv s) \<and> \<not> atEOF (sv s) \<and> \<not> waitingForLastRR (sv s)"

section \<open>The invariant\<close>

text \<open>The messages on their way up to the server and down to the client.\<close>

definition up :: "sys \<Rightarrow> msg list" where
  "up s = msgs_in (net_in (sv s)) @ readable (net_out (cl s))"

definition down :: "sys \<Rightarrow> msg list" where
  "down s = msgs_in (net_in (cl s)) @ readable (net_out (sv s))"

definition num :: "msg \<Rightarrow> nat" where
  "num m = unat (fst (snd m))"

definition no_fault :: "halt option \<Rightarrow> bool" where
  "no_fault h \<longleftrightarrow> h = None \<or> (\<exists>i. h = Some (Exit i))"

definition link_ok :: "(sockaddr_in6 \<times> byte list) list \<Rightarrow> bool" where
  "link_ok out \<longleftrightarrow> (\<forall>x \<in> set out. dgram_ok (snd x))"

definition client_inv :: "nat \<Rightarrow> nat \<Rightarrow> byte list \<Rightarrow> nat \<Rightarrow> nat \<Rightarrow> nat \<Rightarrow> sys \<Rightarrow> bool" where
  "client_inv n b F C E H s \<longleftrightarrow> client_core n b F E H (cl s) \<and> ins_ok (net_in (cl s))
     \<and> link_ok (net_out (cl s)) \<and> no_fault (chalt s)
     \<and> (dataState (cl s) = DATA_STATE_DONE \<longrightarrow> E = nchunks b F)
     \<and> (chalt s = None \<longrightarrow> client_held (dataState (cl s)) n b F E H (recvBuf (cl s))
          \<and> cpc_ok (cpc s) (dataState (cl s))
          \<and> (dataState (cl s) = BUFFER \<longrightarrow> H < C \<and> (\<forall>m \<in> set (down s). E < num m \<longrightarrow> H \<le> num m)))"

definition server_inv :: "nat \<Rightarrow> nat \<Rightarrow> byte list \<Rightarrow> nat \<Rightarrow> nat \<Rightarrow> nat \<Rightarrow> sys \<Rightarrow> bool" where
  "server_inv n b F lo C E s \<longleftrightarrow> link_ok (net_out (sv s)) \<and> no_fault (shalt s)
     \<and> (shalt s = Some (Exit 0) \<longrightarrow> dataState (cl s) = DATA_STATE_DONE)
     \<and> (shalt s = None \<longrightarrow> srv_core n b F lo C (sv s) \<and> pc_ok (spc s) lo C (sv s)
          \<and> ins_ok (net_in (sv s)) \<and> acks_ok lo E C (up s)
          \<and> ((\<exists>m \<in> set (up s). fst m = flag_code EOF_ACK) \<longrightarrow> dataState (cl s) = DATA_STATE_DONE))"

definition sys_numbers :: "nat \<Rightarrow> nat \<Rightarrow> byte list \<Rightarrow> nat \<Rightarrow> nat \<Rightarrow> nat \<Rightarrow> sys \<Rightarrow> bool" where
  "sys_numbers n b F lo C E s \<longleftrightarrow> lo \<le> E \<and> E \<le> C \<and> C \<le> lo + n \<and> C \<le> nchunks b F
     \<and> sends_ok b F lo C E (down s)"

definition sys_inv :: "nat \<Rightarrow> nat \<Rightarrow> byte list \<Rightarrow> sys \<Rightarrow> bool" where
  "sys_inv n b F s \<longleftrightarrow> (\<exists>lo C E H. sys_numbers n b F lo C E s \<and> client_inv n b F C E H s
     \<and> server_inv n b F lo C E s)"

lemma sys_init_inv: "sys_init n b F s \<Longrightarrow> sys_inv n b F s"
  unfolding sys_inv_def
  by (rule exI [of _ 0], rule exI [of _ 0], rule exI [of _ 0], rule exI [of _ 0])
    (auto simp: sys_init_def sys_numbers_def client_inv_def server_inv_def up_def down_def
      sends_ok_def news_sorted_def acks_ok_def link_ok_def no_fault_def)

section \<open>The link\<close>

lemma link_ok_simps [simp]:
  "link_ok []" "link_ok (x # out) \<longleftrightarrow> dgram_ok (snd x) \<and> link_ok out"
  "link_ok (out @ out') \<longleftrightarrow> link_ok out \<and> link_ok out'"
  by (auto simp: link_ok_def)

lemma readable_Cons:
  "readable (x # out) = (case dec (snd x) of None \<Rightarrow> [] | Some m \<Rightarrow> [m]) @ readable out"
  by (simp add: readable_def List.map_filter_simps split: option.split)

lemma msgs_in_snoc:
  "msgs_in (es @ [Arrive a d]) = msgs_in es @ (case dec d of None \<Rightarrow> [] | Some m \<Rightarrow> [m])"
  by (simp split: option.split)

text \<open>Moving a datagram on changes nothing in the messages under way.\<close>

lemma deliver_msgs:
  "msgs_in (es @ [Arrive a d]) @ readable out = msgs_in es @ readable ((a', d) # out)"
  by (simp add: msgs_in_snoc readable_Cons del: msgs_in_simps(5))

lemma subseq_append_right: "subseq ys (xs @ ys)"
  by (induction xs) auto

lemma lose_subseq: "subseq (xs @ readable out) (xs @ readable (x # out))"
proof (rule list_emb_append_mono)
  show "subseq (readable out) (readable (x # out))"
    unfolding readable_Cons by (rule subseq_append_right)
qed simp

lemma repeat_cases:
  obtains "readable (x # x # out) = readable (x # out)"
    | m where "readable (x # out) = m # readable out" "readable (x # x # out) = m # m # readable out"
  by (cases "dec (snd x)") (simp_all add: readable_Cons)

end
