(* ===== verification/ProtocolInv.thy ===== *)
theory ProtocolInv
  imports Protocol
begin

text \<open>
  The invariant of the transfer is kept by every step: by a step of the client, by a step of
  the server's child, and by what the link and the timers do. The locale \<open>reachable_inv\<close> turns
  that into a fact about all reachable states.
\<close>

section \<open>A step of the client\<close>

lemma is_ack_val:
  assumes "is_ack E H m" "E < 2 ^ 31"
  shows "ack_val m = Some E \<and> 4 \<le> length (snd (snd m)) \<and> (fst m = flag_code SREJ \<longrightarrow> E < H)
    \<and> fst m \<noteq> flag_code EOF_ACK"
  using assms by (auto simp: is_ack_def ack_def ack_val.simps word32_bytes32 ntohl_htonl unat_seq)

lemma from_client_val:
  assumes "from_client E H fin m" "E < 2 ^ 31"
  shows "(ack_val m = None \<or> ack_val m = Some E \<and> 4 \<le> length (snd (snd m)) \<and> (fst m = flag_code SREJ \<longrightarrow> E < H))
    \<and> (fst m = flag_code EOF_ACK \<longrightarrow> fin)"
  using assms is_ack_val [of E H m] by (cases m) (auto simp: from_client_def ack_val.simps)

lemma cpc_not_flush: "cpc_ok pc D \<Longrightarrow> D \<noteq> FLUSH"
  by (cases "(pc, D)" rule: cpc_ok.cases) auto

text \<open>How far the client can have come: every number it has moved to is one the server has sent.\<close>

lemma client_numbers:
  assumes nums: "sys_numbers n b F lo C E s" and cinv: "client_inv n b F C E H s" and N: "sizes_ok n b F"
    and alive: "chalt s = None" and moved: "client_moved n b F E H (cl s) E' H' c'"
  shows "E \<le> E'" "E' \<le> C" "E' < H' \<Longrightarrow> E' < C"
    "sends_ok b F lo C E' (msgs_in (net_in c') @ readable (net_out (sv s)))"
    "E' < H' \<Longrightarrow> H' < nchunks b F \<Longrightarrow>
      H' < C \<and> (\<forall>m \<in> set (msgs_in (net_in c') @ readable (net_out (sv s))). E' < num m \<longrightarrow> H' \<le> num m)"
proof -
  let ?rest = "msgs_in (net_in c') @ readable (net_out (sv s))"
  have le: "lo \<le> C" "E \<le> C" "C \<le> nchunks b F" "sends_ok b F lo C E (down s)"
    using nums by (auto simp: sys_numbers_def)
  show E': "E \<le> E'" using moved by (simp add: client_moved_def)
  have E'N: "E' \<le> nchunks b F" using moved by (simp add: client_moved_def client_core_def)
  have buf: "H < C \<and> (\<forall>m \<in> set (down s). E < num m \<longrightarrow> H \<le> num m)" if "E < H"
    using cinv alive that cpc_not_flush [of "cpc s" "dataState (cl s)"]
    by (cases "dataState (cl s)") (auto simp: client_inv_def)
  from moved obtain taken where taken: "down s = taken @ ?rest"
    and k: "E' = E \<and> H' = H \<or> (\<exists>f k pl. taken = [(f, of_nat k, pl)] \<and> k < 2 ^ 31 \<and> adv E H k E' H')"
    by (auto simp: client_moved_def down_def)
  have kC: "k \<le> C \<and> (k = C \<longrightarrow> C = nchunks b F)" "\<forall>m \<in> set ?rest. E < k \<and> E < num m \<longrightarrow> k \<le> num m"
    if "taken = [(f, of_nat k, pl)]" "k < 2 ^ 31" for f k pl
  proof -
    have "data_fits b F lo C (f, of_nat k, pl)" using le(4) taken that by (simp add: sends_ok_def)
    then show "k \<le> C \<and> (k = C \<longrightarrow> C = nchunks b F)"
      using that(2) by (auto simp: data_fits_def unat_seq split: if_splits)
    have "news_sorted E ((f, of_nat k, pl) # ?rest)" using le(4) taken that by (simp add: sends_ok_def)
    from news_sorted_head [OF this] show "\<forall>m \<in> set ?rest. E < k \<and> E < num m \<longrightarrow> k \<le> num m"
      using that(2) by (simp add: num_def unat_seq)
  qed
  show EC: "E' \<le> C"
    using k
  proof (elim disjE exE conjE)
    fix f k pl assume t: "taken = [(f, of_nat k, pl)]" "k < 2 ^ 31" and a: "adv E H k E' H'"
    from kC(1) [OF t] a buf le(2) E'N show ?thesis by (auto simp: adv_def)
  qed (use le in simp)
  show "E' < C" if "E' < H'"
    using k
  proof (elim disjE exE conjE)
    fix f k pl assume t: "taken = [(f, of_nat k, pl)]" "k < 2 ^ 31" and a: "adv E H k E' H'"
    from kC(1) [OF t] a buf that E' show ?thesis by (auto simp: adv_def)
  qed (use buf that in auto)
  have "subseq ?rest (down s)" unfolding taken by (rule subseq_append_right)
  then show "sends_ok b F lo C E' ?rest"
    using sends_ok_grow [OF sends_ok_subseq [OF le(4)] order.refl order.refl le(1,3) E'] by blast
  show "H' < C \<and> (\<forall>m \<in> set ?rest. E' < num m \<longrightarrow> H' \<le> num m)" if less: "E' < H'" and HN: "H' < nchunks b F"
  proof -
    consider "H' = H" | f k pl where "taken = [(f, of_nat k, pl)]" "k < 2 ^ 31" "H' = k"
      using k by (auto simp: adv_def)
    then show ?thesis
    proof cases
      case 1
      with less E' have "E < H" by simp
      with buf 1 taken E' show ?thesis by auto
    next
      case 2
      with kC [OF 2(1,2)] less E' HN show ?thesis by (auto simp: less_le)
    qed
  qed
qed

lemma client_step_inv:
  assumes inv: "sys_numbers n b F lo C E s" "client_inv n b F C E H s" "server_inv n b F lo C E s"
    and N: "sizes_ok n b F" and alive: "chalt s = None"
    and moved: "client_moved n b F E H (cl s) E' H' c'"
    and fin: "dataState (cl s) = DATA_STATE_DONE \<Longrightarrow> dataState c' = DATA_STATE_DONE"
      "dataState c' = DATA_STATE_DONE \<Longrightarrow> E' = nchunks b F"
    and s': "cl s' = c'" "sv s' = sv s" "spc s' = spc s" "shalt s' = shalt s" "no_fault (chalt s')"
    and on: "chalt s' = None \<Longrightarrow> client_held (dataState c') n b F E' H' (recvBuf c') \<and> cpc_ok (cpc s') (dataState c')"
  shows "sys_inv n b F s'"
proof -
  note num = client_numbers [OF inv(1,2) N alive moved]
  have le: "lo \<le> E" "C \<le> lo + n" "C \<le> nchunks b F" using inv(1) by (auto simp: sys_numbers_def)
  obtain ms out where out: "net_out c' = net_out (cl s) @ out" "transmits ms out"
    "\<forall>m \<in> set ms. from_client E' H' (dataState c' = DATA_STATE_DONE) m"
    using moved by (auto simp: client_moved_def)
  have "E' < 2 ^ 31" using num(2) le(3) N by (simp add: sizes_ok_def)
  note val = from_client_val [OF _ this]
  have new: "\<forall>m \<in> set (readable out). (ack_val m = None \<or> ack_val m = Some E' \<and> 4 \<le> length (snd (snd m))
      \<and> (fst m = flag_code SREJ \<longrightarrow> E' < C)) \<and> (fst m = flag_code EOF_ACK \<longrightarrow> dataState c' = DATA_STATE_DONE)"
  proof
    fix m assume "m \<in> set (readable out)"
    with transmits_set [OF out(2)] out(3) have "from_client E' H' (dataState c' = DATA_STATE_DONE) m" by blast
    from val [OF this] num(3) show "(ack_val m = None \<or> ack_val m = Some E' \<and> 4 \<le> length (snd (snd m))
      \<and> (fst m = flag_code SREJ \<longrightarrow> E' < C)) \<and> (fst m = flag_code EOF_ACK \<longrightarrow> dataState c' = DATA_STATE_DONE)"
      by auto
  qed
  have up: "up s' = up s @ readable out" using s' out(1) by (simp add: up_def)
  have "sys_numbers n b F lo C E' s'"
    using num le s' by (simp add: sys_numbers_def down_def)
  moreover have "client_inv n b F C E' H' s'"
  proof -
    have "client_core n b F E' H' c'" "ins_ok (net_in c')" using moved by (simp_all add: client_moved_def)
    moreover have "link_ok (net_out c')"
      using inv(2) out(1,2) by (simp add: client_inv_def transmits_def link_ok_def [of out])
    moreover have "H' < C \<and> (\<forall>m \<in> set (down s'). E' < num m \<longrightarrow> H' \<le> num m)"
      if "chalt s' = None" "dataState c' = BUFFER"
      using num(5) on that s' by (simp add: down_def)
    ultimately show ?thesis using s' fin(2) on by (auto simp: client_inv_def)
  qed
  moreover have "server_inv n b F lo C E' s'"
  proof (cases "shalt s = None")
    case True
    then have acks: "acks_ok lo E C (up s)" "ins_ok (net_in (sv s))" "srv_core n b F lo C (sv s)"
      "pc_ok (spc s) lo C (sv s)" "link_ok (net_out (sv s))"
      "(\<exists>m \<in> set (up s). fst m = flag_code EOF_ACK) \<longrightarrow> dataState (cl s) = DATA_STATE_DONE"
      using inv(3) by (simp_all add: server_inv_def)
    have "acks_ok lo E' C (up s')"
      unfolding up using acks_ok_append [OF acks_ok_grow [OF acks(1) num(1) order.refl]] new le(1) num(1) by auto
    then show ?thesis using acks new fin(1) s' True unfolding up
      by (auto simp: server_inv_def up no_fault_def)
  qed (use inv(3) fin(1) s' in \<open>auto simp: server_inv_def\<close>)
  ultimately show ?thesis unfolding sys_inv_def by blast
qed

section \<open>A step of the server\<close>

lemma data_fits_num: "data_fits b F lo C m \<Longrightarrow> num m \<le> C"
  by (auto simp: data_fits_def num_def split: prod.splits if_splits)

text \<open>What the server sends keeps the direction to the client in order.\<close>

lemma server_sends:
  assumes nums: "sys_numbers n b F lo C E s" and em: "emits b F lo C E lo' C' (sv s) v"
    and C': "C' \<le> lo' + n" "C' \<le> nchunks b F"
  shows "\<exists>out. net_out v = net_out (sv s) @ out \<and> link_ok out
    \<and> (\<forall>m \<in> set (readable out). num m \<le> E \<or> num m = C)
    \<and> lo' \<le> E \<and> E \<le> C' \<and> C \<le> C' \<and> sends_ok b F lo' C' E (down s @ readable out)"
proof -
  have le: "lo \<le> E" "E \<le> C" "sends_ok b F lo C E (down s)" using nums by (auto simp: sys_numbers_def)
  from em obtain ms out where e: "lo \<le> lo'" "lo' \<le> E" "C \<le> C'" "net_out v = net_out (sv s) @ out"
    "transmits ms out" and ms: "ms = [] \<or> (\<exists>m. ms = [m] \<and> data_fits b F lo' C' m
      \<and> (num m \<le> E \<or> num m = C))"
    unfolding emits_def num_def by blast
  have down: "sends_ok b F lo' C' E (down s)"
    by (rule sends_ok_grow [OF le(3) e(1,3) _ C'(2)]) (use e le in simp_all)
  have sub: "subseq (readable out) ms" and lk: "link_ok out"
    using e(5) by (simp_all add: transmits_def link_ok_def)
  have "(\<forall>m \<in> set (readable out). num m \<le> E \<or> num m = C) \<and> sends_ok b F lo' C' E (down s @ readable out)"
  proof (cases "readable out = []")
    case False
    with sub ms obtain m where m: "ms = [m]" "data_fits b F lo' C' m" "num m \<le> E \<or> num m = C" by auto
    with sub False have one: "readable out = [m]"
      by (cases "readable out") (auto split: if_splits simp: subseq_Cons2_iff)
    have "news_sorted E (down s @ [m])"
    proof (cases "num m \<le> E")
      case True
      then show ?thesis using down
        by (intro news_sorted_append_old) (simp_all add: sends_ok_def num_def)
    next
      case False
      then have "num m = C" using m(3) by simp
      moreover have "num m' \<le> C" if "m' \<in> set (down s)" for m'
        using le(3) that data_fits_num [of b F lo C m'] by (auto simp: sends_ok_def)
      ultimately show ?thesis using down
        by (intro news_sorted_append_new) (simp_all add: sends_ok_def num_def)
    qed
    then show ?thesis using down m one by (simp add: sends_ok_def)
  qed (use down in simp)
  then show ?thesis using e le lk by auto
qed

lemma server_step_inv:
  assumes inv: "sys_numbers n b F lo C E s" "client_inv n b F C E H s" "server_inv n b F lo C E s"
    and alive: "shalt s = None"
    and em: "emits b F lo C E lo' C' (sv s) v" and C': "C' \<le> lo' + n" "C' \<le> nchunks b F"
    and s': "cl s' = cl s" "sv s' = v" "cpc s' = cpc s" "chalt s' = chalt s" "no_fault (shalt s')"
    and zero: "shalt s' = Some (Exit 0) \<Longrightarrow> acked_eof (sv s)"
    and on: "shalt s' = None \<Longrightarrow> srv_core n b F lo' C' v \<and> pc_ok (spc s') lo' C' v
      \<and> took (net_in (sv s)) (net_in v) lo lo'"
  shows "sys_inv n b F s'"
proof -
  from server_sends [OF inv(1) em C'] obtain out where out: "net_out v = net_out (sv s) @ out" "link_ok out"
    "\<forall>m \<in> set (readable out). num m \<le> E \<or> num m = C" and le: "lo' \<le> E" "E \<le> C'" "C \<le> C'"
    and sends: "sends_ok b F lo' C' E (down s @ readable out)" by blast
  have down: "down s' = down s @ readable out" using s' out(1) by (simp add: down_def)
  have old: "acks_ok lo E C (up s)" "link_ok (net_out (sv s))"
    "(\<exists>m \<in> set (up s). fst m = flag_code EOF_ACK) \<longrightarrow> dataState (cl s) = DATA_STATE_DONE"
    using inv(3) alive by (simp_all add: server_inv_def)
  have "sys_numbers n b F lo' C' E s'"
    using le C' sends by (simp add: sys_numbers_def down)
  moreover have "client_inv n b F C' E H s'"
    using inv(2) s' out(3) le unfolding client_inv_def down by fastforce
  moreover have "server_inv n b F lo' C' E s'"
  proof (cases "shalt s' = None")
    case True
    with on obtain taken where took: "msgs_in (net_in (sv s)) = taken @ msgs_in (net_in v)" "length taken \<le> 1"
      "lo' = lo \<or> (\<exists>m. taken = [m] \<and> ack_val m = Some lo')" "ins_ok (net_in v)"
      by (auto simp: took_def)
    have up: "up s = taken @ up s'" using s' took(1) by (simp add: up_def)
    have "acks_ok lo' E C (up s')"
    proof (cases "lo' = lo")
      case True
      with old(1) show ?thesis unfolding up by (simp add: acks_ok_subseq [OF _ subseq_append_right])
    next
      case False
      with took(3) old(1) show ?thesis unfolding up by (auto intro: acks_ok_advance)
    qed
    then have "acks_ok lo' E C' (up s')" using le(3) by (rule acks_ok_grow [OF _ order.refl])
    then show ?thesis
      using on True took(4) out(1,2) old(2,3) s' up by (auto simp: server_inv_def no_fault_def)
  next
    case False
    have "dataState (cl s) = DATA_STATE_DONE" if "acked_eof (sv s)"
      using that old(3) by (auto simp: acked_eof_def up_def)
    then show ?thesis using False zero out(1,2) old(2) s' by (auto simp: server_inv_def)
  qed
  ultimately show ?thesis unfolding sys_inv_def by blast
qed

section \<open>Steps of the link and the timers\<close>

text \<open>Such a step keeps the messages under way, or loses or repeats one of them.\<close>

inductive same_or_less :: "msg list \<Rightarrow> msg list \<Rightarrow> bool" where
  fewer: "subseq ms' ms \<Longrightarrow> same_or_less ms ms'"
| again: "same_or_less (xs @ m # ys) (xs @ m # m # ys)"

lemma same_or_less_facts:
  assumes "same_or_less ms ms'"
  shows "set ms' \<subseteq> set ms" "sends_ok b F lo C E ms \<Longrightarrow> sends_ok b F lo C E ms'"
    "acks_ok lo E C ms \<Longrightarrow> acks_ok lo E C ms'"
  using assms by (cases; auto dest: list_emb_set sends_ok_subseq acks_ok_subseq
      intro: sends_ok_repeat_in acks_ok_repeat_in)+

lemma same_or_less_refl [simp]: "same_or_less ms ms"
  by (rule fewer) simp

lemma same_or_less_lose: "same_or_less (xs @ readable (x # out)) (xs @ readable out)"
  by (rule fewer) (rule lose_subseq)

lemma same_or_less_again: "same_or_less (xs @ readable (x # out)) (xs @ readable (x # x # out))"
  by (rule repeat_cases [of x out]) (simp_all add: again)

lemma deliver_same:
  "same_or_less (msgs_in es @ readable ((a', d) # out)) (msgs_in (es @ [Arrive a d]) @ readable out)"
  unfolding deliver_msgs [of es a d out a'] by simp

lemma client_core_link [simp]:
  "client_core n b F E H (c\<lparr>net_in := es, net_out := out\<rparr>) \<longleftrightarrow> client_core n b F E H c"
  by (simp add: client_core_def proc_ok_def)

lemma srv_core_link [simp]:
  "srv_core n b F lo C (v\<lparr>net_in := es, net_out := out\<rparr>) \<longleftrightarrow> srv_core n b F lo C v"
  by (simp add: srv_core_def proc_ok_def)

lemma pc_ok_link [simp]: "pc_ok pc lo C (v\<lparr>net_in := es, net_out := out\<rparr>) \<longleftrightarrow> pc_ok pc lo C v"
  by (cases "(pc, lo, C, v)" rule: pc_ok.cases) simp_all

lemma link_step_inv:
  assumes inv: "sys_inv n b F s"
    and s': "s' = s\<lparr>cl := (cl s)\<lparr>net_in := ci, net_out := co\<rparr>, sv := (sv s)\<lparr>net_in := si, net_out := so\<rparr>\<rparr>"
    and down: "same_or_less (down s) (msgs_in ci @ readable so)"
    and up: "same_or_less (up s) (msgs_in si @ readable co)"
    and ok: "link_ok (net_out (cl s)) \<Longrightarrow> link_ok (net_out (sv s)) \<Longrightarrow> ins_ok (net_in (cl s)) \<Longrightarrow> ins_ok ci"
      "link_ok (net_out (cl s)) \<Longrightarrow> ins_ok (net_in (sv s)) \<Longrightarrow> ins_ok si"
      "link_ok (net_out (cl s)) \<Longrightarrow> link_ok co" "link_ok (net_out (sv s)) \<Longrightarrow> link_ok so"
  shows "sys_inv n b F s'"
proof -
  from inv obtain lo C E H where *: "sys_numbers n b F lo C E s" "client_inv n b F C E H s" "server_inv n b F lo C E s"
    by (auto simp: sys_inv_def)
  have d: "down s' = msgs_in ci @ readable so" and u: "up s' = msgs_in si @ readable co"
    by (simp_all add: s' down_def up_def)
  note facts = same_or_less_facts [OF down, folded d] same_or_less_facts [OF up, folded u]
  have "sys_numbers n b F lo C E s'" using *(1) facts(2) by (simp add: sys_numbers_def)
  moreover have "client_inv n b F C E H s'"
    using *(2,3) facts(1) ok unfolding client_inv_def server_inv_def by (auto simp: s' subset_iff)
  moreover have "server_inv n b F lo C E s'"
    using *(2,3) facts(4,6) ok unfolding client_inv_def server_inv_def by (auto simp: s' subset_iff)
  ultimately show ?thesis unfolding sys_inv_def by blast
qed

section \<open>Every step\<close>

lemma ends_Stop_Exit: "ends (Stop h c) Q R \<Longrightarrow> (\<exists>i. h = Exit i) \<and> R c"
  by (cases h) (auto simp: ends_def)

lemma client_fits:
  assumes "sys_numbers n b F lo C E s" "client_inv n b F C E H s" "sizes_ok n b F" "chalt s = None"
  shows "fits_client n b F (dataState (cl s)) E H (msgs_in (net_in (cl s)))"
proof (cases "msgs_in (net_in (cl s))")
  case Nil
  then show ?thesis by (simp add: fits_client_def)
next
  case (Cons m ms)
  obtain f q pl where m: "m = (f, q, pl)" by (cases m)
  have in_down: "m \<in> set (down s)" using Cons by (simp add: down_def)
  then have fits: "data_fits b F lo C (f, q, pl)" using assms(1) m by (auto simp: sys_numbers_def sends_ok_def)
  have le: "lo \<le> E" "E \<le> C" "C \<le> lo + n" "C \<le> nchunks b F" using assms(1) by (auto simp: sys_numbers_def)
  have buf: "dataState (cl s) = BUFFER \<Longrightarrow> E < unat q \<Longrightarrow> H \<le> unat q"
    using assms(2,4) in_down m by (force simp: client_inv_def num_def)
  have "nchunks b F < 2 ^ 31" using assms(3) by (simp add: sizes_ok_def)
  then have "msg_fits n b F (dataState (cl s)) E H f (unat q) pl"
    using fits le buf unfolding data_fits_def msg_fits_def by (auto split: if_splits)
  then show ?thesis using Cons m by (auto simp: fits_client_def intro!: exI [of _ "unat q"])
qed

text \<open>A step of the client, with what it adds to the output.\<close>

definition extends :: "nat \<Rightarrow> byte list \<Rightarrow> rcopy \<Rightarrow> rcopy \<Rightarrow> bool" where
  "extends b F c c' \<longleftrightarrow> (\<exists>E E'. E \<le> E' \<and> outputFile c = take (E * b) F \<and> outputFile c' = take (E' * b) F)"

lemma client_steps:
  assumes inv: "sys_inv n b F s" and N: "sizes_ok n b F" and alive: "chalt s = None"
  shows "client_small (cpc s) (cl s) = Ret pc c \<Longrightarrow>
      sys_inv n b F (s\<lparr>cpc := pc, cl := c\<rparr>) \<and> extends b F (cl s) c"
    "client_small (cpc s) (cl s) = Stop h c \<Longrightarrow> h \<noteq> Waiting \<Longrightarrow>
      sys_inv n b F (s\<lparr>cl := c, chalt := Some h\<rparr>) \<and> extends b F (cl s) c"
proof -
  from inv obtain lo C E H where *: "sys_numbers n b F lo C E s" "client_inv n b F C E H s" "server_inv n b F lo C E s"
    by (auto simp: sys_inv_def)
  have c: "client_core n b F E H (cl s)" "client_held (dataState (cl s)) n b F E H (recvBuf (cl s))"
    "cpc_ok (cpc s) (dataState (cl s))" "ins_ok (net_in (cl s))"
    "dataState (cl s) = DATA_STATE_DONE \<longrightarrow> E = nchunks b F"
    using *(2) alive by (auto simp: client_inv_def)
  have small: "nchunks b F < 2 ^ 31" using N by (simp add: sizes_ok_def)
  have ext: "extends b F (cl s) c'" if "client_moved n b F E H (cl s) E' H' c'" for E' H' c'
    using that c(1) unfolding extends_def client_moved_def client_core_def by blast
  note ok = client_small_ok [OF c(1-3) small c(4) _ client_fits [OF *(1,2) N alive]]
  show "sys_inv n b F (s\<lparr>cpc := pc, cl := c\<rparr>) \<and> extends b F (cl s) c" if r: "client_small (cpc s) (cl s) = Ret pc c"
  proof -
    have "\<not> cpolls (cpc s) (cl s)" using client_waits [OF _ c(4)] r by fastforce
    with ok r have "client_post n b F E H (cl s) pc c" by simp
    then obtain E' H' where m: "client_moved n b F E H (cl s) E' H' c"
      and post: "client_held (dataState c) n b F E' H' (recvBuf c)" "cpc_ok pc (dataState c)"
        "dataState (cl s) = DATA_STATE_DONE \<longrightarrow> dataState c = DATA_STATE_DONE"
      by (auto simp: client_post_def)
    have "sys_inv n b F (s\<lparr>cpc := pc, cl := c\<rparr>)"
      by (rule client_step_inv [OF * N alive m]) (use post in \<open>auto simp: no_fault_def alive\<close>)
    with ext [OF m] show ?thesis by simp
  qed
  show "sys_inv n b F (s\<lparr>cl := c, chalt := Some h\<rparr>) \<and> extends b F (cl s) c" if r: "client_small (cpc s) (cl s) = Stop h c" "h \<noteq> Waiting"
  proof -
    have "\<not> cpolls (cpc s) (cl s)" using client_waits [OF _ c(4)] r by fastforce
    with ok have "ends (Stop h c) (client_post n b F E H (cl s)) (client_stop n b F E H (cl s))"
      unfolding r(1) by simp
    from ends_Stop_Exit [OF this] have exit: "\<exists>i. h = Exit i" and "client_stop n b F E H (cl s) c"
      by simp_all
    then obtain E' H' where m: "client_moved n b F E H (cl s) E' H' c"
      and D: "dataState c = DATA_STATE_DONE \<longleftrightarrow> dataState (cl s) = DATA_STATE_DONE"
      by (auto simp: client_stop_def)
    have "E' = nchunks b F" if "dataState c = DATA_STATE_DONE"
      using m that D c(5) by (auto simp: client_moved_def client_core_def)
    then have "sys_inv n b F (s\<lparr>cl := c, chalt := Some h\<rparr>)"
      by (intro client_step_inv [OF * N alive m]) (use exit D in \<open>auto simp: no_fault_def\<close>)
    with ext [OF m] show ?thesis by simp
  qed
qed

lemma server_steps:
  assumes inv: "sys_inv n b F s" and N: "sizes_ok n b F" and alive: "shalt s = None"
  shows "server_small pdu pduLen (spc s) (sv s) = Ret pc v \<Longrightarrow> sys_inv n b F (s\<lparr>spc := pc, sv := v\<rparr>)"
    "server_small pdu pduLen (spc s) (sv s) = Stop h v \<Longrightarrow> h \<noteq> Waiting \<Longrightarrow>
      sys_inv n b F (s\<lparr>sv := v, shalt := Some h\<rparr>)"
proof -
  from inv obtain lo C E H where *: "sys_numbers n b F lo C E s" "client_inv n b F C E H s" "server_inv n b F lo C E s"
    by (auto simp: sys_inv_def)
  have v: "srv_core n b F lo C (sv s)" "pc_ok (spc s) lo C (sv s)" "ins_ok (net_in (sv s))" "acks_ok lo E C (up s)"
    using *(3) alive by (auto simp: server_inv_def)
  have le: "lo \<le> E" "E \<le> C" using *(1) by (auto simp: sys_numbers_def)
  have "subseq (msgs_in (net_in (sv s))) (up s)" unfolding up_def by (metis list_emb_append2 append_Nil2 subseq_append' list_emb_Nil)
  then have acks: "acks_ok lo E C (msgs_in (net_in (sv s)))" by (rule acks_ok_subseq [OF v(4)])
  note ok = server_small_ok [OF v(1) N le v(2,3) _ acks, of pdu pduLen]
  show "sys_inv n b F (s\<lparr>spc := pc, sv := v\<rparr>)" if r: "server_small pdu pduLen (spc s) (sv s) = Ret pc v"
  proof -
    have "\<not> blocked (spc s) (sv s)" using server_waits [of "spc s" "sv s" pdu pduLen] v(1,3) r by (auto simp: srv_core_def)
    with ok r have "step_post n b F lo C E (sv s) pc v" by auto
    then obtain lo' C' where "step_core n b F lo C E (sv s) lo' C' v" "pc_ok pc lo' C' v"
      by (auto simp: step_post_def)
    then have st: "srv_core n b F lo' C' v" "took (net_in (sv s)) (net_in v) lo lo'"
      "emits b F lo C E lo' C' (sv s) v" "pc_ok pc lo' C' v" by (auto simp: step_core_def)
    have "C' \<le> lo' + n" "C' \<le> nchunks b F" using st(1) by (simp_all add: srv_core_def)
    then show ?thesis
      by (intro server_step_inv [OF * alive st(3)]) (use st in \<open>auto simp: no_fault_def alive\<close>)
  qed
  show "sys_inv n b F (s\<lparr>sv := v, shalt := Some h\<rparr>)"
    if r: "server_small pdu pduLen (spc s) (sv s) = Stop h v" "h \<noteq> Waiting"
  proof -
    have "\<not> blocked (spc s) (sv s)" using server_waits [of "spc s" "sv s" pdu pduLen] v(1,3) r by (auto simp: srv_core_def)
    with ok have "ends (Stop h v) (step_post n b F lo C E (sv s)) (stop_core n b F lo C E (sv s))"
      unfolding r(1) by blast
    from ends_Stop_Exit [OF this] have exit: "\<exists>i. h = Exit i" and "stop_core n b F lo C E (sv s) v"
      by simp_all
    then obtain lo' C' where em: "emits b F lo C E lo' C' (sv s) v" "C' \<le> lo' + n" "C' \<le> nchunks b F"
      by (auto simp: stop_core_def)
    have zero: "acked_eof (sv s)" if "h = Exit 0"
      using server_small_exit0 [of pdu pduLen "spc s" "sv s" v] r(1) that v by (auto simp: srv_core_def)
    show ?thesis
      by (rule server_step_inv [OF * alive em]) (use exit zero in \<open>auto simp: no_fault_def\<close>)
  qed
qed

lemma sys_step_inv:
  assumes "sys_step pdu pduLen s s'" "sys_inv n b F s" "sizes_ok n b F"
  shows "sys_inv n b F s'"
  using assms(1)
proof cases
  case (client_go pc c)
  then show ?thesis using client_steps(1) [OF assms(2,3)] by simp
next
  case (client_halts h c)
  then show ?thesis using client_steps(2) [OF assms(2,3)] by simp
next
  case (server_go pc v)
  then show ?thesis using server_steps(1) [OF assms(2,3)] by simp
next
  case (server_halts h v)
  then show ?thesis using server_steps(2) [OF assms(2,3)] by simp
next
  case (to_client a d out src)
  then show ?thesis
    by (intro link_step_inv [OF assms(2), where ci = "net_in (cl s) @ [Arrive src d]" and co = "net_out (cl s)" and si = "net_in (sv s)" and so = out])
      (simp_all add: deliver_same down_def up_def del: msgs_in_simps(5))
next
  case (to_server a d out src)
  then show ?thesis
    by (intro link_step_inv [OF assms(2), where ci = "net_in (cl s)" and co = out and si = "net_in (sv s) @ [Arrive src d]" and so = "net_out (sv s)"])
      (simp_all add: deliver_same down_def up_def del: msgs_in_simps(5))
next
  case (lose_to_client x out)
  then show ?thesis
    by (intro link_step_inv [OF assms(2), where ci = "net_in (cl s)" and co = "net_out (cl s)" and si = "net_in (sv s)" and so = out])
      (simp_all add: same_or_less_lose down_def up_def)
next
  case (lose_to_server x out)
  then show ?thesis
    by (intro link_step_inv [OF assms(2), where ci = "net_in (cl s)" and co = out and si = "net_in (sv s)" and so = "net_out (sv s)"])
      (simp_all add: same_or_less_lose down_def up_def)
next
  case (repeat_to_client x out)
  then show ?thesis
    by (intro link_step_inv [OF assms(2), where ci = "net_in (cl s)" and co = "net_out (cl s)" and si = "net_in (sv s)" and so = "x # x # out"])
      (simp_all add: same_or_less_again down_def up_def)
next
  case (repeat_to_server x out)
  then show ?thesis
    by (intro link_step_inv [OF assms(2), where ci = "net_in (cl s)" and co = "x # x # out" and si = "net_in (sv s)" and so = "net_out (sv s)"])
      (simp_all add: same_or_less_again down_def up_def)
next
  case client_timer
  then show ?thesis
    by (intro link_step_inv [OF assms(2), where ci = "net_in (cl s) @ [Timeout]" and co = "net_out (cl s)" and si = "net_in (sv s)" and so = "net_out (sv s)"])
      (simp_all add: down_def up_def)
next
  case client_hangup
  then show ?thesis
    by (intro link_step_inv [OF assms(2), where ci = "net_in (cl s) @ [Hangup]" and co = "net_out (cl s)" and si = "net_in (sv s)" and so = "net_out (sv s)"])
      (simp_all add: down_def up_def)
next
  case server_hangup
  then show ?thesis
    by (intro link_step_inv [OF assms(2), where ci = "net_in (cl s)" and co = "net_out (cl s)" and si = "net_in (sv s) @ [Hangup]" and so = "net_out (sv s)"])
      (simp_all add: down_def up_def)
next
  case server_timer
  then show ?thesis
    by (intro link_step_inv [OF assms(2), where ci = "net_in (cl s)" and co = "net_out (cl s)" and si = "net_in (sv s) @ [Timeout]" and so = "net_out (sv s)"])
      (simp_all add: down_def up_def)
qed

end
