(* ===== verification/FileTransfer.thy ===== *)
theory FileTransfer
  imports ProtocolInv
begin

text \<open>
  What the transfer guarantees, over all runs of the system of \<open>Protocol\<close>: the output is a
  prefix of the file, it is the whole file when the client acknowledges the end and when the
  server exits on that acknowledgment, and neither side faults. The locale \<open>kept\<close> carries an invariant
  along a run; \<open>delivery\<close> is the abstract specification that the system refines.
\<close>

section \<open>Invariants along a run\<close>

locale kept =
  fixes init :: "'s \<Rightarrow> bool" and step :: "'s \<Rightarrow> 's \<Rightarrow> bool" and inv :: "'s \<Rightarrow> bool"
  assumes start: "init s \<Longrightarrow> inv s"
    and keep: "inv s \<Longrightarrow> step s s' \<Longrightarrow> inv s'"
begin

lemma kept_from: "step\<^sup>*\<^sup>* s s' \<Longrightarrow> inv s \<Longrightarrow> inv s'"
  by (induction rule: rtranclp_induct) (auto intro: keep)

lemma always: "init s0 \<Longrightarrow> step\<^sup>*\<^sup>* s0 s \<Longrightarrow> inv s"
  using kept_from start by blast

end

text \<open>A simulation into an abstract system, as long as the invariant holds.\<close>

locale refines = kept init step inv for init step and inv :: "'s \<Rightarrow> bool" +
  fixes abs :: "'s \<Rightarrow> 'a" and spec_init :: "'a \<Rightarrow> bool" and spec_step :: "'a \<Rightarrow> 'a \<Rightarrow> bool"
  assumes abs_init: "init s \<Longrightarrow> spec_init (abs s)"
    and abs_step: "inv s \<Longrightarrow> step s s' \<Longrightarrow> spec_step\<^sup>*\<^sup>* (abs s) (abs s')"
begin

lemma abs_run: "init s0 \<Longrightarrow> step\<^sup>*\<^sup>* s0 s \<Longrightarrow> spec_init (abs s0) \<and> spec_step\<^sup>*\<^sup>* (abs s0) (abs s)"
proof (rotate_tac, induction rule: rtranclp_induct)
  case (step s s')
  then have "inv s" using always by blast
  with step abs_step [of s s'] show ?case by (meson rtranclp_trans)
qed (simp add: abs_init)

end

section \<open>The abstract specification\<close>

text \<open>
  Delivery of a file: the output grows along the file, and success is reported only when it is
  all there.
\<close>

record delivery =
  delivered :: "byte list"
  success :: bool

inductive delivery_step :: "byte list \<Rightarrow> delivery \<Rightarrow> delivery \<Rightarrow> bool" for F where
  grow: "delivered d = take i F \<Longrightarrow> i \<le> j \<Longrightarrow> delivery_step F d (d\<lparr>delivered := take j F\<rparr>)"
| report: "delivered d = F \<Longrightarrow> delivery_step F d (d\<lparr>success := True\<rparr>)"

definition delivery_init :: "delivery \<Rightarrow> bool" where
  "delivery_init d \<longleftrightarrow> delivered d = [] \<and> \<not> success d"

definition abs_sys :: "sys \<Rightarrow> delivery" where
  "abs_sys s = \<lparr>delivered = outputFile (cl s), success = (shalt s = Some (Exit 0))\<rparr>"

lemma sys_inv_output:
  assumes "sys_inv n b F s" "sizes_ok n b F"
  shows "\<exists>E. outputFile (cl s) = take (E * b) F"
    "dataState (cl s) = DATA_STATE_DONE \<Longrightarrow> outputFile (cl s) = F"
    "shalt s = Some (Exit 0) \<Longrightarrow> dataState (cl s) = DATA_STATE_DONE"
    "no_fault (chalt s) \<and> no_fault (shalt s)"
proof -
  from assms(1) obtain lo C E H where *: "client_inv n b F C E H s" "server_inv n b F lo C E s"
    by (auto simp: sys_inv_def)
  then have out: "outputFile (cl s) = take (E * b) F" by (simp add: client_inv_def client_core_def)
  then show "\<exists>E. outputFile (cl s) = take (E * b) F" by blast
  have "0 < b" using assms(2) by (simp add: sizes_ok_def)
  with out * take_nchunks [of b F]
  show "dataState (cl s) = DATA_STATE_DONE \<Longrightarrow> outputFile (cl s) = F" by (simp add: client_inv_def)
  show "shalt s = Some (Exit 0) \<Longrightarrow> dataState (cl s) = DATA_STATE_DONE"
    "no_fault (chalt s) \<and> no_fault (shalt s)"
    using * by (simp_all add: client_inv_def server_inv_def)
qed

lemma sys_step_abs:
  assumes inv: "sys_inv n b F s" and N: "sizes_ok n b F" and st: "sys_step pdu pduLen s s'"
  shows "(delivery_step F)\<^sup>*\<^sup>* (abs_sys s) (abs_sys s')"
proof -
  have inv': "sys_inv n b F s'" using sys_step_inv [OF st inv N] .
  have grow: "(delivery_step F)\<^sup>*\<^sup>* (abs_sys s) (abs_sys s')"
    if "extends b F (cl s) c" "outputFile (cl s') = outputFile c" "shalt s' = shalt s" for c
  proof -
    from that(1) obtain E E' where "E \<le> E'" "outputFile (cl s) = take (E * b) F" "outputFile c = take (E' * b) F"
      by (auto simp: extends_def)
    then have "delivery_step F (abs_sys s) (abs_sys s\<lparr>delivered := take (E' * b) F\<rparr>)"
      by (intro delivery_step.grow [of _ "E * b"]) (simp_all add: abs_sys_def)
    then show ?thesis using that \<open>outputFile c = _\<close> by (simp add: abs_sys_def)
  qed
  show ?thesis
    using st
  proof cases
    case (client_go pc c)
    then show ?thesis using grow [of c] client_steps(1) [OF inv N] by simp
  next
    case (client_halts h c)
    then show ?thesis using grow [of c] client_steps(2) [OF inv N] by simp
  next
    case (server_halts h v)
    show ?thesis
    proof (cases "h = Exit 0")
      case True
      then have zero: "shalt s' = Some (Exit 0)" using server_halts by simp
      have "outputFile (cl s') = F"
        using sys_inv_output(2) [OF inv' N] sys_inv_output(3) [OF inv' N zero] by simp
      then have "delivery_step F (abs_sys s) (abs_sys s\<lparr>success := True\<rparr>)"
        using server_halts by (intro delivery_step.report) (simp add: abs_sys_def)
      then show ?thesis using server_halts True by (simp add: abs_sys_def)
    qed (use server_halts in \<open>simp add: abs_sys_def\<close>)
  qed (simp_all add: abs_sys_def)
qed

interpretation transfer: refines
  "\<lambda>s. sizes_ok n b F \<and> sys_init n b F s" "sys_step pdu pduLen"
  "\<lambda>s. sizes_ok n b F \<and> sys_inv n b F s" abs_sys delivery_init "delivery_step F"
  for n b F pdu pduLen
proof unfold_locales
  fix s assume "sizes_ok n b F \<and> sys_init n b F s"
  then show "delivery_init (abs_sys s)"
    by (simp add: delivery_init_def abs_sys_def sys_init_def client_core_def)
qed (auto intro: sys_init_inv sys_step_inv sys_step_abs)

lemma reach_inv:
  assumes "sizes_ok n b F" "sys_init n b F s0" "(sys_step pdu pduLen)\<^sup>*\<^sup>* s0 s"
  shows "sys_inv n b F s"
  using transfer.always [of n b F s0 pdu pduLen s] assms by blast

section \<open>A concrete start\<close>

text \<open>A server's child that has opened a file of the given content, with a window of four blocks.\<close>

definition sample_server :: "nat \<Rightarrow> byte list \<Rightarrow> server" where
  "sample_server b F =
     (server_boot zero_sockaddr_in6 [] [] (g_PktMgr 0) 0 [] [] 0 (\<lambda>_. (- 1, [])))
     \<lparr>polled := \<lparr>pollFileDescriptors = replicate 3 zero_pollfd @ \<lparr>pfd = 3, pevents = POLLIN\<rparr>
          # replicate 6 zero_pollfd, maxFileDescriptor = 4, currentPollSetSize = 10\<rparr>,
      udp_sock := 3, srvBufferSize := of_nat b, srvWindowSize := 4, dataFile := 4, fileLeft := F,
      win := \<lparr>window = replicate 4 zero_window_Data, myWindowSize = 4, upper = 4, lower = 0, current = 0\<rparr>\<rparr>"

definition sample_sys :: "nat \<Rightarrow> byte list \<Rightarrow> sys" where
  "sample_sys b F = \<lparr>cpc = AtC FILENAME_OK_STATE, cl = sample_client [], chalt = None,
     spc = At WAIT_ON_FILENAME_OK_ACK, sv = sample_server b F, shalt = None\<rparr>"

lemma sample_sys_init: "sys_init 4 b F (sample_sys b F)"
proof -
  have "proc_ok (sample_server b F)"
    by (simp add: sample_server_def server_boot_def proc_ok_def pollset_ok_def is_polled_def pm_ok_def
      g_PktMgr_def nth_append nth_Cons numeral_3_eq_3 split: nat.split)
  moreover have "win_look k (win (sample_server b F)) = Some (0, [])" for k
    by (simp add: sample_server_def server_boot_def win_look_def win_cap_def zero_window_Data_def)
  ultimately have "srv_core 4 b F 0 0 (sample_server b F)"
    by (simp add: srv_core_def win_holds_def)
      (simp add: sample_server_def server_boot_def win_ok_def wslot_ok_def win_cap_def zero_window_Data_def)
  moreover have "client_core 4 b F 0 0 (sample_client [])"
    using sample_client_ok [of "[]"]
    by (simp add: client_core_def)
      (simp add: sample_client_def rcopy_boot_def buf_ok_def slot_ok_def buf_cap_def zero_buffer_Data_def)
  moreover have "buf_look j (recvBuf (sample_client [])) = None" for j
    by (simp add: sample_client_def rcopy_boot_def buf_look_def buf_cap_def zero_buffer_Data_def)
  ultimately show ?thesis
    by (simp add: sys_init_def sample_sys_def)
      (simp add: sample_client_def sample_server_def rcopy_boot_def server_boot_def)
qed

end
