(* ===== verification/Completion.thy ===== *)
theory Completion
  imports FileTransfer
begin

text \<open>
  The transfer can be completed: without error injection and without failing system calls there
  is a run from every start to the exit of the server on the EOF_ACK, for every file. The run
  sends one block, receives it and acknowledges it, and so on; at the end the server takes the
  extra round it always takes.
\<close>

section \<open>Sending without error injection\<close>

text \<open>A rate that no draw is within: it is negative or not a number.\<close>

definition no_errors :: "cfloat \<Rightarrow> bool" where
  "no_errors rate \<longleftrightarrow> (case rate of Num q \<Rightarrow> q < 0 | PInf \<Rightarrow> False | _ \<Rightarrow> True)"

fun observes :: "IMsgEvent \<Rightarrow> bool" where
  "observes (InfoSeqNo m_History m_Count) \<longleftrightarrow> True"
| "observes e \<longleftrightarrow> False"

definition pm_clean :: "PacketManager \<Rightarrow> bool" where
  "pm_clean m \<longleftrightarrow> (\<forall>e \<in> set (m_ErrorCase_Constant m). observes e)
     \<and> (m_ErrorCase_Chance m = [] \<or> no_errors (m_ErrorRate m))"

definition clean :: "'m proc_scheme \<Rightarrow> bool" where
  "clean p \<longleftrightarrow> pm_clean (pm p) \<and> send_errs p = []"

lemma pm_clean_ok: "pm_clean m \<Longrightarrow> pm_ok m"
  by (auto simp: pm_clean_def pm_ok_def)

lemma runMsgEvents_clean:
  "\<forall>e \<in> set es. observes e \<Longrightarrow>
   \<exists>es'. runMsgEvents es c buf n r = (of_bool c, buf, es', r) \<and> (\<forall>e \<in> set es'. observes e)"
proof (induction es)
  case (Cons e es)
  from Cons.prems obtain h m where e: "e = InfoSeqNo h m" by (cases e) auto
  from Cons obtain es' where "runMsgEvents es c buf n r = (of_bool c, buf, es', r)" "\<forall>e \<in> set es'. observes e" by auto
  then show ?case by (auto simp: e infoSeqNo_run_def Let_def)
qed simp

lemma no_errors_fle:
  assumes "no_errors rate" "0 \<le> q"
  shows "\<not> fle (to_float q) rate"
proof -
  have "(0::rat) \<le> of_int (round_even (q / u))" if "0 < u" for u
    using assms(2) that by (auto simp: round_even_def Let_def)
  then have "0 \<le> round_to 24 (- 149) q" using assms(2) by (auto simp: round_to_def Let_def sgn_if)
  then have "to_float q = PInf \<or> (\<exists>r \<ge> 0. to_float q = Num r)" by (auto simp: to_float_def Let_def)
  with assms(1) show ?thesis by (cases rate) (auto simp: no_errors_def)
qed

lemma processEvents_clean:
  assumes "pm_clean m"
  shows "\<exists>m'. pm_clean m' \<and> processEvents buf n m = (0, buf, m')"
proof -
  obtain es where es: "runMsgEvents (m_ErrorCase_Constant m) False buf n (rand m) = (0, buf, es, rand m)"
    "\<forall>e \<in> set es. observes e"
    using runMsgEvents_clean [of "m_ErrorCase_Constant m" False buf n "rand m"] assms by (auto simp: pm_clean_def)
  obtain x r where d: "drand48 (rand m) = (x, r)" by fastforce
  have no: "\<not> (m_ErrorCase_Chance m \<noteq> [] \<and> fle (to_float (of_nat x / 2 ^ 48)) (m_ErrorRate m))"
    using assms no_errors_fle [of "m_ErrorRate m" "of_nat x / 2 ^ 48"] by (auto simp: pm_clean_def)
  let ?m' = "m\<lparr>m_ErrorCase_Constant := es, rand := r\<rparr>"
  have "processEvents buf n m = (0, buf, ?m')" using es(1) d no by (auto simp: processEvents_def Let_def)
  moreover have "pm_clean ?m'" using assms es(2) by (simp add: pm_clean_def)
  ultimately show ?thesis by blast
qed

lemma pm_clean_counted [simp]: "pm_clean (m\<lparr>m_MsgNo := k\<rparr>) \<longleftrightarrow> pm_clean m"
  by (simp add: pm_clean_def)

lemma sendto_Err_clean:
  assumes "pm_clean m" "buf \<noteq> []"
  shows "\<exists>m'. pm_clean m' \<and> sendto_Err buf m = Inr (Some buf, m')"
proof -
  let ?m = "m\<lparr>m_MsgNo := m_MsgNo m + 1\<rparr>"
  obtain m' where "pm_clean m'" "processEvents buf (m_MsgNo ?m) ?m = (0, buf, m')"
    using processEvents_clean [of ?m buf "m_MsgNo ?m"] assms(1) by auto
  then show ?thesis using assms(2) by (intro exI [of _ m']) (simp add: sendto_Err_def)
qed

lemma sendPDU_clean:
  assumes "clean p" "k \<le> length payload" "k \<le> MAX_PAYLOAD_SIZE" "take k payload = pl"
  shows "\<exists>m'. pm_clean m' \<and> sendPDU c payload (int k) f q p =
    Ret () (p\<lparr>pm := m', net_out := net_out p @ [(info c, enc (f, q, pl))], send_errs := []\<rparr>)"
proof -
  have ne: "enc (f, q, pl) \<noteq> []" by simp
  obtain m' where "pm_clean m'" "sendto_Err (enc (f, q, pl)) (pm p) = Inr (Some (enc (f, q, pl)), m')"
    using sendto_Err_clean [OF _ ne] assms(1) by (auto simp: clean_def)
  moreover have "sendPDU c payload (int k) f q p = safeSendto (enc (f, q, pl)) (info c) p"
    unfolding assms(4) [symmetric]
    using assms(2) by (simp add: sendPDU_def createPDU_ok [OF assms(2,3)] nat_add_distrib)
  ultimately show ?thesis using assms(1)
    by (intro exI [of _ m']) (simp add: safeSendto_def kernel_sendto_def clean_def)
qed

lemma sendRR_clean:
  assumes "clean c"
  shows "\<exists>m' q. pm_clean m' \<and> sendRR (of_nat v) c = Ret () (c\<lparr>pm := m',
    net_out := net_out c @ [(info (serverConn c), enc (ack RR q v))], send_errs := [],
    clientSeqNum := clientSeqNum c + 1\<rparr>)"
proof -
  obtain m' where "pm_clean m'" and s: "sendPDU (serverConn c) (bytes32 (htonl (of_nat v))) (int 4)
      (flag_code RR) (clientSeqNum c) c = Ret () (c\<lparr>pm := m', net_out := net_out c @
        [(info (serverConn c), enc (ack RR (clientSeqNum c) v))], send_errs := []\<rparr>)"
    using sendPDU_clean [OF assms, of 4 "bytes32 (htonl (of_nat v))" "bytes32 (htonl (of_nat v))"
      "serverConn c" "flag_code RR" "clientSeqNum c"] by (auto simp: ack_def)
  then show ?thesis
    by (intro exI [of _ m'] exI [of _ "clientSeqNum c"]) (simp add: sendRR_def)
qed

lemma sendFlagOnly_clean:
  assumes "clean p"
  shows "\<exists>m'. pm_clean m' \<and> sendFlagOnly c f q p =
    Ret () (p\<lparr>pm := m', net_out := net_out p @ [(info c, enc (f, q, []))], send_errs := []\<rparr>)"
  using sendPDU_clean [OF assms, of 0 "[]" "[]" c f q] by (simp add: sendFlagOnly_def)

section \<open>The client receives\<close>

text \<open>A client in order with nothing sent, and the datagram in its socket.\<close>

definition in_order :: "nat \<Rightarrow> nat \<Rightarrow> byte list \<Rightarrow> nat \<Rightarrow> rcopy \<Rightarrow> bool" where
  "in_order n b F k c \<longleftrightarrow> (\<exists>H. client_core n b F k H c \<and> client_held IN_ORDER n b F k H (recvBuf c))
     \<and> dataState c = IN_ORDER \<and> clean c \<and> net_out c = []"

lemma dgram_enc:
  assumes "length pl \<le> MAX_PAYLOAD_SIZE"
  shows "dgram_ok (enc (f, q, pl))" "in_cksum (enc (f, q, pl)) = 0"
    "dec (enc (f, q, pl)) = Some (f, q, pl)"
proof -
  show d: "dec (enc (f, q, pl)) = Some (f, q, pl)" using assms by (intro dec_enc) simp
  then show "dgram_ok (enc (f, q, pl))" "in_cksum (enc (f, q, pl)) = 0"
    by (auto simp: dec_def split: if_splits)
qed

lemma receive_eq:
  assumes "in_order n b F k c" "net_in c = [Arrive a (enc (f, q, pl))]" "length pl \<le> MAX_PAYLOAD_SIZE"
  shows "\<exists>payload. take (length pl) payload = pl \<and> length pl \<le> length payload \<and>
    receiveData c = run_data_state q payload (int (length pl)) f
      (c\<lparr>net_in := [], serverConn := (serverConn c)\<lparr>info := a\<rparr>\<rparr>)"
proof -
  let ?d = "enc (f, q, pl)"
  have d: "dgram_ok ?d" "in_cksum ?d = 0" "dec ?d = Some (f, q, pl)" using dgram_enc [OF assms(3)] by simp_all
  then have h: "?d ! 6 = f" "ntohl (word32 (take 4 ?d)) = q" "drop 7 ?d = pl"
    by (auto simp: dec_def split: if_splits)
  have "proc_ok c" using assms(1) by (auto simp: in_order_def client_core_def)
  from receiveData_eq [OF this, of "[]" a ?d "[]"] assms(2) d h
  show ?thesis by (intro exI [of _ "pl @ replicate (1407 - length ?d) 0"]) (simp add: Let_def)
qed

text \<open>The reply is an RR for what is expected now.\<close>

definition replied :: "nat \<Rightarrow> rcopy \<Rightarrow> bool" where
  "replied v c \<longleftrightarrow> net_in c = [] \<and> (\<exists>a q. net_out c = [(a, enc (ack RR q v))])"

lemma reply_RR:
  assumes "clean c" "net_in c = []" "net_out c = []" "client_core n b F k H c" "client_held IN_ORDER n b F k H (recvBuf c)"
    and eq: "receiveData c0 = bindO (bindO (sendRR (of_nat k) c) (\<lambda>_. Ret IN_ORDER))
      (\<lambda>st c. Ret RECV_DATA (c\<lparr>dataState := st\<rparr>))"
  shows "\<exists>c'. receiveData c0 = Ret RECV_DATA c' \<and> replied k c' \<and> in_order n b F k (c'\<lparr>net_out := []\<rparr>)"
proof -
  obtain m' q where m': "pm_clean m'" and s: "sendRR (of_nat k) c = Ret () (c\<lparr>pm := m',
      net_out := net_out c @ [(info (serverConn c), enc (ack RR q k))], send_errs := [],
      clientSeqNum := clientSeqNum c + 1\<rparr>)"
    using sendRR_clean [OF assms(1)] by blast
  let ?c = "c\<lparr>pm := m', net_out := net_out c @ [(info (serverConn c), enc (ack RR q k))], send_errs := [],
      clientSeqNum := clientSeqNum c + 1, dataState := IN_ORDER\<rparr>"
  have "client_core n b F k H (?c\<lparr>net_out := []\<rparr>)"
    using assms(4) pm_clean_ok [OF m'] by (simp add: client_core_def proc_ok_def)
  then have "in_order n b F k (?c\<lparr>net_out := []\<rparr>)"
    using assms(5) m' by (auto simp: in_order_def clean_def)
  moreover have "replied k ?c" using assms(2,3) by (auto simp: replied_def)
  moreover have "receiveData c0 = Ret RECV_DATA ?c" unfolding eq s by simp
  ultimately show ?thesis by blast
qed

lemma receive_block:
  assumes ok: "in_order n b F k c" and net: "net_in c = [Arrive a (enc (f, of_nat k, chunk b F k))]"
    and N: "sizes_ok n b F" "k < nchunks b F" and f: "f \<noteq> flag_code END_OF_FILE"
  shows "\<exists>c'. receiveData c = Ret RECV_DATA c' \<and> replied (Suc k) c' \<and> in_order n b F (Suc k) (c'\<lparr>net_out := []\<rparr>)"
proof -
  let ?c = "c\<lparr>net_in := [], serverConn := (serverConn c)\<lparr>info := a\<rparr>\<rparr>" and ?pl = "chunk b F k"
  have len: "length ?pl \<le> MAX_PAYLOAD_SIZE" using length_chunk_le [of b F k] N(1) by (simp add: sizes_ok_def)
  obtain payload where p: "take (length ?pl) payload = ?pl"
    and eq: "receiveData c = run_data_state (of_nat k) payload (int (length ?pl)) f ?c"
    using receive_eq [OF ok net len] by blast
  obtain H where core: "client_core n b F k H c" and held: "client_held IN_ORDER n b F k H (recvBuf c)"
    and rest: "dataState c = IN_ORDER" "clean c" "net_out c = []" using ok by (auto simp: in_order_def)
  have core0: "client_core n b F k H ?c" using core by (simp add: client_core_def proc_ok_def)
  have k: "k < 2 ^ 31" using N by (simp add: sizes_ok_def)
  let ?c2 = "write_out payload (int (length ?pl)) (?c\<lparr>highestSeqNum := of_nat k, expectedSeqNum := expectedSeqNum ?c + 1\<rparr>)"
  have core2: "client_core n b F (Suc k) k ?c2" by (rule core_write [OF core0 N(2) p k])
  have "receiveData c = bindO (bindO (sendRR (of_nat (Suc k)) ?c2) (\<lambda>_. Ret IN_ORDER))
      (\<lambda>st c. Ret RECV_DATA (c\<lparr>dataState := st\<rparr>))"
    using core rest f unfolding eq
    by (simp add: run_data_state_def dispatch_data_def inOrder_def Let_def write_out_def client_core_def
        bindO_assoc add.commute)
  then show ?thesis
    by (intro reply_RR [OF _ _ _ core2]) (use held rest in \<open>auto simp: write_out_def clean_def\<close>)
qed

lemma receive_old:
  assumes ok: "in_order n b F k c" and net: "net_in c = [Arrive a (enc (f, of_nat j, pl))]"
    and N: "sizes_ok n b F" "j < k" "length pl \<le> MAX_PAYLOAD_SIZE"
  shows "\<exists>c'. receiveData c = Ret RECV_DATA c' \<and> replied k c' \<and> in_order n b F k (c'\<lparr>net_out := []\<rparr>)"
proof -
  let ?c = "c\<lparr>net_in := [], serverConn := (serverConn c)\<lparr>info := a\<rparr>\<rparr>"
  obtain payload where eq: "receiveData c = run_data_state (of_nat j) payload (int (length pl)) f ?c"
    using receive_eq [OF ok net N(3)] by blast
  obtain H where core: "client_core n b F k H c" and held: "client_held IN_ORDER n b F k H (recvBuf c)"
    and rest: "dataState c = IN_ORDER" "clean c" "net_out c = []" using ok by (auto simp: in_order_def)
  have core0: "client_core n b F k H ?c" using core by (simp add: client_core_def proc_ok_def)
  have k: "k < 2 ^ 31" "j < 2 ^ 31" using core N by (auto simp: sizes_ok_def client_core_def)
  have "receiveData c = bindO (bindO (sendRR (of_nat k) ?c) (\<lambda>_. Ret IN_ORDER))
      (\<lambda>st c. Ret RECV_DATA (c\<lparr>dataState := st\<rparr>))"
    using core rest k N(2) unfolding eq
    by (simp add: run_data_state_def dispatch_data_def inOrder_def Let_def client_core_def
        bindO_assoc seq_less seq_eq)
  then show ?thesis
    by (intro reply_RR [OF _ _ _ core0]) (use held rest in \<open>auto simp: clean_def\<close>)
qed

lemma receive_eof:
  assumes ok: "in_order n b F k c" and net: "net_in c = [Arrive a (enc (flag_code END_OF_FILE, of_nat k, []))]"
  shows "\<exists>c'. receiveData c = Ret SEND_EOF_ACK c' \<and> clean c' \<and> net_in c' = [] \<and> net_out c' = []"
proof -
  obtain payload where eq: "receiveData c = run_data_state (of_nat k) payload (int (length ([] :: byte list)))
      (flag_code END_OF_FILE) (c\<lparr>net_in := [], serverConn := (serverConn c)\<lparr>info := a\<rparr>\<rparr>)"
    using receive_eq [OF ok net] by auto
  then show ?thesis using ok
    by (auto simp: in_order_def client_core_def run_data_state_def dispatch_data_def inOrder_def clean_def Let_def)
qed

section \<open>The server sends and hears\<close>

text \<open>What stays as it is at the server during the exchange of one block.\<close>

definition quiet :: "server \<Rightarrow> bool" where
  "quiet s \<longleftrightarrow> clean s \<and> read_errs s = []"

lemma quiet_sendPDU:
  assumes "quiet s" "length pl \<le> MAX_PAYLOAD_SIZE" "take (length pl) payload = pl" "length pl \<le> length payload"
  obtains m' where "pm_clean m'" "sendPDU c payload (int (length pl)) f q s =
    Ret () (s\<lparr>pm := m', net_out := net_out s @ [(info c, enc (f, q, pl))], send_errs := []\<rparr>)"
  using sendPDU_clean [of s "length pl" payload pl c f q] assms by (auto simp: quiet_def)

text \<open>One round of the first loop of \<open>sendData\<close>, whatever the window counts as acknowledged.\<close>

lemma fill_send_quiet:
  assumes core: "at_block n b F C s" and N: "sizes_ok n b F" and lt: "isWindowOpen (win s)" "C < nchunks b F"
    and q: "quiet s"
  shows "\<exists>s'. fill_send s = Ret False s' \<and> at_block n b F (Suc C) s' \<and> quiet s' \<and> (proc_ok s \<longrightarrow> proc_ok s')
    \<and> lower (win s') = lower (win s) \<and> upper (win s') = upper (win s) \<and> clientConn s' = clientConn s
    \<and> atEOF s' = atEOF s \<and> waitingForLastRR s' = waitingForLastRR s \<and> lastDataSeqNum s' = lastDataSeqNum s
    \<and> net_in s' = net_in s
    \<and> net_out s' = net_out s @ [(info (clientConn s), enc (flag_code DATA, of_nat C, chunk b F C))]"
proof -
  let ?blk = "chunk b F C"
  obtain w' where eq: "fill_send s = bindO (sendPDU (clientConn s)
        (?blk @ replicate (MAX_PAYLOAD_SIZE - length ?blk) 0) (int (length ?blk)) (flag_code DATA) (of_nat C)
        (s\<lparr>read_errs := drop 1 (read_errs s), fileLeft := drop (Suc C * b) F, win := w'\<rparr>))
      (\<lambda>_ s. Ret False (s\<lparr>serverSeqNum := serverSeqNum s + 1\<rparr>))"
    and core': "at_block n b F (Suc C) (s\<lparr>read_errs := drop 1 (read_errs s), fileLeft := drop (Suc C * b) F,
        win := w', serverSeqNum := serverSeqNum s + 1\<rparr>)"
    and w': "lower w' = lower (win s)" "upper w' = upper (win s)"
    using fill_send_at_block [OF core N lt(1) _ lt(2)] q by (auto simp: quiet_def)
  let ?s = "s\<lparr>read_errs := drop 1 (read_errs s), fileLeft := drop (Suc C * b) F, win := w'\<rparr>"
  have len: "length ?blk \<le> MAX_PAYLOAD_SIZE" using length_chunk_le [of b F C] N by (simp add: sizes_ok_def)
  have "quiet ?s" using q by (simp add: quiet_def clean_def)
  from quiet_sendPDU [OF this len, of "?blk @ replicate (MAX_PAYLOAD_SIZE - length ?blk) 0"
      "clientConn s" "flag_code DATA" "of_nat C"]
  obtain m' where m': "pm_clean m'" and snd: "sendPDU (clientConn s)
      (?blk @ replicate (MAX_PAYLOAD_SIZE - length ?blk) 0) (int (length ?blk)) (flag_code DATA) (of_nat C) ?s
    = Ret () (?s\<lparr>pm := m', net_out := net_out s @ [(info (clientConn s), enc (flag_code DATA, of_nat C, ?blk))],
        send_errs := []\<rparr>)" by auto
  let ?s' = "?s\<lparr>pm := m', net_out := net_out s @ [(info (clientConn s), enc (flag_code DATA, of_nat C, ?blk))],
        send_errs := [], serverSeqNum := serverSeqNum s + 1\<rparr>"
  have "fill_send s = Ret False ?s'" unfolding eq snd by simp
  moreover have "at_block n b F (Suc C) ?s'" using core' by (simp add: at_block_def)
  moreover have "quiet ?s'" "proc_ok s \<longrightarrow> proc_ok ?s'"
    using q m' pm_clean_ok [OF m'] by (simp_all add: quiet_def clean_def proc_ok_def)
  ultimately show ?thesis using w' by (intro exI [of _ ?s']) simp
qed

lemma serve_block:
  assumes core: "srv_core n b F lo C s" and N: "sizes_ok n b F" and lt: "C < lo + n" "C < nchunks b F"
    and fl: "\<not> atEOF s" and q: "quiet s" "net_out s = []"
  shows "\<exists>s' a. server_small pdu pduLen Fill s = Ret FillPoll s' \<and> srv_core n b F lo (Suc C) s' \<and> quiet s'
    \<and> \<not> atEOF s' \<and> waitingForLastRR s' = waitingForLastRR s \<and> net_in s' = net_in s
    \<and> net_out s' = [(a, enc (flag_code DATA, of_nat C, chunk b F C))]"
proof -
  have open_win: "isWindowOpen (win s)" using win_closed_iff(2) [OF core] lt(1) by simp
  from fill_send_quiet [OF srv_core_at_block [OF core] N open_win lt(2) q(1)] obtain s' where
    s': "fill_send s = Ret False s'" "at_block n b F (Suc C) s'" "quiet s'" "proc_ok s \<longrightarrow> proc_ok s'"
      "lower (win s') = lower (win s)" "upper (win s') = upper (win s)"
      "atEOF s' = atEOF s" "waitingForLastRR s' = waitingForLastRR s" "net_in s' = net_in s"
      "net_out s' = [(info (clientConn s), enc (flag_code DATA, of_nat C, chunk b F C))]"
    using q(2) by auto
  moreover have "srv_core n b F lo (Suc C) s'"
    using core s' lt fl by (simp add: srv_core_def at_block_def)
  moreover have "server_small pdu pduLen Fill s = Ret FillPoll s'" using s'(1) fl open_win by simp
  ultimately show ?thesis using fl by blast
qed

lemma serve_end:
  assumes core: "srv_core n b F lo (nchunks b F) s" and N: "sizes_ok n b F" and lt: "nchunks b F < lo + n"
    and fl: "\<not> atEOF s" and q: "quiet s"
  shows "\<exists>s'. server_small pdu pduLen Fill s = Ret FillPoll s' \<and> srv_core n b F lo (nchunks b F) s' \<and> quiet s'
    \<and> atEOF s' \<and> waitingForLastRR s' = waitingForLastRR s \<and> net_in s' = net_in s \<and> net_out s' = net_out s"
proof -
  let ?N = "nchunks b F"
  have "0 < b" using N by (simp add: sizes_ok_def)
  then have "chunk b F ?N = []" "drop (Suc ?N * b) F = drop (?N * b) F"
    using chunk_empty_iff [of b F ?N] nchunks_le_iff [of b F ?N] by auto
  then have "read_file s = Ret (0, []) (s\<lparr>read_errs := [], fileLeft := drop (?N * b) F\<rparr>)"
    using read_block [OF core N] q by (simp add: quiet_def)
  then have "server_small pdu pduLen Fill s = Ret FillPoll (s\<lparr>read_errs := [], fileLeft := drop (?N * b) F,
      atEOF := True, lastDataSeqNum := serverSeqNum s - 1\<rparr>)"
    using win_closed_iff(2) [OF core] lt fl by (simp add: fill_send_def)
  then show ?thesis using core q by (auto simp: srv_core_def proc_ok_def quiet_def clean_def)
qed

lemma hear_RR:
  assumes core: "srv_core n b F lo C s" and N: "sizes_ok n b F" and v: "lo \<le> v" "v \<le> C"
    and net: "net_in s = [Arrive a (enc (ack RR q v))]" and qs: "quiet s"
  shows "\<exists>s'. respond s = Ret () s' \<and> srv_core n b F v C s' \<and> quiet s' \<and> atEOF s' = atEOF s
    \<and> net_in s' = [] \<and> net_out s' = net_out s
    \<and> waitingForLastRR s' = (waitingForLastRR s \<and> of_nat v - 1 \<noteq> lastDataSeqNum s)"
proof -
  let ?d = "enc (ack RR q v)"
  have d: "dgram_ok ?d" "in_cksum ?d = 0" "dec ?d = Some (ack RR q v)"
    using dgram_enc [of "bytes32 (htonl (of_nat v))" "flag_code RR" q] by (simp_all add: ack_def)
  then have h: "?d ! 6 = flag_code RR" "drop 7 ?d = bytes32 (htonl (of_nat v))"
    by (auto simp: dec_def ack_def split: if_splits)
  have net': "net_in s = [] @ Arrive a ?d # []" "set [] \<subseteq> {Timeout, Hangup}" using net by simp_all
  let ?s = "s\<lparr>net_in := [], clientConn := (clientConn s)\<lparr>info := a\<rparr>\<rparr>"
  let ?s' = "?s\<lparr>win := updateLower (of_nat v) (win s),
    waitingForLastRR := waitingForLastRR s \<and> of_nat v - 1 \<noteq> lastDataSeqNum s\<rparr>"
  have "srv_core n b F lo C ?s" using core by simp
  from srv_core_updateLower [OF this N v] have "srv_core n b F v C (?s\<lparr>win := updateLower (of_nat v) (win ?s)\<rparr>)" .
  then have "srv_core n b F v C ?s'" by (auto simp: srv_core_def proc_ok_def)
  moreover have "respond s = Ret () ?s'"
    using d h unfolding respond_def processResponse_eq [OF net' d(1)] response_act_def
    by (simp add: Let_def crc_of_def word32_bytes32 ntohl_htonl)
  ultimately show ?thesis using qs by (intro exI [of _ ?s']) (simp add: quiet_def clean_def)
qed

section \<open>One block\<close>

text \<open>Between two blocks: both sides are at \<open>k\<close> and nothing is under way.\<close>

definition both_at :: "nat \<Rightarrow> nat \<Rightarrow> byte list \<Rightarrow> nat \<Rightarrow> sys \<Rightarrow> bool" where
  "both_at n b F k s \<longleftrightarrow> chalt s = None \<and> shalt s = None \<and> cpc s \<in> {OkPoll, AtC RECV_DATA}
     \<and> in_order n b F k (cl s) \<and> net_in (cl s) = [] \<and> quiet (sv s) \<and> net_in (sv s) = []"

text \<open>A datagram reaches the client and, if it still waits for the first one, wakes it.\<close>

lemma wake:
  assumes s: "both_at n b F k s" and out: "net_out (sv s) = [(a, d)]"
  shows "\<exists>c. (sys_step pdu pduLen)\<^sup>*\<^sup>* s (s\<lparr>sv := (sv s)\<lparr>net_out := []\<rparr>, cpc := AtC RECV_DATA, cl := c\<rparr>)
    \<and> in_order n b F k c \<and> net_in c = [Arrive src d]"
proof -
  let ?R = "sys_step pdu pduLen"
  let ?s1 = "s\<lparr>sv := (sv s)\<lparr>net_out := []\<rparr>, cl := (cl s)\<lparr>net_in := [Arrive src d]\<rparr>\<rparr>"
  have alive: "chalt s = None" and ord: "in_order n b F k (cl s)" and ne: "net_in (cl s) = []"
    using s by (auto simp: both_at_def)
  have ok: "proc_ok (cl s)" using ord by (auto simp: in_order_def client_core_def)
  have 1: "?R s ?s1" using to_client [OF out, of pdu pduLen src] ne by simp
  have ord': "in_order n b F k ((cl s)\<lparr>net_in := [Arrive src d], filenameOk_retryCount := r\<rparr>)" for r
    using ord by (auto simp: in_order_def client_core_def proc_ok_def clean_def)
  show ?thesis
  proof (cases "cpc s = OkPoll")
    case True
    have "net_in (cl ?s1) = Arrive src d # []" "proc_ok (cl ?s1)" using ok by (simp_all add: proc_ok_def)
    from processPoll_ready [OF this(2,1), of "filenameOk_retryCount (cl s)" SHORT_TIME 10 FILENAME_OK_STATE RECV_DATA DONE_RCOPY]
    have "client_small (cpc ?s1) (cl ?s1) = Ret (AtC RECV_DATA) ((cl ?s1)\<lparr>filenameOk_retryCount := 0\<rparr>)"
      using True by (simp add: filenameOk_poll_def)
    from client_go [of ?s1, OF _ _ this, of pdu pduLen] alive True
    have "?R ?s1 (s\<lparr>sv := (sv s)\<lparr>net_out := []\<rparr>, cpc := AtC RECV_DATA,
        cl := (cl s)\<lparr>net_in := [Arrive src d], filenameOk_retryCount := 0\<rparr>\<rparr>)" by simp
    with 1 ord' [of 0] show ?thesis
      by (intro exI [of _ "(cl s)\<lparr>net_in := [Arrive src d], filenameOk_retryCount := 0\<rparr>"])
        (simp add: converse_rtranclp_into_rtranclp)
  next
    case False
    then have "cpc s = AtC RECV_DATA" using s by (auto simp: both_at_def)
    then have "?s1 = s\<lparr>sv := (sv s)\<lparr>net_out := []\<rparr>, cpc := AtC RECV_DATA, cl := (cl s)\<lparr>net_in := [Arrive src d]\<rparr>\<rparr>"
      by (cases s) simp
    with 1 have "?R\<^sup>*\<^sup>* s (s\<lparr>sv := (sv s)\<lparr>net_out := []\<rparr>, cpc := AtC RECV_DATA, cl := (cl s)\<lparr>net_in := [Arrive src d]\<rparr>\<rparr>)"
      by (metis r_into_rtranclp)
    with ord' [of "filenameOk_retryCount (cl s)"] show ?thesis
      by (intro exI [of _ "(cl s)\<lparr>net_in := [Arrive src d]\<rparr>"]) simp
  qed
qed

text \<open>The client takes a datagram and answers; the answer reaches the server.\<close>

lemma exchange:
  assumes s: "both_at n b F k s" and out: "net_out (sv s) = [(a, d)]"
    and recv: "\<And>c. in_order n b F k c \<Longrightarrow> net_in c = [Arrive src d] \<Longrightarrow> \<exists>c'. receiveData c = Ret RECV_DATA c'
      \<and> replied v c' \<and> in_order n b F k' (c'\<lparr>net_out := []\<rparr>)"
  shows "\<exists>c' q. (sys_step pdu pduLen)\<^sup>*\<^sup>* s (s\<lparr>cpc := AtC RECV_DATA, cl := c',
      sv := (sv s)\<lparr>net_out := [], net_in := [Arrive src (enc (ack RR q v))]\<rparr>\<rparr>)
    \<and> in_order n b F k' c' \<and> net_in c' = []"
proof -
  let ?R = "sys_step pdu pduLen"
  have alive: "chalt s = None" "net_in (sv s) = []" using s by (auto simp: both_at_def)
  obtain c1 where 1: "?R\<^sup>*\<^sup>* s (s\<lparr>sv := (sv s)\<lparr>net_out := []\<rparr>, cpc := AtC RECV_DATA, cl := c1\<rparr>)"
    and c1: "in_order n b F k c1" "net_in c1 = [Arrive src d]"
    using wake [OF s out] by blast
  obtain c' where rc: "receiveData c1 = Ret RECV_DATA c'" and rep: "replied v c'"
    and ord': "in_order n b F k' (c'\<lparr>net_out := []\<rparr>)" using recv [OF c1] by auto
  let ?s2 = "s\<lparr>sv := (sv s)\<lparr>net_out := []\<rparr>, cpc := AtC RECV_DATA, cl := c1\<rparr>"
  let ?s3 = "s\<lparr>sv := (sv s)\<lparr>net_out := []\<rparr>, cpc := AtC RECV_DATA, cl := c'\<rparr>"
  have "client_small (cpc ?s2) (cl ?s2) = Ret (AtC RECV_DATA) c'" using rc by simp
  from client_go [of ?s2, OF _ _ this, of pdu pduLen] alive have 2: "?R ?s2 ?s3" by simp
  from rep obtain q a' where net: "net_out c' = [(a', enc (ack RR q v))]" "net_in c' = []"
    by (auto simp: replied_def)
  have "net_out (cl ?s3) = (a', enc (ack RR q v)) # []" using net by simp
  from to_server [OF this, of pdu pduLen src] alive(2)
  have 3: "?R ?s3 (s\<lparr>cpc := AtC RECV_DATA, cl := c'\<lparr>net_out := []\<rparr>,
      sv := (sv s)\<lparr>net_out := [], net_in := [Arrive src (enc (ack RR q v))]\<rparr>\<rparr>)" by simp
  from rtranclp.rtrancl_into_rtrancl [OF rtranclp.rtrancl_into_rtrancl [OF 1 2] 3] ord' net(2)
  show ?thesis by (intro exI [of _ "c'\<lparr>net_out := []\<rparr>"] exI [of _ q]) simp
qed

text \<open>The server at the head of its loop with nothing outstanding.\<close>

definition round_start :: "nat \<Rightarrow> nat \<Rightarrow> byte list \<Rightarrow> nat \<Rightarrow> sys \<Rightarrow> bool" where
  "round_start n b F k s \<longleftrightarrow> both_at n b F k s \<and> spc s = Fill \<and> srv_core n b F k k (sv s)
     \<and> \<not> atEOF (sv s) \<and> \<not> waitingForLastRR (sv s) \<and> net_out (sv s) = []"

lemma srv_core_out [simp]: "srv_core n b F lo C (s\<lparr>net_out := out\<rparr>) \<longleftrightarrow> srv_core n b F lo C s"
  by (simp add: srv_core_def proc_ok_def)

lemma server_move:
  assumes "shalt s = None" "spc s \<noteq> At DONE_SERVER" "server_small pdu pduLen (spc s) (sv s) = Ret pc v"
  shows "sys_step pdu pduLen s (s\<lparr>spc := pc, sv := v\<rparr>)"
  using assms by (rule server_go)

lemma one_block:
  assumes s: "round_start n b F k s" and N: "sizes_ok n b F" "k < nchunks b F"
  shows "\<exists>s'. (sys_step pdu pduLen)\<^sup>*\<^sup>* s s' \<and> round_start n b F (Suc k) s'"
proof -
  let ?R = "sys_step pdu pduLen"
  have b: "both_at n b F k s" "spc s = Fill" "srv_core n b F k k (sv s)" "\<not> atEOF (sv s)"
    "\<not> waitingForLastRR (sv s)" "net_out (sv s) = []" using s by (auto simp: round_start_def)
  have q: "quiet (sv s)" "net_in (sv s) = []" "shalt s = None" "chalt s = None" using b(1) by (auto simp: both_at_def)
  have "0 < n" using N(1) by (simp add: sizes_ok_def)
  then obtain v a where v: "server_small pdu pduLen Fill (sv s) = Ret FillPoll v" "srv_core n b F k (Suc k) v"
    "quiet v" "\<not> atEOF v" "\<not> waitingForLastRR v" "net_in v = []"
    "net_out v = [(a, enc (flag_code DATA, of_nat k, chunk b F k))]"
    using serve_block [OF b(3) N(1) _ N(2) b(4) q(1) b(6), of pdu pduLen] b(5) q(2) by auto
  let ?s1 = "s\<lparr>spc := FillPoll, sv := v\<rparr>"
  have 1: "?R s ?s1" by (rule server_move) (use q b v in simp_all)
  have both: "both_at n b F k ?s1" using b(1) v by (simp add: both_at_def)
  obtain c' r where 2: "?R\<^sup>*\<^sup>* ?s1 (?s1\<lparr>cpc := AtC RECV_DATA, cl := c',
      sv := (sv ?s1)\<lparr>net_out := [], net_in := [Arrive a (enc (ack RR r (Suc k)))]\<rparr>\<rparr>)"
    and c': "in_order n b F (Suc k) c'" "net_in c' = []"
    using exchange [OF both, of a "enc (flag_code DATA, of_nat k, chunk b F k)" a "Suc k" "Suc k" pdu pduLen]
      receive_block [OF _ _ N, of _ a "flag_code DATA"] v(7) by auto
  let ?v = "v\<lparr>net_out := [], net_in := [Arrive a (enc (ack RR r (Suc k)))]\<rparr>"
  let ?s2 = "s\<lparr>spc := FillPoll, cpc := AtC RECV_DATA, cl := c', sv := ?v\<rparr>"
  have core: "srv_core n b F k (Suc k) ?v" using v(2) by simp
  obtain w where w: "respond ?v = Ret () w" "srv_core n b F (Suc k) (Suc k) w" "quiet w" "\<not> atEOF w"
    "net_in w = []" "net_out w = []" "\<not> waitingForLastRR w"
    using hear_RR [OF core N(1), of "Suc k" a r] v(3-5) by (auto simp: quiet_def clean_def)
  have "proc_ok ?v" using core by (simp add: srv_core_def)
  then have "fill_poll ?v = respond ?v"
    using pollCall_ready [of ?v a "enc (ack RR r (Suc k))" "[]" 0]
    by (simp add: fill_poll_def proc_ok_def)
  then have "server_small pdu pduLen (spc ?s2) (sv ?s2) = Ret Fill w" using w(1) by simp
  from server_move [OF _ _ this] q have 3: "?R ?s2 (?s2\<lparr>spc := Fill, sv := w\<rparr>)" by simp
  have "?R\<^sup>*\<^sup>* s (?s2\<lparr>spc := Fill, sv := w\<rparr>)"
    using converse_rtranclp_into_rtranclp [OF 1 2] 3 by (simp add: rtranclp.rtrancl_into_rtrancl)
  moreover have "round_start n b F (Suc k) (?s2\<lparr>spc := Fill, sv := w\<rparr>)"
    using w c' q by (simp add: round_start_def both_at_def)
  ultimately show ?thesis by blast
qed

lemma all_blocks:
  assumes "sizes_ok n b F" "round_start n b F 0 s" "k \<le> nchunks b F"
  shows "\<exists>s'. (sys_step pdu pduLen)\<^sup>*\<^sup>* s s' \<and> round_start n b F k s'"
  using assms(3)
proof (induction k)
  case (Suc k)
  then obtain s1 where s1: "(sys_step pdu pduLen)\<^sup>*\<^sup>* s s1" "round_start n b F k s1" by auto
  from one_block [OF s1(2) assms(1), of pdu pduLen] Suc.prems obtain s2 where
    "(sys_step pdu pduLen)\<^sup>*\<^sup>* s1 s2" "round_start n b F (Suc k) s2" by auto
  with s1(1) show ?case by (meson rtranclp_trans)
qed (use assms(2) in blast)

section \<open>The beginning\<close>

lemma clean_link [simp]:
  "clean (p\<lparr>net_in := es\<rparr>) \<longleftrightarrow> clean p" "clean (p\<lparr>net_out := out\<rparr>) \<longleftrightarrow> clean p"
  by (simp_all add: clean_def)

lemma ok_ack_heard:
  assumes s: "cpc s = AtC FILENAME_OK_STATE" "spc s = At WAIT_ON_FILENAME_OK_ACK" "chalt s = None" "shalt s = None"
    and c: "clean (cl s)" "net_out (cl s) = []" and v: "proc_ok (sv s)" "net_in (sv s) = []"
  shows "\<exists>m' q conn. pm_clean m' \<and> (sys_step pdu pduLen)\<^sup>*\<^sup>* s (s\<lparr>cpc := OkPoll,
    cl := (cl s)\<lparr>pm := m', send_errs := [], clientSeqNum := q, net_out := []\<rparr>,
    spc := At SEND_DATA, sv := (sv s)\<lparr>net_in := [], clientConn := conn\<rparr>\<rparr>)"
proof -
  let ?R = "sys_step pdu pduLen"
  obtain m' where m': "pm_clean m'" and snd: "sendFlagOnly (serverConn (cl s)) (flag_code FNAME_OK_ACK) (clientSeqNum (cl s)) (cl s) =
      Ret () ((cl s)\<lparr>pm := m', net_out := net_out (cl s) @ [(info (serverConn (cl s)),
        enc (flag_code FNAME_OK_ACK, clientSeqNum (cl s), []))], send_errs := []\<rparr>)"
    using sendFlagOnly_clean [OF c(1)] by blast
  let ?d = "enc (flag_code FNAME_OK_ACK, clientSeqNum (cl s), [])" and ?a = "info (serverConn (cl s))"
  let ?c = "(cl s)\<lparr>pm := m', net_out := [(?a, ?d)], send_errs := [], clientSeqNum := clientSeqNum (cl s) + 1\<rparr>"
  have "client_small (cpc s) (cl s) = Ret OkPoll ?c"
    using s c snd by (simp add: filenameOk_send_def)
  from client_go [OF _ _ this, of pdu pduLen] s have 1: "?R s (s\<lparr>cpc := OkPoll, cl := ?c\<rparr>)" by simp
  let ?s1 = "s\<lparr>cpc := OkPoll, cl := ?c\<rparr>" and ?v = "(sv s)\<lparr>net_in := [Arrive ?a ?d]\<rparr>"
  have "net_out (cl ?s1) = (?a, ?d) # []" by simp
  from to_server [OF this, of pdu pduLen ?a] v(2)
  have 2: "?R ?s1 (s\<lparr>cpc := OkPoll, cl := ?c\<lparr>net_out := []\<rparr>, sv := ?v\<rparr>)" by simp
  let ?s2 = "s\<lparr>cpc := OkPoll, cl := ?c\<lparr>net_out := []\<rparr>, sv := ?v\<rparr>"
  have d: "dgram_ok ?d" by (rule dgram_enc) simp
  let ?v' = "?v\<lparr>net_in := [], clientConn := (clientConn (sv s))\<lparr>info := ?a\<rparr>\<rparr>"
  have ok: "proc_ok ?v" and nin: "net_in ?v = [] @ Arrive ?a ?d # []" "set [] \<subseteq> {Timeout, Hangup}"
    using v by auto
  have poll: "pollCall LONG_TIME ?v = Ret (udp_sock ?v) ?v" "udp_sock ?v \<noteq> - 1"
    using pollCall_ready [OF ok, of ?a ?d "[]" LONG_TIME] ok by (auto simp: proc_ok_def)
  have "server_filenameOk ?v = Ret SEND_DATA ?v'"
    using poll retrievePDU_result [OF nin(2,1) d, of "replicate MAX_PAYLOAD_SIZE 0" "clientConn ?v"]
    by (simp add: server_filenameOk_def)
  then have "server_small pdu pduLen (spc ?s2) (sv ?s2) = Ret (At SEND_DATA) ?v'" using s by simp
  from server_move [OF _ _ this] s have 3: "?R ?s2 (?s2\<lparr>spc := At SEND_DATA, sv := ?v'\<rparr>)" by simp
  from 1 2 3 have "?R\<^sup>*\<^sup>* s (?s2\<lparr>spc := At SEND_DATA, sv := ?v'\<rparr>)"
    by (meson converse_rtranclp_into_rtranclp rtranclp.rtrancl_refl)
  with m' show ?thesis
    by (intro exI [of _ m'] exI [of _ "clientSeqNum (cl s) + 1"] exI [of _ "(clientConn (sv s))\<lparr>info := ?a\<rparr>"]) simp
qed

lemma begin_transfer:
  assumes init: "sys_init n b F s" and cl: "clean (cl s)" and sv: "quiet (sv s)"
  shows "\<exists>s'. (sys_step pdu pduLen)\<^sup>*\<^sup>* s s' \<and> round_start n b F 0 s'"
proof -
  let ?R = "sys_step pdu pduLen"
  note i = init [unfolded sys_init_def]
  have ready: "cpc s = AtC FILENAME_OK_STATE" "spc s = At WAIT_ON_FILENAME_OK_ACK" "chalt s = None" "shalt s = None"
    "net_out (cl s) = []" "proc_ok (sv s)" "net_in (sv s) = []" using i by (simp_all add: srv_core_def)
  from ok_ack_heard [OF ready(1-4) cl ready(5-7), of pdu pduLen] obtain m' q conn where m': "pm_clean m'" and 1: "?R\<^sup>*\<^sup>* s (s\<lparr>cpc := OkPoll,
      cl := (cl s)\<lparr>pm := m', send_errs := [], clientSeqNum := q, net_out := []\<rparr>,
      spc := At SEND_DATA, sv := (sv s)\<lparr>net_in := [], clientConn := conn\<rparr>\<rparr>)"
    by blast
  let ?c = "(cl s)\<lparr>pm := m', send_errs := [], clientSeqNum := q, net_out := []\<rparr>"
  let ?v = "(sv s)\<lparr>net_in := [], clientConn := conn\<rparr>"
  let ?s1 = "s\<lparr>cpc := OkPoll, cl := ?c, spc := At SEND_DATA, sv := ?v\<rparr>"
  have "server_small pdu pduLen (spc ?s1) (sv ?s1) = Ret Fill ?v" by simp
  from server_move [OF _ _ this] i have "?R ?s1 (?s1\<lparr>spc := Fill, sv := ?v\<rparr>)" by simp
  with 1 have "?R\<^sup>*\<^sup>* s (?s1\<lparr>spc := Fill, sv := ?v\<rparr>)" by (rule rtranclp.rtrancl_into_rtrancl)
  moreover have "round_start n b F 0 (?s1\<lparr>spc := Fill, sv := ?v\<rparr>)"
  proof -
    have "client_core n b F 0 0 ?c"
      using i pm_clean_ok [OF m'] by (simp add: client_core_def proc_ok_def)
    then have "in_order n b F 0 ?c"
      using i m' by (auto simp: in_order_def clean_def)
    then show ?thesis using i sv by (simp add: round_start_def both_at_def quiet_def clean_def)
  qed
  ultimately show ?thesis by blast
qed

section \<open>The end\<close>

lemma eof_check_cases:
  assumes core: "srv_core n b F lo C s" and N: "sizes_ok n b F"
  shows "eof_check s = Ret () s \<or> eof_check s = Ret () (s\<lparr>waitingForLastRR := True\<rparr>) \<and> (\<not> waitingForLastRR s \<longrightarrow>
    srv_core n b F lo C (s\<lparr>waitingForLastRR := True\<rparr>))"
proof (cases "atEOF s")
  case True
  obtain k pl where k: "win_look lo (win s) = Some (of_nat k, pl)" "k \<le> lo"
    and kC: "if lo < C then k = lo else k < lo \<or> C = 0 \<and> k = 0"
    using lowest_slot [OF core N] by (auto split: if_splits)
  have w: "win_ok (win s)" "lower (win s) = int lo" and lo: "lo \<le> C"
    and last: "lastDataSeqNum s + 1 = of_nat C" using core True by (auto simp: srv_core_def)
  have low: "getLowestSeqNum (win s) = Inr (of_nat k)" by (rule getLowestSeqNum_ok [OF w k(1)])
  show ?thesis
  proof (cases "(of_nat C :: u32) = of_nat k")
    case True
    then show ?thesis using low last \<open>atEOF s\<close> by (simp add: eof_check_def)
  next
    case False
    then have "0 < C" using kC k(2) lo by (auto split: if_splits)
    have "eof_check s = Ret () (s\<lparr>waitingForLastRR := True\<rparr>)"
      using False low last \<open>atEOF s\<close> by (simp add: eof_check_def)
    moreover have "srv_core n b F lo C (s\<lparr>waitingForLastRR := True\<rparr>)"
      using core \<open>0 < C\<close> \<open>atEOF s\<close> by (auto simp: srv_core_def proc_ok_def)
    ultimately show ?thesis by blast
  qed
qed (simp add: eof_check_def)

text \<open>At the end of the file, all acknowledged, about to send the end of file.\<close>

definition at_end :: "nat \<Rightarrow> nat \<Rightarrow> byte list \<Rightarrow> server_pc \<Rightarrow> sys \<Rightarrow> bool" where
  "at_end n b F pc s \<longleftrightarrow> both_at n b F (nchunks b F) s \<and> spc s = pc \<and> srv_core n b F (nchunks b F) (nchunks b F) (sv s)
     \<and> atEOF (sv s) \<and> net_out (sv s) = []"

lemma at_end_waits:
  assumes s: "at_end n b F (Wait 0) s" and w: "waitingForLastRR (sv s)" and N: "sizes_ok n b F"
  shows "\<exists>s'. (sys_step pdu pduLen)\<^sup>*\<^sup>* s s' \<and> at_end n b F (Wait 0) s' \<and> \<not> waitingForLastRR (sv s')"
proof -
  let ?R = "sys_step pdu pduLen" and ?N = "nchunks b F" and ?v = "sv s"
  have b: "both_at n b F ?N s" "spc s = Wait 0" "srv_core n b F ?N ?N ?v" "atEOF ?v" "net_out ?v = []"
    and q: "quiet ?v" "net_in ?v = []" "shalt s = None" "chalt s = None"
    using s by (auto simp: at_end_def both_at_def)
  have "0 < ?N" using b(3) w by (simp add: srv_core_def)
  then obtain j pl where j: "win_look ?N (win ?v) = Some (of_nat j, pl)" "j < ?N" "length pl \<le> MAX_PAYLOAD_SIZE"
    using lowest_slot [OF b(3) N] by auto
  have win: "win_ok (win ?v)" "lower (win ?v) = int ?N" using b(3) by (auto simp: srv_core_def)
  have get: "getLowestSeqNumData (replicate MAX_PAYLOAD_SIZE 0) (win ?v) =
      Inr (pl @ drop (length pl) (replicate MAX_PAYLOAD_SIZE 0), of_nat j, int (length pl))"
    using getLowestSeqNumData_ok [OF win _ j(1), of "replicate MAX_PAYLOAD_SIZE 0"] by simp
  let ?d = "enc (flag_code RESENT_DATA_TIMEOUT, of_nat j, pl)" and ?a = "info (clientConn ?v)"
  have "clean ?v" using q(1) by (simp add: quiet_def)
  from sendPDU_clean [OF this, of "length pl" "pl @ drop (length pl) (replicate MAX_PAYLOAD_SIZE 0)" pl "clientConn ?v"
      "flag_code RESENT_DATA_TIMEOUT" "of_nat j"] j(3)
  obtain m' where m': "pm_clean m'" and snd: "sendPDU (clientConn ?v) (pl @ drop (length pl) (replicate MAX_PAYLOAD_SIZE 0))
      (int (length pl)) (flag_code RESENT_DATA_TIMEOUT) (of_nat j) ?v
    = Ret () (?v\<lparr>pm := m', net_out := net_out ?v @ [(?a, ?d)], send_errs := []\<rparr>)" by auto
  let ?v2 = "?v\<lparr>pm := m', net_out := [(?a, ?d)], send_errs := []\<rparr>"
  have act: "wait_act RESEND_LOWEST 1 ?v = Ret (Some 1) ?v2"
    using get snd b(5) by (simp add: wait_act_def)
  let ?s1 = "s\<lparr>sv := ?v\<lparr>net_in := [Timeout]\<rparr>\<rparr>"
  have 1: "?R s ?s1" using server_timer [of pdu pduLen s] q(2) by simp
  have nil: "?v\<lparr>net_in := []\<rparr> = ?v" using q(2) by (cases ?v) simp
  have "processPoll 0 SHORT_TIME 10 RESEND_LOWEST RESPONSE_RECV QUIT (?v\<lparr>net_in := [Timeout]\<rparr>) = Ret (RESEND_LOWEST, 1) ?v"
    using processPoll_timeout [of "?v\<lparr>net_in := [Timeout]\<rparr>" "[]" 0 SHORT_TIME 10 RESEND_LOWEST RESPONSE_RECV QUIT] nil
    by simp
  then have "server_small pdu pduLen (spc ?s1) (sv ?s1) = Ret (Wait 1) ?v2"
    using b(2) w act by (simp add: wait_body_act)
  from server_move [OF _ _ this] q(3) b(2) have 2: "?R ?s1 (s\<lparr>spc := Wait 1, sv := ?v2\<rparr>)" by simp
  let ?s2 = "s\<lparr>spc := Wait 1, sv := ?v2\<rparr>"
  have both: "both_at n b F ?N ?s2" using b(1) m' by (auto simp: both_at_def quiet_def clean_def)
  obtain c' r where 3: "?R\<^sup>*\<^sup>* ?s2 (?s2\<lparr>cpc := AtC RECV_DATA, cl := c',
      sv := (sv ?s2)\<lparr>net_out := [], net_in := [Arrive ?a (enc (ack RR r ?N))]\<rparr>\<rparr>)"
    and c': "in_order n b F ?N c'" "net_in c' = []"
    using exchange [OF both, of ?a ?d ?a ?N ?N pdu pduLen]
      receive_old [OF _ _ N j(2,3), of _ ?a "flag_code RESENT_DATA_TIMEOUT"] by auto
  let ?v3 = "?v2\<lparr>net_out := [], net_in := [Arrive ?a (enc (ack RR r ?N))]\<rparr>"
  let ?s3 = "s\<lparr>spc := Wait 1, cpc := AtC RECV_DATA, cl := c', sv := ?v3\<rparr>"
  have core: "srv_core n b F ?N ?N ?v3"
    using b(3) pm_clean_ok [OF m'] by (simp add: srv_core_def proc_ok_def)
  obtain v4 where v4: "respond ?v3 = Ret () v4" "srv_core n b F ?N ?N v4" "quiet v4" "atEOF v4"
    "net_in v4 = []" "net_out v4 = []" "\<not> waitingForLastRR v4"
    using hear_RR [OF core N, of ?N ?a r] b(3,4) q(1) m' by (auto simp: quiet_def clean_def srv_core_def)
  have "proc_ok ?v3" using core by (simp add: srv_core_def)
  from processPoll_ready [OF this, of ?a "enc (ack RR r ?N)" "[]" 1 SHORT_TIME 10 RESEND_LOWEST RESPONSE_RECV QUIT]
  have "wait_body 1 ?v3 = Ret (Some 0) v4" using v4(1) by (simp add: wait_body_act wait_act_def)
  then have "server_small pdu pduLen (spc ?s3) (sv ?s3) = Ret (Wait 0) v4" using w by simp
  from server_move [OF _ _ this] q(3) have 4: "?R ?s3 (?s3\<lparr>spc := Wait 0, sv := v4\<rparr>)" by simp
  have "?R\<^sup>*\<^sup>* s (?s3\<lparr>spc := Wait 0, sv := v4\<rparr>)"
    using converse_rtranclp_into_rtranclp [OF 1 converse_rtranclp_into_rtranclp [OF 2 3]] 4
    by (simp add: rtranclp.rtrancl_into_rtrancl)
  moreover have "at_end n b F (Wait 0) (?s3\<lparr>spc := Wait 0, sv := v4\<rparr>)"
    using v4 c' q by (simp add: at_end_def both_at_def)
  ultimately show ?thesis using v4(7) by (intro exI [of _ "?s3\<lparr>spc := Wait 0, sv := v4\<rparr>"]) simp
qed

lemma reach_end:
  assumes s: "round_start n b F (nchunks b F) s" and N: "sizes_ok n b F"
  shows "\<exists>s'. (sys_step pdu pduLen)\<^sup>*\<^sup>* s s' \<and> at_end n b F (Wait 0) s' \<and> \<not> waitingForLastRR (sv s')"
proof -
  let ?R = "sys_step pdu pduLen" and ?N = "nchunks b F"
  have b: "both_at n b F ?N s" "spc s = Fill" "srv_core n b F ?N ?N (sv s)" "\<not> atEOF (sv s)"
    "\<not> waitingForLastRR (sv s)" "net_out (sv s) = []" using s by (auto simp: round_start_def)
  have q: "quiet (sv s)" "net_in (sv s) = []" "shalt s = None" "chalt s = None" using b(1) by (auto simp: both_at_def)
  have "0 < n" using N by (simp add: sizes_ok_def)
  then obtain v where v: "server_small pdu pduLen Fill (sv s) = Ret FillPoll v" "srv_core n b F ?N ?N v"
    "quiet v" "atEOF v" "\<not> waitingForLastRR v" "net_in v = []" "net_out v = []"
    using serve_end [OF b(3) N _ b(4) q(1), of pdu pduLen] b(5,6) q(2) by auto
  have 1: "?R s (s\<lparr>spc := FillPoll, sv := v\<rparr>)" by (rule server_move) (use q b v in simp_all)
  have nil: "v\<lparr>net_in := []\<rparr> = v" using v(6) by (cases v) simp
  let ?s2 = "s\<lparr>spc := FillPoll, sv := v\<lparr>net_in := [Timeout]\<rparr>\<rparr>"
  have 2: "?R (s\<lparr>spc := FillPoll, sv := v\<rparr>) ?s2"
    using server_timer [of pdu pduLen "s\<lparr>spc := FillPoll, sv := v\<rparr>"] v(6) by simp
  have "fill_poll (v\<lparr>net_in := [Timeout]\<rparr>) = Ret () v"
    using pollCall_timeout [of "v\<lparr>net_in := [Timeout]\<rparr>" "[]" 0] nil by (simp add: fill_poll_def)
  then have "server_small pdu pduLen (spc ?s2) (sv ?s2) = Ret Fill v" by simp
  from server_move [OF _ _ this] q(3) have 3: "?R ?s2 (s\<lparr>spc := Fill, sv := v\<rparr>)" by simp
  obtain v' where v': "eof_check v = Ret () v'" "v' = v \<or> v' = v\<lparr>waitingForLastRR := True\<rparr>" "srv_core n b F ?N ?N v'"
    using eof_check_cases [OF v(2) N] v(2,5) by auto
  let ?s4 = "s\<lparr>spc := Wait 0, sv := v'\<rparr>"
  have "server_small pdu pduLen (spc (s\<lparr>spc := Fill, sv := v\<rparr>)) (sv (s\<lparr>spc := Fill, sv := v\<rparr>)) = Ret (Wait 0) v'"
    using v(4) v'(1) by simp
  from server_move [OF _ _ this] q(3) have 4: "?R (s\<lparr>spc := Fill, sv := v\<rparr>) ?s4" by simp
  have run: "?R\<^sup>*\<^sup>* s ?s4" using 1 2 3 4 by (meson converse_rtranclp_into_rtranclp rtranclp.rtrancl_refl)
  have "quiet v'" "net_in v' = []" "atEOF v'" "net_out v' = []" using v v'(2) by (auto simp: quiet_def clean_def)
  then have end_: "at_end n b F (Wait 0) ?s4" using b(1) v'(3) by (simp add: at_end_def both_at_def)
  show ?thesis
  proof (cases "waitingForLastRR v'")
    case True
    from at_end_waits [OF end_ _ N, of pdu pduLen] True run show ?thesis by (auto intro: rtranclp_trans)
  qed (use run end_ in auto)
qed

lemma process_EOF_ACK:
  assumes "net_in s = [Arrive a (enc (flag_code EOF_ACK, q, []))]"
  shows "\<exists>s'. processResponse w k s = Stop (Exit 0) s'"
proof -
  let ?d = "enc (flag_code EOF_ACK, q, [])"
  have d: "dgram_ok ?d" "in_cksum ?d = 0" "dec ?d = Some (flag_code EOF_ACK, q, [])"
    using dgram_enc [of "[]" "flag_code EOF_ACK" q] by simp_all
  then have h: "?d ! 6 = flag_code EOF_ACK" by (auto simp: dec_def split: if_splits)
  have net: "net_in s = [] @ Arrive a ?d # []" "set [] \<subseteq> {Timeout, Hangup}" using assms by simp_all
  show ?thesis
    using h d(2) unfolding processResponse_eq [OF net d(1)] response_act_def by (auto simp: Let_def crc_of_def)
qed

lemma hear_EOF_ACK:
  assumes "proc_ok s" "net_in s = [Arrive a (enc (flag_code EOF_ACK, q, []))]"
  shows "\<exists>s'. eof_poll s = Stop (Exit 0) s'"
proof -
  let ?s = "s\<lparr>eof_tryCount := 0\<rparr>"
  have "processPoll (eof_tryCount s) SHORT_TIME 10 SEND_EOF RECV_POSSIBLE_EOF_ACK DONE_SERVER s = Ret (RECV_POSSIBLE_EOF_ACK, 0) s"
    by (rule processPoll_ready [OF assms])
  moreover have "\<exists>s'. processResponse False (serverSeqNum s) ?s = Stop (Exit 0) s'"
    using assms(2) by (intro process_EOF_ACK) simp
  ultimately show ?thesis by (auto simp: eof_poll_def)
qed

lemma send_eof:
  assumes s: "at_end n b F (At SEND_EOF) s" and N: "sizes_ok n b F"
  shows "\<exists>s'. (sys_step pdu pduLen)\<^sup>*\<^sup>* s s' \<and> shalt s' = Some (Exit 0)"
proof -
  let ?R = "sys_step pdu pduLen" and ?N = "nchunks b F" and ?v = "sv s"
  have b: "both_at n b F ?N s" "spc s = At SEND_EOF" "srv_core n b F ?N ?N ?v" "atEOF ?v" "net_out ?v = []"
    and q: "quiet ?v" "net_in ?v = []" "shalt s = None" "chalt s = None"
    using s by (auto simp: at_end_def both_at_def)
  let ?d = "enc (flag_code END_OF_FILE, of_nat ?N, [])" and ?a = "info (clientConn ?v)"
  have "clean ?v" "serverSeqNum ?v = of_nat ?N" using q(1) b(3) by (simp_all add: quiet_def srv_core_def)
  then obtain m' where m': "pm_clean m'" and snd: "eof_send ?v =
      Ret () (?v\<lparr>pm := m', net_out := net_out ?v @ [(?a, ?d)], send_errs := []\<rparr>)"
    using sendFlagOnly_clean [of ?v "clientConn ?v" "flag_code END_OF_FILE" "of_nat ?N"] by (auto simp: eof_send_def)
  let ?v2 = "?v\<lparr>pm := m', net_out := [(?a, ?d)], send_errs := []\<rparr>"
  let ?s2 = "s\<lparr>spc := EofPoll, sv := ?v2\<rparr>"
  have "server_small pdu pduLen (spc s) ?v = Ret EofPoll ?v2"
    using snd b(2,5) by simp
  from server_move [OF _ _ this] q(3) b(2) have 2: "?R s ?s2" by simp
  have both: "both_at n b F ?N ?s2" using b(1) m' by (auto simp: both_at_def quiet_def clean_def)
  obtain c1 where 3: "?R\<^sup>*\<^sup>* ?s2 (?s2\<lparr>sv := (sv ?s2)\<lparr>net_out := []\<rparr>, cpc := AtC RECV_DATA, cl := c1\<rparr>)"
    and c1: "in_order n b F ?N c1" "net_in c1 = [Arrive ?a ?d]"
    using wake [OF both, of ?a ?d pdu pduLen ?a] by auto
  obtain c2 where c2: "receiveData c1 = Ret SEND_EOF_ACK c2" "clean c2" "net_in c2 = []" "net_out c2 = []"
    using receive_eof [OF c1] by blast
  let ?v3 = "?v2\<lparr>net_out := []\<rparr>"
  let ?s3 = "s\<lparr>spc := EofPoll, sv := ?v3, cpc := AtC RECV_DATA, cl := c1\<rparr>"
  let ?s4 = "s\<lparr>spc := EofPoll, sv := ?v3, cpc := AtC SEND_EOF_ACK, cl := c2\<rparr>"
  have "client_small (cpc ?s3) (cl ?s3) = Ret (AtC SEND_EOF_ACK) c2" using c2(1) by simp
  from client_go [of ?s3, OF _ _ this, of pdu pduLen] q(4) have 4: "?R ?s3 ?s4" by simp
  let ?e = "enc (flag_code EOF_ACK, clientSeqNum c2, [])" and ?b = "info (serverConn c2)"
  obtain m2 where snd2: "sendEOFAck c2 = Ret DONE_RCOPY (c2\<lparr>pm := m2, net_out := [(?b, ?e)], send_errs := [],
      clientSeqNum := clientSeqNum c2 + 1\<rparr>)"
    using sendFlagOnly_clean [OF c2(2), of "serverConn c2" "flag_code EOF_ACK" "clientSeqNum c2"] c2(4)
    by (auto simp: sendEOFAck_def)
  let ?c3 = "c2\<lparr>pm := m2, net_out := [(?b, ?e)], send_errs := [], clientSeqNum := clientSeqNum c2 + 1\<rparr>"
  let ?s5 = "s\<lparr>spc := EofPoll, sv := ?v3, cpc := AtC DONE_RCOPY, cl := ?c3\<rparr>"
  have "client_small (cpc ?s4) (cl ?s4) = Ret (AtC DONE_RCOPY) ?c3" using snd2 by simp
  from client_go [of ?s4, OF _ _ this, of pdu pduLen] q(4) have 5: "?R ?s4 ?s5" by simp
  let ?v6 = "?v3\<lparr>net_in := [Arrive ?b ?e]\<rparr>"
  let ?s6 = "s\<lparr>spc := EofPoll, cpc := AtC DONE_RCOPY, cl := ?c3\<lparr>net_out := []\<rparr>, sv := ?v6\<rparr>"
  have "net_out (cl ?s5) = (?b, ?e) # []" by simp
  from to_server [OF this, of pdu pduLen ?b] q(2) have 6: "?R ?s5 ?s6" by simp
  have "proc_ok ?v6" using b(3) pm_clean_ok [OF m'] by (simp add: srv_core_def proc_ok_def)
  then obtain v7 where "eof_poll ?v6 = Stop (Exit 0) v7" using hear_EOF_ACK [of ?v6 ?b "clientSeqNum c2"] by auto
  then have "server_small pdu pduLen (spc ?s6) (sv ?s6) = Stop (Exit 0) v7" by simp
  from server_halts [OF _ this, of] q(3) have 7: "?R ?s6 (?s6\<lparr>sv := v7, shalt := Some (Exit 0)\<rparr>)" by simp
  have "?R\<^sup>*\<^sup>* ?s3 (?s6\<lparr>sv := v7, shalt := Some (Exit 0)\<rparr>)"
    using 4 5 6 7 by (meson converse_rtranclp_into_rtranclp rtranclp.rtrancl_refl)
  moreover have "?R\<^sup>*\<^sup>* s ?s3"
    using converse_rtranclp_into_rtranclp [OF 2 3] by simp
  ultimately show ?thesis by (intro exI [of _ "?s6\<lparr>sv := v7, shalt := Some (Exit 0)\<rparr>"]) auto
qed

lemma finish:
  assumes s: "at_end n b F (Wait 0) s" "\<not> waitingForLastRR (sv s)" and N: "sizes_ok n b F"
  shows "\<exists>s'. (sys_step pdu pduLen)\<^sup>*\<^sup>* s s' \<and> shalt s' = Some (Exit 0)"
proof -
  have b: "spc s = Wait 0" "srv_core n b F (nchunks b F) (nchunks b F) (sv s)" "atEOF (sv s)" "shalt s = None"
    using s(1) by (auto simp: at_end_def both_at_def)
  have "0 < n" using N by (simp add: sizes_ok_def)
  then have "server_small pdu pduLen (spc s) (sv s) = Ret (At SEND_EOF) (sv s)"
    using win_closed_iff(1) [OF b(2)] s(2) b(1,3) by simp
  from server_move [OF b(4) _ this] b(1)
  have 1: "sys_step pdu pduLen s (s\<lparr>spc := At SEND_EOF, sv := sv s\<rparr>)" by simp
  have "at_end n b F (At SEND_EOF) (s\<lparr>spc := At SEND_EOF, sv := sv s\<rparr>)"
    using s(1) by (simp add: at_end_def both_at_def)
  from send_eof [OF this N] 1 show ?thesis by (meson converse_rtranclp_into_rtranclp)
qed

section \<open>The whole transfer\<close>

lemma complete:
  assumes "sizes_ok n b F" "sys_init n b F s" "clean (cl s)" "quiet (sv s)"
  shows "\<exists>s'. (sys_step pdu pduLen)\<^sup>*\<^sup>* s s' \<and> shalt s' = Some (Exit 0)"
proof -
  let ?R = "sys_step pdu pduLen"
  obtain s1 where 1: "?R\<^sup>*\<^sup>* s s1" "round_start n b F 0 s1" using begin_transfer [OF assms(2-4)] by blast
  obtain s2 where 2: "?R\<^sup>*\<^sup>* s1 s2" "round_start n b F (nchunks b F) s2"
    using all_blocks [OF assms(1) 1(2)] by blast
  obtain s3 where 3: "?R\<^sup>*\<^sup>* s2 s3" "at_end n b F (Wait 0) s3" "\<not> waitingForLastRR (sv s3)"
    using reach_end [OF 2(2) assms(1)] by blast
  obtain s4 where 4: "?R\<^sup>*\<^sup>* s3 s4" "shalt s4 = Some (Exit 0)" using finish [OF 3(2,3) assms(1)] by blast
  from rtranclp_trans [OF 1(1) rtranclp_trans [OF 2(1) rtranclp_trans [OF 3(1) 4(1)]]] 4(2)
  show ?thesis by blast
qed

end
