(* ===== verification/Handshake.thy ===== *)
theory Handshake
  imports Completion
begin

text \<open>
  The exchange of the file name between the two programs: what the client sends is understood
  by the child of the server, the answer brings the client to the next state, and both then
  stand at the start of the transfer. The name is limited to 93 bytes by the length computation
  of \<open>processFilename\<close>, although \<open>checkArgs\<close> of the client admits 100.
\<close>

section \<open>The request\<close>

definition request :: "nat \<Rightarrow> nat \<Rightarrow> byte list \<Rightarrow> byte list" where
  "request b n name = bytes32 (htonl (of_nat b)) @ bytes32 (htonl (of_nat n)) @ name @ [0]"

text \<open>Parameters as \<open>checkArgs\<close> fills them in: the name with its terminating zero.\<close>

definition asks_for :: "nat \<Rightarrow> nat \<Rightarrow> byte list \<Rightarrow> Parameters \<Rightarrow> bool" where
  "asks_for b n name par \<longleftrightarrow> fromFilenameLen par = int (length name) \<and> length name \<le> MAX_FILENAME_LENGTH
     \<and> 0 \<notin> set name \<and> (\<exists>pad. fromFilename par = name @ 0 # pad)
     \<and> bufferSize par = int b \<and> windowSize par = int n"

lemma length_request [simp]: "length (request b n name) = 9 + length name"
  by (simp add: request_def)

lemma request_payload:
  assumes "length name \<le> MAX_FILENAME_LENGTH"
  shows "bindE (memcpy (replicate MAX_PAYLOAD_SIZE 0) 0 (bytes32 (htonl (of_nat b))) 4) (\<lambda>payload.
     bindE (memcpy payload 4 (bytes32 (htonl (of_nat n))) 4) (\<lambda>payload.
     memcpy payload (4 + 4) (name @ 0 # pad) (int (length name) + 1)))
   = Inr (request b n name @ replicate (MAX_PAYLOAD_SIZE - (9 + length name)) 0)"
proof -
  have "nat (int (length name) + 1) = Suc (length name)" by simp
  with assms show ?thesis by (simp add: memcpy_def request_def)
qed

lemma sendFilename_clean:
  assumes "clean c" "asks_for b n name (myParameters c)"
  shows "\<exists>m'. pm_clean m' \<and> sendFilename_send c = Ret () (c\<lparr>pm := m',
    net_out := net_out c @ [(info (serverConn c), enc (flag_code FNAME, clientSeqNum c, request b n name))],
    send_errs := [], clientSeqNum := clientSeqNum c + 1\<rparr>)"
proof -
  obtain pad where par: "fromFilenameLen (myParameters c) = int (length name)" "length name \<le> MAX_FILENAME_LENGTH"
    "fromFilename (myParameters c) = name @ 0 # pad" "bufferSize (myParameters c) = int b"
    "windowSize (myParameters c) = int n"
    using assms(2) by (auto simp: asks_for_def)
  let ?pl = "request b n name @ replicate (MAX_PAYLOAD_SIZE - (9 + length name)) 0"
  have len: "9 + length name \<le> length ?pl" "9 + length name \<le> MAX_PAYLOAD_SIZE"
    "take (9 + length name) ?pl = request b n name" using par(2) by simp_all
  from sendPDU_clean [OF assms(1) this, of "serverConn c" "flag_code FNAME" "clientSeqNum c"]
  obtain m' where "pm_clean m'" "sendPDU (serverConn c) ?pl (int (9 + length name)) (flag_code FNAME) (clientSeqNum c) c =
    Ret () (c\<lparr>pm := m', net_out := net_out c @ [(info (serverConn c), enc (flag_code FNAME, clientSeqNum c, request b n name))],
      send_errs := []\<rparr>)" by blast
  moreover have "int 4 + int 4 + int (length name) + 1 = int (9 + length name)" by simp
  ultimately show ?thesis
    using request_payload [OF par(2), of b n pad] par
    by (intro exI [of _ m']) (simp add: sendFilename_send_def sendFilenamePDU_def Let_def)
qed

section \<open>The server understands it\<close>

lemma request_fields:
  "ntohl (word32 (take 4 (request b n name @ junk))) = of_nat b"
  "ntohl (word32 (take 4 (drop 4 (request b n name @ junk)))) = of_nat n"
  "drop (4 + 4) (request b n name @ junk) = name @ 0 # junk"
  by (simp_all add: request_def word32_bytes32 ntohl_htonl)

text \<open>The copy takes seven bytes too many; up to 93 bytes the array has room for them.\<close>

lemma name_copied:
  assumes "length name \<le> 93" "7 \<le> length junk" "0 \<notin> set name"
  shows "\<exists>filename. memcpy (replicate 101 0) 0 (name @ 0 # junk) (int (length name) + 8) = Inr filename
    \<and> c_string (take (length name + 8) filename) = Inr name"
proof -
  have "nat (int (length name) + 8) = length name + 8" by simp
  moreover have "take (length name + 8) (name @ 0 # junk) = name @ 0 # take 7 junk" by simp
  moreover have "takeWhile (\<lambda>x. x \<noteq> 0) (name @ 0 # take 7 junk) = name"
    using assms(3) by (subst takeWhile_append2) auto
  ultimately show ?thesis using assms(1,2)
    by (intro exI [of _ "name @ 0 # take 7 junk @ replicate (93 - length name) 0"])
      (simp add: memcpy_def c_string_def)
qed

text \<open>
  The environment in which a child can serve the request: memory for the window and for the poll
  set, a socket, the file.
\<close>

definition can_serve :: "nat \<Rightarrow> nat \<Rightarrow> byte list \<Rightarrow> byte list \<Rightarrow> server \<Rightarrow> bool" where
  "can_serve b n name F s \<longleftrightarrow> quiet s \<and> pollset_ok (polled s) \<and> n * sizeof_window_Data \<le> heap s
     \<and> (\<exists>sock ss. sockets s = sock # ss \<and> 0 < sock \<and> n * sizeof_window_Data + poll_memory sock
          \<le> heap s + sizeof_pollfd * nat (currentPollSetSize (polled s)))
     \<and> (\<exists>fd. open_file s name = (fd, F) \<and> 0 \<le> fd)
     \<and> serverSeqNum s = 0 \<and> \<not> atEOF s \<and> \<not> waitingForLastRR s"

text \<open>The answer: the flag \<open>FNAME_STATUS\<close> with the status as its only byte.\<close>

definition status_msg :: "FLAG \<Rightarrow> msg" where
  "status_msg st = (flag_code FNAME_STATUS, SETUP_SEQ_NUM, [flag_code st])"

lemma status_sent:
  assumes "clean s"
  shows "\<exists>m'. pm_clean m' \<and> sendPDU c [flag_code st] 1 (flag_code FNAME_STATUS) SETUP_SEQ_NUM s =
    Ret () (s\<lparr>pm := m', net_out := net_out s @ [(info c, enc (status_msg st))], send_errs := []\<rparr>)"
  using sendPDU_clean [OF assms, of 1 "[flag_code st]" "[flag_code st]" c "flag_code FNAME_STATUS" SETUP_SEQ_NUM]
  by (simp add: status_msg_def)

lemma processFilename_serves:
  assumes "can_serve b n name F s" "n < 2 ^ 31" "length name \<le> 93" "0 \<notin> set name" "7 \<le> length junk"
  shows "\<exists>s'. processFilename (request b n name @ junk) (int (16 + length name)) s = Ret WAIT_ON_FILENAME_OK_ACK s'
    \<and> win s' = fresh_window n \<and> srvBufferSize s' = of_nat b \<and> fileLeft s' = F \<and> serverSeqNum s' = 0
    \<and> proc_ok s' \<and> quiet s' \<and> \<not> atEOF s' \<and> \<not> waitingForLastRR s' \<and> net_in s' = net_in s
    \<and> net_out s' = net_out s @ [(info (clientConn s), enc (status_msg FNAME_OK))]"
proof -
  obtain sock ss fd where sock: "sockets s = sock # ss" "0 < sock"
      "n * sizeof_window_Data + poll_memory sock \<le> heap s + sizeof_pollfd * nat (currentPollSetSize (polled s))"
    and fd: "open_file s name = (fd, F)" "0 \<le> fd"
    and sv: "quiet s" "pollset_ok (polled s)" "n * sizeof_window_Data \<le> heap s" "serverSeqNum s = 0"
      "\<not> atEOF s" "\<not> waitingForLastRR s"
    using assms(1) by (auto simp: can_serve_def)
  let ?s1 = "s\<lparr>srvBufferSize := of_nat b, srvWindowSize := of_nat n\<rparr>"
  have w: "setupWindow (int n) ?s1 = Ret (fresh_window n) (?s1\<lparr>heap := heap ?s1 - n * sizeof_window_Data\<rparr>)"
    using sv(3) by (intro setupWindow_fresh) simp
  obtain filename where name: "memcpy (replicate 101 0) 0 (name @ 0 # junk) (int (length name) + 8) = Inr filename"
    "c_string (take (length name + 8) filename) = Inr name"
    using name_copied [OF assms(3,5,4)] by blast
  let ?before = "s\<lparr>srvBufferSize := of_nat b, srvWindowSize := of_nat n, heap := heap s - n * sizeof_window_Data,
    win := fresh_window n, sockets := ss, clientConn := (clientConn s)\<lparr>socketNum := sock\<rparr>, udp_sock := sock\<rparr>"
  have "\<exists>p'. addToPollSet sock ?before = Ret () p' \<and> poll_added sock ?before p'"
    by (rule addToPollSet_memory) (use sv(2,3) sock(2,3) in simp_all)
  then obtain ps h where ps: "addToPollSet sock ?before = Ret () (?before\<lparr>heap := h, polled := ps\<rparr>)"
    "pollset_ok ps" "is_polled sock ps" by (auto simp: poll_added_def)
  let ?s2 = "s\<lparr>srvBufferSize := of_nat b, srvWindowSize := of_nat n,
    win := fresh_window n, sockets := ss, clientConn := (clientConn s)\<lparr>socketNum := sock\<rparr>, udp_sock := sock,
    heap := h, polled := ps, dataFile := fd, fileLeft := F\<rparr>"
  have "clean ?s2" using sv(1) by (simp add: quiet_def clean_def)
  from status_sent [OF this, of "clientConn ?s2" FNAME_OK] obtain m' where m': "pm_clean m'" and
    snd: "sendPDU (clientConn ?s2) [flag_code FNAME_OK] 1 (flag_code FNAME_STATUS) SETUP_SEQ_NUM ?s2 = Ret ()
      (?s2\<lparr>pm := m', net_out := net_out ?s2 @ [(info (clientConn ?s2), enc (status_msg FNAME_OK))], send_errs := []\<rparr>)"
    by blast
  let ?s3 = "?s2\<lparr>pm := m', net_out := net_out s @ [(info (clientConn s), enc (status_msg FNAME_OK))], send_errs := []\<rparr>"
  have len: "int (16 + length name) - int SIZE_OF_BUFFER_SIZE - int SIZE_OF_WINDOW_SIZE = int (length name) + 8"
    "nat (int (length name) + 8) = length name + 8" by simp_all
  have "processFilename (request b n name @ junk) (int (16 + length name)) s = Ret WAIT_ON_FILENAME_OK_ACK ?s3"
    unfolding processFilename_def Let_def len request_fields
    using w name ps(1) fd sock snd s32_seq [OF assms(2)]
    by (simp add: safeGetUdpSocket_def socket_call_def len)
  moreover have "proc_ok ?s3" using ps(2,3) sock(2) pm_clean_ok [OF m'] by (simp add: proc_ok_def)
  moreover have "quiet ?s3" using sv(1) m' by (simp add: quiet_def clean_def)
  ultimately show ?thesis using sv by (intro exI [of _ ?s3]) simp
qed

lemma processFilename_request:
  assumes "can_serve b n name F s" "sizes_ok n b F" "length name \<le> 93" "0 \<notin> set name" "7 \<le> length junk"
  shows "\<exists>s'. processFilename (request b n name @ junk) (int (16 + length name)) s = Ret WAIT_ON_FILENAME_OK_ACK s'
    \<and> srv_core n b F 0 0 s' \<and> quiet s' \<and> \<not> atEOF s' \<and> \<not> waitingForLastRR s' \<and> net_in s' = net_in s
    \<and> net_out s' = net_out s @ [(info (clientConn s), enc (status_msg FNAME_OK))]"
proof -
  have n: "0 < n" "n < 2 ^ 31" using assms(2) by (auto simp: sizes_ok_def)
  obtain s' where s': "processFilename (request b n name @ junk) (int (16 + length name)) s = Ret WAIT_ON_FILENAME_OK_ACK s'"
    "win s' = fresh_window n" "srvBufferSize s' = of_nat b" "fileLeft s' = F" "serverSeqNum s' = 0"
    "proc_ok s'" "quiet s'" "\<not> atEOF s'" "\<not> waitingForLastRR s'" "net_in s' = net_in s"
    "net_out s' = net_out s @ [(info (clientConn s), enc (status_msg FNAME_OK))]"
    using processFilename_serves [OF assms(1) n(2) assms(3-5)] by blast
  have "lower (fresh_window n) = 0" "current (fresh_window n) = 0" "upper (fresh_window n) = int n"
    by (simp_all add: fresh_window_def)
  then have "srv_core n b F 0 0 s'"
    using s' fresh_window_ok [OF n] by (simp add: srv_core_def win_holds_def)
  with s' show ?thesis by blast
qed

section \<open>A name that is too long\<close>

text \<open>
  C20. A file name of more than 93 bytes overflows the name array of the server: the length of the
  copy is computed from the length of the PDU with its header, so it takes seven bytes too many.
\<close>

theorem long_name_overflows:
  assumes "93 < length name" "7 \<le> length junk" "0 < n" "n < 2 ^ 31" "n * sizeof_window_Data \<le> heap s"
  shows "\<exists>s'. processFilename (request b n name @ junk) (int (16 + length name)) s = Stop (Fault OutOfBounds) s'"
proof -
  let ?s1 = "s\<lparr>srvBufferSize := of_nat b, srvWindowSize := of_nat n\<rparr>"
  have heap1: "nat (int n) * sizeof_window_Data \<le> heap ?s1" using assms(5) by simp
  obtain w where w: "setupWindow (int n) ?s1 = Ret w (?s1\<lparr>heap := heap ?s1 - nat (int n) * sizeof_window_Data\<rparr>)"
    using setupWindow_ok [OF _ _ heap1] assms(3,4) by auto
  have len: "int (16 + length name) - int SIZE_OF_BUFFER_SIZE - int SIZE_OF_WINDOW_SIZE = int (length name) + 8"
    "nat (int (length name) + 8) = length name + 8" by simp_all
  have copy: "memcpy (replicate (MAX_FILENAME_LENGTH + 1) 0) 0 (name @ 0 # junk) (int (length name) + 8) = Inl (Fault OutOfBounds)"
    using assms(1) by (simp add: memcpy_def len)
  show ?thesis
    unfolding processFilename_def Let_def len request_fields
    using w copy s32_seq [OF assms(4)] by simp
qed

theorem long_name_overflows_witness:
  "\<exists>s'. processFilename (request 2 4 (replicate 94 65) @ replicate 100 0) (int (16 + length (replicate 94 (65 :: byte))))
     (sample_server 2 []\<lparr>heap := 5632\<rparr>) = Stop (Fault OutOfBounds) s'"
  by (rule long_name_overflows) simp_all

section \<open>The client hears the answer\<close>

definition status_heard :: "sockaddr_in6 \<Rightarrow> event list \<Rightarrow> rcopy \<Rightarrow> rcopy" where
  "status_heard a es c = c\<lparr>net_in := es, serverConn := (serverConn c)\<lparr>info := a\<rparr>\<rparr>"

lemma getFilenameStatus_eq:
  assumes "net_in c = Arrive a (enc (f, q, x # pl)) # es" "length pl < MAX_PAYLOAD_SIZE"
  shows "getFilenameStatus c = (let c' = status_heard a es c in
     if x = flag_code FNAME_BAD then Ret DONE_RCOPY c'
     else if x = flag_code FNAME_OK then
       (if open_result c < 0 then Ret DONE_RCOPY (c'\<lparr>outputFileDesc := open_result c\<rparr>)
        else Ret FILENAME_OK_STATE (c'\<lparr>outputFileDesc := open_result c, outputFile := []\<rparr>))
     else Ret SETUP_CONNECTION c')"
proof -
  let ?d = "enc (f, q, x # pl)"
  have len: "length (x # pl) \<le> MAX_PAYLOAD_SIZE" using assms(2) by simp
  have net: "net_in c = [] @ Arrive a ?d # es" "set [] \<subseteq> {Timeout, Hangup}" using assms(1) by simp_all
  note d = dgram_enc [OF len, of f q]
  have pl: "drop 7 ?d = x # pl" using d(3) by (auto simp: dec_def split: if_splits)
  have "retrievePDU (serverConn c) (replicate MAX_PAYLOAD_SIZE 0) c = Ret ((serverConn c)\<lparr>info := a\<rparr>, ?d ! 6,
      ntohl (word32 (take 4 ?d)), CRC_GOOD, x # pl @ drop (length ?d - 7) (replicate MAX_PAYLOAD_SIZE 0), int (length ?d) - 7)
      (c\<lparr>net_in := es\<rparr>)"
    using retrievePDU_result [OF net(2,1) d(1), of "replicate MAX_PAYLOAD_SIZE 0" "serverConn c"] d(2) pl
    by (simp add: crc_of_def)
  then show ?thesis by (simp add: getFilenameStatus_def status_heard_def Let_def)
qed

text \<open>
  C32. The client does not look at the flag of the answer to the file name: every undamaged
  datagram whose payload begins with the code of \<open>FNAME_OK\<close>, a space, a block of data
  included, makes it open the output file and go on.
\<close>

theorem status_flag_is_ignored:
  assumes "net_in c = Arrive a (enc (f, q, flag_code FNAME_OK # pl)) # es" "length pl < MAX_PAYLOAD_SIZE"
    "0 \<le> open_result c"
  shows "\<exists>c'. getFilenameStatus c = Ret FILENAME_OK_STATE c' \<and> outputFile c' = []"
  using getFilenameStatus_eq [OF assms(1,2)] assms(3) by (simp add: Let_def)

text \<open>A block of data that begins with a space is taken for the news that the file was found.\<close>

theorem status_flag_is_ignored_witness:
  "\<exists>c'. getFilenameStatus (sample_client [Arrive zero_sockaddr_in6 (enc (flag_code DATA, 7, [32, 104, 105]))])
     = Ret FILENAME_OK_STATE c' \<and> outputFile c' = []"
  by (rule status_flag_is_ignored [where f = "flag_code DATA" and q = 7 and pl = "[104, 105]"])
    (simp_all add: sample_client_def rcopy_boot_def del: enc.simps)

section \<open>From the command line to the transfer\<close>

text \<open>A client that has its socket and is about to ask.\<close>

definition client_ready :: "nat \<Rightarrow> nat \<Rightarrow> byte list \<Rightarrow> rcopy \<Rightarrow> bool" where
  "client_ready b n name c \<longleftrightarrow> asks_for b n name (myParameters c) \<and> proc_ok c \<and> clean c
     \<and> net_in c = [] \<and> net_out c = [] \<and> buf_ok (recvBuf c) \<and> buf_cap (recvBuf c) = n
     \<and> (\<forall>j. buf_look j (recvBuf c) = None) \<and> expectedSeqNum c = 0 \<and> highestSeqNum c = 0
     \<and> dataState c = IN_ORDER \<and> 0 \<le> open_result c"

lemma client_starts:
  assumes "asks_for b n name par" "0 < n" "n < 2 ^ 31" "n * sizeof_buffer_Data + poll_memory sock \<le> memory" "pm_clean manager"
    and "0 < sock" "0 \<le> opened" "c_string (remoteMachine par) = Inr host" "resolve AF_INET6 host = Some addr" "length addr = 16"
  shows "\<exists>c0 c1. processFile_init (rcopy_boot par [] [] manager memory (sock # socks) opened resolve) = Ret () c0
    \<and> client_small (AtC SETUP_CONNECTION) c0 = Ret (AtC SEND_FILENAME) c1 \<and> client_ready b n name c1"
proof -
  let ?boot = "rcopy_boot par [] [] manager memory (sock # socks) opened resolve"
  let ?p = "?boot\<lparr>heap := memory - 80, polled := fresh_pollset\<rparr>"
  have boot: "polled ?boot = static_pollset" "myParameters ?p = par" "heap ?boot = memory"
    "?boot\<lparr>serverConn := \<lparr>socketNum = 0, info = zero_sockaddr_in6, addrLen = 28\<rparr>\<rparr> = ?boot"
    by (simp_all add: rcopy_boot_def)
  have mem: "n * sizeof_buffer_Data + 80 \<le> memory" using assms(4,6) by (simp add: poll_memory_def)
  then have start: "setupPollSet ?boot = Ret () ?p" using setupPollSet_eq [OF boot(1)] boot(3) by simp
  have win: "windowSize par = int n" using assms(1) by (auto simp: asks_for_def)
  have heap1: "nat (int n) * sizeof_buffer_Data \<le> heap ?p" using mem by simp
  obtain B where B: "setupBuffer (int n) ?p = Ret B (?p\<lparr>heap := heap ?p - nat (int n) * sizeof_buffer_Data\<rparr>)"
    "buf_ok B" "buf_cap B = n" "\<forall>k. buf_look k B = None"
    using setupBuffer_ok [OF _ _ heap1] assms(2,3) by auto
  let ?c0 = "?p\<lparr>heap := memory - 80 - n * sizeof_buffer_Data, recvBuf := B, outputFileDesc := 0, clientSeqNum := 0\<rparr>"
  have init: "processFile_init ?boot = Ret () ?c0"
    using B(1) start by (simp add: processFile_init_def boot win)
  let ?a = "\<lparr>sin6_port = htons (word_of_int (portNumber par)), sin6_addr = addr\<rparr>"
  have set: "setupUdpClientToServer resolve (remoteMachine par) (portNumber par) ?c0 = Ret (sock, ?a) (?c0\<lparr>sockets := socks\<rparr>)"
    by (rule setupUdpClientToServer_ok [where getaddrinfo = resolve])
      (use assms(6,8-10) in \<open>simp_all add: rcopy_boot_def\<close>)
  let ?before = "?c0\<lparr>sockets := socks, serverConn := (serverConn ?c0)\<lparr>socketNum := sock, info := ?a\<rparr>, udp_sock := sock\<rparr>"
  have "\<exists>p'. addToPollSet sock ?before = Ret () p' \<and> poll_added sock ?before p'"
    by (rule addToPollSet_memory) (use assms(4,6) mem fresh_pollset_ok in \<open>simp_all add: fresh_pollset_def\<close>)
  then obtain ps h where ps: "addToPollSet sock ?before = Ret () (?before\<lparr>heap := h, polled := ps\<rparr>)"
    "pollset_ok ps" "is_polled sock ps" by (auto simp: poll_added_def)
  let ?c1 = "?before\<lparr>heap := h, polled := ps\<rparr>"
  have "setupConnection ?c0 = Ret SEND_FILENAME ?c1"
    using set ps(1) by (simp add: setupConnection_def) (simp add: rcopy_boot_def)
  then have step: "client_small (AtC SETUP_CONNECTION) ?c0 = Ret (AtC SEND_FILENAME) ?c1" by simp
  have "client_ready b n name ?c1"
    using assms(1,5,6,7) B(2-) ps(2,3) pm_clean_ok
    by (simp add: client_ready_def proc_ok_def clean_def) (simp add: rcopy_boot_def)
  with init step show ?thesis by blast
qed

text \<open>The answer of the child brings both sides to the start of the transfer.\<close>

lemma answer_heard:
  assumes c: "client_ready b n name c" and c': "c' = c\<lparr>pm := m', net_out := [], send_errs := [], clientSeqNum := q\<rparr>" "pm_clean m'"
    and v: "srv_core n b F 0 0 v" "quiet v" "\<not> atEOF v" "\<not> waitingForLastRR v" "net_in v = []"
      "net_out v = [(a, enc (status_msg FNAME_OK))]"
    and s: "s = \<lparr>cpc = NamePoll, cl = c', chalt = None, spc = At WAIT_ON_FILENAME_OK_ACK, sv = v, shalt = None\<rparr>"
  shows "\<exists>s'. (sys_step pdu pduLen)\<^sup>*\<^sup>* s s' \<and> sys_init n b F s' \<and> clean (cl s') \<and> quiet (sv s')"
proof -
  let ?R = "sys_step pdu pduLen" and ?d = "enc (status_msg FNAME_OK)"
  let ?c1 = "c'\<lparr>net_in := [Arrive a ?d]\<rparr>" and ?v = "v\<lparr>net_out := []\<rparr>"
  have ok: "proc_ok ?c1" using c c' pm_clean_ok by (simp add: client_ready_def proc_ok_def)
  have "net_in c' = []" using c c'(1) by (simp add: client_ready_def)
  then have 1: "?R s (s\<lparr>sv := ?v, cl := ?c1\<rparr>)"
    using to_client [of s a ?d "[]" pdu pduLen a] v(6) s by simp
  let ?s1 = "s\<lparr>sv := ?v, cl := ?c1\<rparr>" and ?c2 = "?c1\<lparr>sendFilename_retryCount := 0\<rparr>"
  have net: "net_in ?c1 = Arrive a ?d # []" by simp
  from processPoll_ready [OF ok net, of "sendFilename_retryCount c'" SHORT_TIME 10 SETUP_CONNECTION FILENAME_STATUS DONE_RCOPY]
  have "client_small (cpc ?s1) (cl ?s1) = Ret (AtC FILENAME_STATUS) ?c2" using s by (simp add: sendFilename_poll_def)
  from client_go [of ?s1, OF _ _ this, of pdu pduLen] s
  have 2: "?R ?s1 (s\<lparr>sv := ?v, cpc := AtC FILENAME_STATUS, cl := ?c2\<rparr>)" by simp
  let ?s2 = "s\<lparr>sv := ?v, cpc := AtC FILENAME_STATUS, cl := ?c2\<rparr>"
  let ?c3 = "(status_heard a [] ?c2)\<lparr>outputFileDesc := open_result c, outputFile := []\<rparr>"
  have "0 \<le> open_result ?c2" "open_result ?c2 = open_result c" using c c'(1) by (simp_all add: client_ready_def)
  moreover have "net_in ?c2 = Arrive a (enc (flag_code FNAME_STATUS, SETUP_SEQ_NUM, flag_code FNAME_OK # [])) # []"
    by (simp add: status_msg_def)
  ultimately have "getFilenameStatus ?c2 = Ret FILENAME_OK_STATE ?c3"
    using getFilenameStatus_eq [of ?c2 a "flag_code FNAME_STATUS" SETUP_SEQ_NUM "flag_code FNAME_OK" "[]" "[]"]
    by (simp add: Let_def)
  then have "client_small (cpc ?s2) (cl ?s2) = Ret (AtC FILENAME_OK_STATE) ?c3" by simp
  from client_go [of ?s2, OF _ _ this, of pdu pduLen] s
  have 3: "?R ?s2 (s\<lparr>sv := ?v, cpc := AtC FILENAME_OK_STATE, cl := ?c3\<rparr>)" by simp
  let ?s3 = "s\<lparr>sv := ?v, cpc := AtC FILENAME_OK_STATE, cl := ?c3\<rparr>"
  have cl3: "proc_ok ?c3" "clean ?c3" "net_in ?c3 = []" "net_out ?c3 = []"
    using ok c'(2) c c'(1) by (simp_all add: status_heard_def proc_ok_def clean_def)
  have "client_core n b F 0 0 ?c3"
    using c c'(1) cl3(1) by (simp add: client_core_def client_ready_def status_heard_def)
  then have "sys_init n b F ?s3"
    using c c'(1) cl3 v s by (simp add: sys_init_def client_ready_def status_heard_def)
  moreover have "quiet (sv ?s3)" using v(2) by (simp add: quiet_def)
  moreover have "?R\<^sup>*\<^sup>* s ?s3" using 1 2 3 by (meson converse_rtranclp_into_rtranclp rtranclp.rtrancl_refl)
  ultimately show ?thesis using cl3(2) by (intro exI [of _ ?s3]) simp
qed

text \<open>The parent takes the request as it is; the copy of its buffer goes to the child.\<close>

lemma parent_forks:
  assumes "length pl \<le> MAX_PAYLOAD_SIZE" "length pdu0 = MAX_PDU_SIZE" "0 \<le> pid"
  shows "processServer pdu0 l [pid] [Arrive src (enc (f, q, pl))] =
    ([(src, enc (f, q, pl) @ drop (7 + length pl) pdu0, int (7 + length pl), snd (forkMod 0 l))], Waiting)"
proof -
  let ?d = "enc (f, q, pl)"
  have "length ?d = 7 + length pl" by simp
  moreover from this have "take MAX_PDU_SIZE ?d = ?d" using assms(1) by simp
  moreover have "in_cksum ?d = 0" by (rule dgram_enc [OF assms(1)])
  ultimately show ?thesis using assms(2,3) by (simp add: checkChecksum_def Let_def del: enc.simps)
qed

lemma session:
  assumes par: "asks_for b n name par" "length name \<le> 93" and N: "sizes_ok n b F"
    and client: "n * sizeof_buffer_Data + poll_memory sock \<le> memory" "pm_clean manager" "0 < sock" "0 \<le> opened"
      "c_string (remoteMachine par) = Inr host" "resolve AF_INET6 host = Some addr" "length addr = 16"
    and child: "n * sizeof_window_Data + poll_memory sock' \<le> memory'" "pm_clean manager'" "0 < sock'" "opens name = (fd, F)" "0 \<le> fd"
    and parent: "length pdu0 = MAX_PDU_SIZE" "0 \<le> pid"
  shows "\<exists>c0 c1 c2 a d pdu pduLen v s.
    processFile_init (rcopy_boot par [] [] manager memory (sock # socks) opened resolve) = Ret () c0
    \<and> client_small (AtC SETUP_CONNECTION) c0 = Ret (AtC SEND_FILENAME) c1
    \<and> client_small (AtC SEND_FILENAME) c1 = Ret NamePoll c2 \<and> net_out c2 = [(a, d)]
    \<and> processServer pdu0 l [pid] [Arrive src d] = ([(src, pdu, pduLen, snd (forkMod 0 l))], Waiting)
    \<and> setupPollSet (server_boot src [] [] manager' memory' (sock' # socks') [] junk opens) = Ret () v
    \<and> (sys_step pdu pduLen)\<^sup>*\<^sup>* \<lparr>cpc = NamePoll, cl = c2\<lparr>net_out := []\<rparr>, chalt = None, spc = At START,
         sv = v, shalt = None\<rparr> s
    \<and> shalt s = Some (Exit 0) \<and> outputFile (cl s) = F"
proof -
  have n: "0 < n" "n < 2 ^ 31" using N by (auto simp: sizes_ok_def)
  obtain c0 c1 where c1: "processFile_init (rcopy_boot par [] [] manager memory (sock # socks) opened resolve) = Ret () c0"
    "client_small (AtC SETUP_CONNECTION) c0 = Ret (AtC SEND_FILENAME) c1" and ready: "client_ready b n name c1"
    using client_starts [where resolve = resolve, OF par(1) n client] by blast
  have name: "0 \<notin> set name" using par(1) by (simp add: asks_for_def)
  let ?req = "request b n name"
  let ?d = "enc (flag_code FNAME, clientSeqNum c1, ?req)" and ?a = "info (serverConn c1)"
  obtain m' where m': "pm_clean m'" and snd: "sendFilename_send c1 = Ret () (c1\<lparr>pm := m',
    net_out := [(?a, ?d)], send_errs := [], clientSeqNum := clientSeqNum c1 + 1\<rparr>)"
    using sendFilename_clean [of c1 b n name] ready by (auto simp: client_ready_def simp del: enc.simps)
  let ?c2 = "c1\<lparr>pm := m', net_out := [(?a, ?d)], send_errs := [], clientSeqNum := clientSeqNum c1 + 1\<rparr>"
  let ?pdu = "?d @ drop (7 + length ?req) pdu0" and ?len = "int (7 + length ?req)"
  have fork: "processServer pdu0 l [pid] [Arrive src ?d] = ([(src, ?pdu, ?len, snd (forkMod 0 l))], Waiting)"
    using parent_forks [OF _ parent, of ?req] par(2) by simp
  let ?R = "sys_step ?pdu ?len"
  let ?boot = "server_boot src [] [] manager' memory' (sock' # socks') [] junk opens"
  let ?v = "?boot\<lparr>heap := memory' - 80, polled := fresh_pollset\<rparr>"
  have mem: "n * sizeof_window_Data + 80 \<le> memory'" using child(1,3) by (simp add: poll_memory_def)
  have start: "setupPollSet ?boot = Ret () ?v"
    using setupPollSet_eq [of ?boot] mem by (simp add: server_boot_def)
  have "can_serve b n name F ?v"
    using child mem fresh_pollset_ok
    by (simp add: can_serve_def server_boot_def quiet_def clean_def) (simp add: fresh_pollset_def)
  moreover have "7 \<le> length (drop (7 + length ?req) pdu0)" using parent(1) par(2) by simp
  moreover have pdu: "drop 7 ?pdu = ?req @ drop (7 + length ?req) pdu0" "?len = int (16 + length name)"
    using drop_7_pdu [of "clientSeqNum c1" "flag_code FNAME" ?req] by simp_all
  moreover have boot: "net_in ?v = []" "net_out ?v = []" "info (clientConn ?v) = src" by (simp_all add: server_boot_def)
  ultimately obtain v where
    v: "processFilename (drop 7 ?pdu) ?len ?v = Ret WAIT_ON_FILENAME_OK_ACK v" "srv_core n b F 0 0 v" "quiet v"
      "\<not> atEOF v" "\<not> waitingForLastRR v" "net_in v = []"
      "net_out v = [(src, enc (status_msg FNAME_OK))]"
    using processFilename_request [OF _ N par(2) name, of ?v "drop (7 + length ?req) pdu0"]
    unfolding pdu boot append_Nil by blast
  let ?s0 = "\<lparr>cpc = NamePoll, cl = ?c2\<lparr>net_out := []\<rparr>, chalt = None, spc = At START, sv = ?v, shalt = None\<rparr>"
  have 1: "?R ?s0 (?s0\<lparr>spc := At PROCESS_FILENAME\<rparr>)"
    using server_go [of ?s0 ?pdu ?len "At PROCESS_FILENAME" ?v] by simp
  let ?s1 = "?s0\<lparr>spc := At PROCESS_FILENAME\<rparr>"
  have 2: "?R ?s1 (?s1\<lparr>spc := At WAIT_ON_FILENAME_OK_ACK, sv := v\<rparr>)"
    using server_go [of ?s1 ?pdu ?len "At WAIT_ON_FILENAME_OK_ACK" v] v(1) by (simp del: enc.simps)
  let ?s2 = "\<lparr>cpc = NamePoll, cl = ?c2\<lparr>net_out := []\<rparr>, chalt = None, spc = At WAIT_ON_FILENAME_OK_ACK, sv = v, shalt = None\<rparr>"
  have c2: "?c2\<lparr>net_out := []\<rparr> = c1\<lparr>pm := m', net_out := [], send_errs := [], clientSeqNum := clientSeqNum c1 + 1\<rparr>"
    by simp
  obtain s3 where s3: "?R\<^sup>*\<^sup>* ?s2 s3" "sys_init n b F s3" "clean (cl s3)" "quiet (sv s3)"
    using answer_heard [OF ready c2 m' v(2-7) refl, of ?pdu ?len] by blast
  obtain s4 where s4: "?R\<^sup>*\<^sup>* s3 s4" "shalt s4 = Some (Exit 0)"
    using complete [OF N s3(2-4)] by blast
  have inv: "sys_inv n b F s4" by (rule reach_inv [OF N s3(2) s4(1)])
  have out: "outputFile (cl s4) = F"
    by (rule sys_inv_output(2) [OF inv N sys_inv_output(3) [OF inv N s4(2)]])
  have "?R\<^sup>*\<^sup>* ?s0 s4" using 1 2 s3(1) s4(1) by (auto intro: converse_rtranclp_into_rtranclp rtranclp_trans)
  with c1 snd fork start s4(2) out show ?thesis
    by (intro exI [of _ c0] exI [of _ c1] exI [of _ ?c2] exI [of _ ?a] exI [of _ ?d] exI [of _ ?pdu]
        exI [of _ ?len] exI [of _ ?v] exI [of _ s4]) (simp del: enc.simps processServer.simps)
qed

section \<open>Ten tries\<close>

text \<open>The acknowledgment the client sends next.\<close>

definition ok_ack :: "rcopy \<Rightarrow> sockaddr_in6 \<times> byte list" where
  "ok_ack c = (info (serverConn c), enc (flag_code FNAME_OK_ACK, clientSeqNum c, []))"

lemma filenameOk_timeout_step:
  assumes "proc_ok c" "send_errs c = []" "net_in c = Timeout # es"
  shows "\<exists>c'. rcopy_filenameOk c
      = Ret (if 10 \<le> filenameOk_retryCount c + 1 then DONE_RCOPY else FILENAME_OK_STATE) c'
    \<and> proc_ok c' \<and> send_errs c' = [] \<and> net_in c' = es \<and> outputFile c' = outputFile c
    \<and> filenameOk_retryCount c' = filenameOk_retryCount c + 1
    \<and> serverConn c' = serverConn c \<and> clientSeqNum c' = clientSeqNum c + 1
    \<and> (pm_clean (pm c) \<longrightarrow> pm_clean (pm c') \<and> net_out c' = net_out c @ [ok_ack c])"
proof -
  have pm: "pm_ok (pm c)" using assms(1) by (simp add: proc_ok_def)
  obtain p where p: "sendFlagOnly (serverConn c) (flag_code FNAME_OK_ACK) (clientSeqNum c) c = Ret () p"
    "send_errs p = []"
    using sendPDU_no_error [of 0 "[]" c "serverConn c" "flag_code FNAME_OK_ACK" "clientSeqNum c"] assms(2)
    by (auto simp: sendFlagOnly_def)
  from sendPDU_frame [OF p(1) [unfolded sendFlagOnly_def] pm] obtain out fs pm' where
    p': "pm_ok pm'" "p = c\<lparr>pm := pm', net_out := net_out c @ out, send_errs := fs\<rparr>"
    by (auto simp: sent_state_def)
  have clean: "pm_clean (pm p) \<and> net_out p = net_out c @ [ok_ack c]" if "pm_clean (pm c)"
  proof -
    have "clean c" using that assms(2) by (simp add: clean_def)
    from sendFlagOnly_clean [OF this, of "serverConn c" "flag_code FNAME_OK_ACK" "clientSeqNum c"] p(1)
    show ?thesis by (auto simp: ok_ack_def simp del: enc.simps)
  qed
  have net: "net_in (p\<lparr>clientSeqNum := clientSeqNum p + 1\<rparr>) = Timeout # es" using p' assms(3) by simp
  have "filenameOk_send c = Ret () (p\<lparr>clientSeqNum := clientSeqNum p + 1\<rparr>)"
    unfolding filenameOk_send_def p(1) by simp
  with processPoll_timeout [OF net, of "filenameOk_retryCount c" SHORT_TIME 10 FILENAME_OK_STATE
      RECV_DATA DONE_RCOPY] p' p(2) assms(1) clean show ?thesis
    by (simp add: rcopy_filenameOk_def filenameOk_poll_def proc_ok_def)
qed

lemma filenameOk_retries:
  "proc_ok c \<Longrightarrow> send_errs c = [] \<Longrightarrow> filenameOk_retryCount c = 9 - int j \<Longrightarrow>
   net_in c = replicate (Suc j) Timeout @ es \<Longrightarrow>
   \<exists>c'. client_loop (Suc j) FILENAME_OK_STATE c = Some (Ret () c') \<and> net_in c' = es
     \<and> outputFile c' = outputFile c \<and> (pm_clean (pm c) \<longrightarrow> net_out c' = net_out c @
       map (\<lambda>k. ok_ack (c\<lparr>clientSeqNum := clientSeqNum c + of_nat k\<rparr>)) [0..<Suc j])"
proof (induction j arbitrary: c)
  case 0
  then have "net_in c = Timeout # es" by simp
  from filenameOk_timeout_step [OF 0(1,2) this] 0(3) show ?case by (auto simp: ok_ack_def simp del: enc.simps)
next
  case (Suc j)
  then have "net_in c = Timeout # (replicate (Suc j) Timeout @ es)" by simp
  from filenameOk_timeout_step [OF Suc.prems(1,2) this] Suc.prems(3) obtain c' where
    "rcopy_filenameOk c = Ret FILENAME_OK_STATE c'" "proc_ok c'" "send_errs c' = []"
    "net_in c' = replicate (Suc j) Timeout @ es" "outputFile c' = outputFile c"
    "filenameOk_retryCount c' = 9 - int j" and same: "serverConn c' = serverConn c" "clientSeqNum c' = clientSeqNum c + 1"
    and clean: "pm_clean (pm c) \<longrightarrow> pm_clean (pm c') \<and> net_out c' = net_out c @ [ok_ack c]" by auto
  moreover from Suc.IH [OF this(2,3,6,4)] obtain d where "client_loop (Suc j) FILENAME_OK_STATE c' = Some (Ret () d)"
    "net_in d = es" "outputFile d = outputFile c'" and out: "pm_clean (pm c') \<longrightarrow> net_out d = net_out c' @
       map (\<lambda>k. ok_ack (c'\<lparr>clientSeqNum := clientSeqNum c' + of_nat k\<rparr>)) [0..<Suc j]" by blast
  moreover have "net_out d = net_out c @ map (\<lambda>k. ok_ack (c\<lparr>clientSeqNum := clientSeqNum c + of_nat k\<rparr>)) [0..<Suc (Suc j)]"
    if "pm_clean (pm c)"
  proof -
    let ?f = "\<lambda>k. ok_ack (c\<lparr>clientSeqNum := clientSeqNum c + of_nat k\<rparr>)"
    have "ok_ack (c'\<lparr>clientSeqNum := clientSeqNum c' + of_nat k\<rparr>) = ?f (Suc k)" for k
      using same by (simp add: ok_ack_def add.assoc del: enc.simps)
    moreover have "?f 0 = ok_ack c" by (simp add: ok_ack_def del: enc.simps)
    ultimately show ?thesis using that out clean unfolding map_upt_Suc [of ?f "Suc j"] by simp
  qed
  ultimately show ?case by simp
qed

text \<open>
  C29. A client that hears nothing after its file-name acknowledgment resends it with every
  timeout and gives up after exactly ten, without touching the output file; with no errors
  injected, what it has sent is the acknowledgment ten times over, with consecutive sequence
  numbers.
\<close>

theorem filenameOk_gives_up_after_ten:
  assumes "proc_ok c" "send_errs c = []" "filenameOk_retryCount c = 0"
    and "net_in c = replicate 10 Timeout @ es"
  shows "\<exists>c'. client_loop 10 FILENAME_OK_STATE c = Some (Ret () c') \<and> net_in c' = es
    \<and> outputFile c' = outputFile c \<and> (pm_clean (pm c) \<longrightarrow> net_out c' = net_out c @
        map (\<lambda>k. (info (serverConn c), enc (flag_code FNAME_OK_ACK, clientSeqNum c + of_nat k, []))) [0..<10])"
  using filenameOk_retries [OF assms(1,2), of 9 es] assms(3,4)
  by (simp add: numeral_eq_Suc ok_ack_def del: enc.simps)

theorem filenameOk_gives_up_after_ten_witness:
  "let c = sample_client (replicate 10 Timeout @ []) in
    \<exists>c'. client_loop 10 FILENAME_OK_STATE c = Some (Ret () c') \<and> net_in c' = [] \<and> outputFile c' = outputFile c
    \<and> net_out c' = map (\<lambda>k. (info (serverConn c), enc (flag_code FNAME_OK_ACK, of_nat k, []))) [0..<10]"
proof -
  let ?c = "sample_client (replicate 10 Timeout @ [])"
  have c: "send_errs ?c = []" "filenameOk_retryCount ?c = 0" "net_in ?c = replicate 10 Timeout @ []"
    "pm_clean (pm ?c)" "net_out ?c = []" "clientSeqNum ?c = 0"
    by (simp_all add: sample_client_def rcopy_boot_def pm_clean_def g_PktMgr_def)
  from filenameOk_gives_up_after_ten [OF sample_client_ok c(1-3)] c(4-6) show ?thesis
    unfolding Let_def by (simp only: append_Nil add_0_left simp_thms)
qed

end
