(* ===== verification/Receiver.thy ===== *)
theory Receiver
  imports Handshake
begin

text \<open>
  The receiving side of the client against an abstract receiver with natural numbers for
  sequence numbers and a map for its slots. The abstract receiver takes every sequence of
  datagrams, also those a FIFO link never produces; with it the behaviour under reordering and
  after a second answer to the file name is computed.
\<close>

section \<open>The abstract receiver\<close>

record receiver =
  r_exp :: nat
  r_high :: nat
  r_state :: DATA_STATE
  r_slots :: "nat \<Rightarrow> (byte \<times> byte list) option"
  r_out :: "byte list"

text \<open>
  \<open>n\<close> is the number of slots. \<open>drain\<close> is given the number of sequence numbers up to the
  highest one, which bounds what it can take.
\<close>

fun drain :: "nat \<Rightarrow> nat \<Rightarrow> receiver \<Rightarrow> receiver" where
  "drain n 0 r = r"
| "drain n (Suc m) r =
     (case r_slots r (r_exp r mod n) of
        None \<Rightarrow> r
      | Some (f, d) \<Rightarrow>
          (let r = r\<lparr>r_slots := (r_slots r)(r_exp r mod n := None)\<rparr> in
           if f = flag_code END_OF_FILE then r\<lparr>r_state := DATA_STATE_DONE\<rparr>
           else drain n m (r\<lparr>r_exp := Suc (r_exp r), r_out := r_out r @ d\<rparr>)))"

definition settle :: "receiver \<Rightarrow> receiver" where
  "settle r = (if r_state r = DATA_STATE_DONE then r
     else r\<lparr>r_state := if r_exp r < r_high r then BUFFER else IN_ORDER\<rparr>)"

fun accept :: "nat \<Rightarrow> byte \<times> nat \<times> byte list \<Rightarrow> receiver \<Rightarrow> receiver" where
  "accept n (f, k, pl) r =
     (if k = r_exp r then
        if f = flag_code END_OF_FILE then r\<lparr>r_state := DATA_STATE_DONE\<rparr>
        else
          (let r' = r\<lparr>r_exp := Suc k, r_out := r_out r @ pl\<rparr> in
           if r_state r = IN_ORDER then r'\<lparr>r_high := k\<rparr>
           else settle (drain n (Suc (r_high r) - Suc k) r'))
      else if r_exp r < k then
        r\<lparr>r_high := k, r_slots := (r_slots r)(k mod n := Some (f, pl)), r_state := BUFFER\<rparr>
      else r)"

section \<open>The slots\<close>

definition slots :: "nat \<Rightarrow> (nat \<Rightarrow> (byte \<times> byte list) option) \<Rightarrow> recv_buf \<Rightarrow> bool" where
  "slots n S B \<longleftrightarrow> buf_ok B \<and> buf_cap B = n \<and> (\<forall>k. buf_look k B = S (k mod n))"

lemma slots_put:
  assumes "slots n S B" "k < 2 ^ 31" "take m payload = pl" "m \<le> length payload" "m \<le> MAX_PAYLOAD_SIZE"
  shows "\<exists>B'. addDatatoBuffer (of_nat k) f payload (int m) B = Inr B' \<and> slots n (S(k mod n := Some (f, pl))) B'"
proof -
  have B: "buf_ok B" "buf_cap B = n" "\<And>k. buf_look k B = S (k mod n)" using assms(1) by (auto simp: slots_def)
  from addDatatoBuffer_ok [OF B(1) assms(2,4,5), of f] obtain B' where
    "addDatatoBuffer (of_nat k) f payload (int m) B = Inr B'" "buf_ok B'" "myBufferSize B' = myBufferSize B"
    "\<forall>j. buf_look j B' = (if j mod n = k mod n then Some (f, pl) else buf_look j B)"
    using assms(3) B(2) by auto
  with B show ?thesis by (auto simp: slots_def buf_cap_def)
qed

lemma slots_get:
  assumes "slots n S B" "k < 2 ^ 31" "length data = MAX_PAYLOAD_SIZE"
  shows "\<exists>B'. getDataFromBuffer (of_nat k) data B =
      Inr (map_option (\<lambda>(f, d). (f, d @ drop (length d) data, int (length d))) (S (k mod n)), B')
    \<and> slots n (S(k mod n := None)) B'"
proof -
  have B: "buf_ok B" "buf_cap B = n" "\<And>k. buf_look k B = S (k mod n)" using assms(1) by (auto simp: slots_def)
  from getDataFromBuffer_del [OF B(1) assms(2,3)] buf_del_ok [OF B(1) assms(2)] B show ?thesis
    by (auto simp: slots_def)
qed

lemma slots_length:
  assumes "slots n S B" "S (k mod n) = Some (f, d)"
  shows "length d \<le> MAX_PAYLOAD_SIZE"
  using assms buf_look_length [of B k f d] by (simp add: slots_def)

section \<open>Acknowledgments of a clean client\<close>

text \<open>What sending an acknowledgment changes.\<close>

definition acked_clean :: "rcopy \<Rightarrow> rcopy \<Rightarrow> bool" where
  "acked_clean c c' \<longleftrightarrow> (\<exists>m out q. pm_clean m \<and>
     c' = c\<lparr>pm := m, net_out := out, send_errs := [], clientSeqNum := q\<rparr>)"

lemma acked_clean_trans: "acked_clean c c' \<Longrightarrow> acked_clean c' c'' \<Longrightarrow> acked_clean c c''"
  by (auto simp: acked_clean_def) metis

lemma acked_cleanD:
  "acked_clean c c' \<Longrightarrow> clean c' \<and> net_in c' = net_in c \<and> recvBuf c' = recvBuf c \<and> dataState c' = dataState c
    \<and> expectedSeqNum c' = expectedSeqNum c \<and> highestSeqNum c' = highestSeqNum c \<and> outputFile c' = outputFile c
    \<and> (proc_ok c \<longrightarrow> proc_ok c')"
  by (auto simp: acked_clean_def clean_def proc_ok_def pm_clean_ok)

lemma acks_clean:
  assumes "clean c"
  shows "\<exists>c'. sendRR v c = Ret () c' \<and> acked_clean c c'"
    "\<exists>c'. sendSREJ v c = Ret () c' \<and> acked_clean c c'"
proof -
  have "take 4 (bytes32 (htonl v)) = bytes32 (htonl v)" by simp
  note snd = sendPDU_clean [OF assms, of 4 "bytes32 (htonl v)", OF _ _ this, of "serverConn c" _ "clientSeqNum c"]
  show "\<exists>c'. sendRR v c = Ret () c' \<and> acked_clean c c'"
    using snd [of "flag_code RR"] by (auto simp: sendRR_def acked_clean_def simp del: enc.simps) blast
  show "\<exists>c'. sendSREJ v c = Ret () c' \<and> acked_clean c c'"
    using snd [of "flag_code SREJ"] by (auto simp: sendSREJ_def acked_clean_def simp del: enc.simps) blast
qed

lemma both_acks_clean:
  assumes "clean c"
  shows "\<exists>c'. bindO (sendRR (expectedSeqNum c) c) (\<lambda>_ c. bindO (sendSREJ (expectedSeqNum c) c) (\<lambda>_. Ret st)) = Ret st c'
    \<and> acked_clean c c'"
proof -
  obtain c1 where c1: "sendRR (expectedSeqNum c) c = Ret () c1" "acked_clean c c1" using acks_clean(1) [OF assms] by blast
  then have "clean c1" by (simp add: acked_cleanD)
  then obtain c2 where "sendSREJ (expectedSeqNum c1) c1 = Ret () c2" "acked_clean c1 c2" using acks_clean(2) by blast
  with c1 acked_clean_trans show ?thesis by auto
qed

section \<open>The loop of flush\<close>

lemma flush_loop_drain:
  assumes "slots n (r_slots r) (recvBuf c)" "expectedSeqNum c = of_nat (r_exp r)" "highestSeqNum c = of_nat H"
    and "r_exp r \<le> Suc H" "H < 2 ^ 31 - 1" "length data = MAX_PAYLOAD_SIZE" "outputFile c = r_out r"
    and "r_state r \<noteq> DATA_STATE_DONE" "r' = drain n (Suc H - r_exp r) r"
  shows "\<exists>B'. flush_loop data c = Ret (if r_state r' = DATA_STATE_DONE then Some DATA_STATE_DONE else None)
      (c\<lparr>recvBuf := B', expectedSeqNum := of_nat (r_exp r'), outputFile := r_out r'\<rparr>)
    \<and> slots n (r_slots r') B' \<and> r_exp r' \<le> Suc H \<and> r_high r' = r_high r
    \<and> (r_state r' = DATA_STATE_DONE \<or> r_state r' = r_state r)"
  using assms
proof (induction "Suc H - r_exp r" arbitrary: c r data)
  case 0
  then have "\<not> expectedSeqNum c \<le> highestSeqNum c" by (simp add: seq_le)
  with 0 show ?case by (intro exI [of _ "recvBuf c"]) (simp add: flush_loop.simps)
next
  case (Suc m)
  have small: "r_exp r < 2 ^ 31" using Suc.hyps(2) Suc.prems(5) by simp
  have le: "expectedSeqNum c \<le> highestSeqNum c" using Suc.hyps(2) Suc.prems(2,3,5) small by (simp add: seq_le)
  have r': "r' = drain n (Suc m) r" using Suc.hyps(2) Suc.prems(9) by simp
  obtain B where get: "getDataFromBuffer (expectedSeqNum c) data (recvBuf c) =
      Inr (map_option (\<lambda>(f, d). (f, d @ drop (length d) data, int (length d))) (r_slots r (r_exp r mod n)), B)"
    and B: "slots n ((r_slots r)(r_exp r mod n := None)) B"
    using slots_get [OF Suc.prems(1) small Suc.prems(6)] unfolding Suc.prems(2) by blast
  show ?case
  proof (cases "r_slots r (r_exp r mod n)")
    case None
    then have "(r_slots r)(r_exp r mod n := None) = r_slots r" by auto
    with None get B le r' Suc.prems(2,4,7,8) show ?thesis
      by (intro exI [of _ B]) (simp add: flush_loop.simps)
  next
    case (Some v)
    obtain f d where v: "v = (f, d)" by fastforce
    show ?thesis
    proof (cases "f = flag_code END_OF_FILE")
      case True
      with Some v get B le r' Suc.prems(2,4,7) show ?thesis
        by (intro exI [of _ B]) (simp add: flush_loop.simps)
    next
      case False
      let ?data = "d @ drop (length d) data"
      let ?c = "write_out ?data (int (length d)) (c\<lparr>recvBuf := B, expectedSeqNum := expectedSeqNum c + 1\<rparr>)"
      let ?r = "r\<lparr>r_slots := (r_slots r)(r_exp r mod n := None), r_exp := Suc (r_exp r), r_out := r_out r @ d\<rparr>"
      have d: "length d \<le> MAX_PAYLOAD_SIZE" using slots_length [OF Suc.prems(1)] Some v by simp
      have "r' = drain n m ?r" using Some v False by (simp add: r')
      moreover have "m = Suc H - r_exp ?r" using Suc.hyps(2) by simp
      moreover have "slots n (r_slots ?r) (recvBuf ?c)" using B by (simp add: write_out_def)
      moreover have "expectedSeqNum ?c = of_nat (r_exp ?r)" "highestSeqNum ?c = of_nat H" "outputFile ?c = r_out ?r"
        using Suc.prems(2,3,7) by (simp_all add: write_out_def)
      moreover have "r_exp ?r \<le> Suc H" using Suc.hyps(2) by simp
      moreover have "length ?data = MAX_PAYLOAD_SIZE" using d Suc.prems(6) by simp
      ultimately obtain B' where B':
        "flush_loop ?data ?c = Ret (if r_state r' = DATA_STATE_DONE then Some DATA_STATE_DONE else None)
          (?c\<lparr>recvBuf := B', expectedSeqNum := of_nat (r_exp r'), outputFile := r_out r'\<rparr>)"
        "slots n (r_slots r') B'" "r_exp r' \<le> Suc H" "r_high r' = r_high r"
        "r_state r' = DATA_STATE_DONE \<or> r_state r' = r_state r"
        using Suc.hyps(1) [of ?r ?c ?data] Suc.prems(5,8) by auto
      have "flush_loop data c = flush_loop ?data ?c"
        using get Some v False le by (subst flush_loop.simps) simp
      with B' show ?thesis by (intro exI [of _ B']) (simp add: write_out_def)
    qed
  qed
qed

section \<open>One datagram\<close>

definition receives :: "nat \<Rightarrow> receiver \<Rightarrow> rcopy \<Rightarrow> bool" where
  "receives n r c \<longleftrightarrow> clean c \<and> proc_ok c \<and> slots n (r_slots r) (recvBuf c)
     \<and> expectedSeqNum c = of_nat (r_exp r) \<and> highestSeqNum c = of_nat (r_high r)
     \<and> r_exp r < 2 ^ 31 \<and> r_high r < 2 ^ 31 - 1 \<and> dataState c = r_state r \<and> outputFile c = r_out r
     \<and> r_state r \<in> {IN_ORDER, BUFFER, DATA_STATE_DONE} \<and> (r_state r = BUFFER \<longrightarrow> r_exp r < r_high r)"

lemma receives_acked:
  "receives n r c \<Longrightarrow> acked_clean c c' \<Longrightarrow> receives n r c' \<and> net_in c' = net_in c"
  by (simp add: receives_def acked_cleanD)

lemma inOrder_accept:
  assumes rc: "receives n r c" "r_state r = IN_ORDER" and k: "k < 2 ^ 31 - 1"
    and pl: "take (length pl) payload = pl" "length pl \<le> length payload" "length pl \<le> MAX_PAYLOAD_SIZE"
  shows "\<exists>c'. inOrder (of_nat k) payload (int (length pl)) f c = Ret (r_state (accept n (f, k, pl) r)) c'
    \<and> receives n (accept n (f, k, pl) r) (c'\<lparr>dataState := r_state (accept n (f, k, pl) r)\<rparr>) \<and> net_in c' = net_in c"
proof -
  note i = rc(1) [unfolded receives_def]
  have k31: "k < 2 ^ 31" "Suc k < 2 ^ 31" using k by simp_all
  have eq: "of_nat k = expectedSeqNum c \<longleftrightarrow> k = r_exp r" and lt: "expectedSeqNum c < of_nat k \<longleftrightarrow> r_exp r < k"
    using i k31(1) by (simp_all add: seq_eq seq_less)
  consider "k = r_exp r" "f = flag_code END_OF_FILE" | "k = r_exp r" "f \<noteq> flag_code END_OF_FILE" | "r_exp r < k" | "k < r_exp r"
    by linarith
  then show ?thesis
  proof cases
    case 1
    then show ?thesis using i eq by (intro exI [of _ c]) (simp add: inOrder_def receives_def clean_def proc_ok_def)
  next
    case 2
    have acc: "accept n (f, k, pl) r = r\<lparr>r_exp := Suc k, r_out := r_out r @ pl, r_high := k\<rparr>"
      using 2 rc(2) by (simp add: Let_def)
    let ?c = "write_out payload (int (length pl)) (c\<lparr>highestSeqNum := of_nat k, expectedSeqNum := expectedSeqNum c + 1\<rparr>)"
    have "clean ?c" using i by (simp add: write_out_def clean_def)
    from acks_clean(1) [OF this] obtain c' where c': "sendRR (expectedSeqNum ?c) ?c = Ret () c'" "acked_clean ?c c'" by blast
    have "inOrder (of_nat k) payload (int (length pl)) f c = Ret IN_ORDER c'"
      using 2 eq c'(1) by (simp add: inOrder_def Let_def)
    then show ?thesis
      unfolding acc using 2(1) i k31 k pl acked_cleanD [OF c'(2)] rc(2) by (intro exI [of _ c'])
        (simp add: receives_def write_out_def proc_ok_def clean_def)
  next
    case 3
    obtain B where B: "addDatatoBuffer (of_nat k) f payload (int (length pl)) (recvBuf c) = Inr B"
      "slots n ((r_slots r)(k mod n := Some (f, pl))) B"
      using slots_put [OF _ k31(1) pl] i by blast
    let ?c = "c\<lparr>highestSeqNum := of_nat k, recvBuf := B\<rparr>"
    have acc: "accept n (f, k, pl) r = r\<lparr>r_high := k, r_slots := (r_slots r)(k mod n := Some (f, pl)), r_state := BUFFER\<rparr>"
      using 3 by simp
    have "clean ?c" using i by (simp add: clean_def)
    from acks_clean(2) [OF this] obtain c' where c': "sendSREJ (expectedSeqNum c) ?c = Ret () c'" "acked_clean ?c c'" by blast
    have "inOrder (of_nat k) payload (int (length pl)) f c = Ret BUFFER c'"
      using 3 eq lt c'(1) B(1) by (simp add: inOrder_def Let_def)
    then show ?thesis
      unfolding acc using 3 i k B(2) acked_cleanD [OF c'(2)] by (intro exI [of _ c'])
        (simp add: receives_def proc_ok_def clean_def)
  next
    case 4
    from acks_clean(1) i obtain c' where c': "sendRR (expectedSeqNum c) c = Ret () c'" "acked_clean c c'" by blast
    have "accept n (f, k, pl) r = r" using 4 by simp
    moreover have "inOrder (of_nat k) payload (int (length pl)) f c = Ret IN_ORDER c'"
      using 4 eq lt c'(1) by (simp add: inOrder_def)
    ultimately show ?thesis
      using i rc(2) acked_cleanD [OF c'(2)] by (intro exI [of _ c'])
        (simp add: receives_def proc_ok_def clean_def)
  qed
qed

text \<open>The flush after the missing block has come.\<close>

lemma flush_settle:
  assumes "clean c" "proc_ok c" "slots n (r_slots r) (recvBuf c)" "expectedSeqNum c = of_nat (r_exp r)"
    and "highestSeqNum c = of_nat (r_high r)" "r_exp r \<le> Suc (r_high r)" "r_high r < 2 ^ 31 - 1"
    and "outputFile c = r_out r" "r_state r \<noteq> DATA_STATE_DONE"
    and r': "r' = settle (drain n (Suc (r_high r) - r_exp r) r)"
  shows "\<exists>c'. flush c = Ret (r_state r') c' \<and> receives n r' (c'\<lparr>dataState := r_state r'\<rparr>) \<and> net_in c' = net_in c"
proof -
  define q where "q = drain n (Suc (r_high r) - r_exp r) r"
  have "length (replicate MAX_PAYLOAD_SIZE (0 :: byte)) = MAX_PAYLOAD_SIZE" by simp
  from flush_loop_drain [OF assms(3-7) this assms(8,9) q_def] obtain B where
    loop: "flush_loop (replicate MAX_PAYLOAD_SIZE 0) c = Ret (if r_state q = DATA_STATE_DONE then Some DATA_STATE_DONE else None)
      (c\<lparr>recvBuf := B, expectedSeqNum := of_nat (r_exp q), outputFile := r_out q\<rparr>)"
    and B: "slots n (r_slots q) B" and q: "r_exp q \<le> Suc (r_high r)" "r_high q = r_high r"
    by blast
  let ?c = "c\<lparr>recvBuf := B, expectedSeqNum := of_nat (r_exp q), outputFile := r_out q\<rparr>"
  have cl: "clean ?c" and ok: "proc_ok ?c" using assms(1,2) by (simp_all add: clean_def proc_ok_def)
  have small: "r_exp q < 2 ^ 31" "r_high q < 2 ^ 31" using q assms(7) by simp_all
  have lt: "expectedSeqNum ?c < highestSeqNum ?c \<longleftrightarrow> r_exp q < r_high q"
    using small assms(5) q(2) by (simp add: seq_less)
  consider "r_state q = DATA_STATE_DONE" | "r_state q \<noteq> DATA_STATE_DONE" "r_exp q < r_high q"
    | "r_state q \<noteq> DATA_STATE_DONE" "\<not> r_exp q < r_high q" by blast
  then show ?thesis
  proof cases
    case 1
    then have "r' = q" by (simp add: r' q_def [symmetric] settle_def)
    with 1 loop cl ok B q small assms(5,7) show ?thesis
      by (intro exI [of _ ?c]) (simp add: flush_def receives_def clean_def proc_ok_def)
  next
    case 2
    have r'': "r' = q\<lparr>r_state := BUFFER\<rparr>" using 2 by (simp add: r' q_def [symmetric] settle_def)
    from both_acks_clean [OF cl, of BUFFER] obtain c' where
      c': "bindO (sendRR (expectedSeqNum ?c) ?c) (\<lambda>_ c. bindO (sendSREJ (expectedSeqNum c) c) (\<lambda>_. Ret BUFFER)) = Ret BUFFER c'"
      "acked_clean ?c c'" by blast
    have "flush c = Ret BUFFER c'" using 2 loop lt c'(1) by (simp add: flush_def)
    with 2 ok B q small assms(5,7) show ?thesis
      unfolding r'' using acked_cleanD [OF c'(2)]
      by (intro exI [of _ c']) (simp add: receives_def clean_def proc_ok_def)
  next
    case 3
    have r'': "r' = q\<lparr>r_state := IN_ORDER\<rparr>" using 3 by (simp add: r' q_def [symmetric] settle_def)
    from acks_clean(1) [OF cl] obtain c' where
      c': "sendRR (expectedSeqNum ?c) ?c = Ret () c'" "acked_clean ?c c'" by blast
    have "flush c = Ret IN_ORDER c'" using 3 loop lt c'(1) by (simp add: flush_def)
    with 3 ok B q small assms(5,7) show ?thesis
      unfolding r'' using acked_cleanD [OF c'(2)]
      by (intro exI [of _ c']) (simp add: receives_def clean_def proc_ok_def)
  qed
qed

text \<open>What a datagram leads to, given the new abstract state.\<close>

definition taken :: "nat \<Rightarrow> receiver \<Rightarrow> rcopy \<Rightarrow> (rcopy, rcopy_STATE) outcome \<Rightarrow> bool" where
  "taken n r' c res \<longleftrightarrow> (\<exists>c'. res = Ret (if r_state r' = DATA_STATE_DONE then SEND_EOF_ACK else RECV_DATA) c'
     \<and> receives n r' c' \<and> net_in c' = net_in c)"

lemma taken_dispatch:
  assumes "dispatch_data k payload l f c = Ret (r_state r') c'" "receives n r' (c'\<lparr>dataState := r_state r'\<rparr>)"
    "net_in c' = net_in c"
  shows "taken n r' c (run_data_state k payload l f c)"
proof -
  have "r_state r' \<noteq> FLUSH" using assms(2) by (auto simp: receives_def)
  with assms show ?thesis
    unfolding taken_def by (intro exI [of _ "c'\<lparr>dataState := r_state r'\<rparr>"]) (simp add: run_data_state_def)
qed

lemma taken_flush:
  assumes "dispatch_data k payload l f c = Ret FLUSH c1" "flush (c1\<lparr>dataState := FLUSH\<rparr>) = Ret (r_state r') c'"
    "receives n r' (c'\<lparr>dataState := r_state r'\<rparr>)" "net_in c' = net_in c"
  shows "taken n r' c (run_data_state k payload l f c)"
  unfolding taken_def using assms
  by (intro exI [of _ "c'\<lparr>dataState := r_state r'\<rparr>"]) (simp add: run_data_state_def)

lemma buffer_accept:
  assumes rc: "receives n r c" "r_state r = BUFFER" and k: "k < 2 ^ 31 - 1"
    and pl: "take (length pl) payload = pl" "length pl \<le> length payload" "length pl \<le> MAX_PAYLOAD_SIZE"
  shows "taken n (accept n (f, k, pl) r) c (run_data_state (of_nat k) payload (int (length pl)) f c)"
proof -
  note i = rc(1) [unfolded receives_def]
  have k31: "k < 2 ^ 31" "Suc k < 2 ^ 31" using k by simp_all
  have disp: "dispatch_data (of_nat k) payload (int (length pl)) f c = buffer_state (of_nat k) payload (int (length pl)) f c"
    using rc(2) i by (simp add: dispatch_data_def)
  have eq: "of_nat k = expectedSeqNum c \<longleftrightarrow> k = r_exp r" and lt: "expectedSeqNum c < of_nat k \<longleftrightarrow> r_exp r < k"
    using i k31(1) by (simp_all add: seq_eq seq_less)
  consider "k = r_exp r" "f = flag_code END_OF_FILE" | "k = r_exp r" "f \<noteq> flag_code END_OF_FILE" | "r_exp r < k" | "k < r_exp r"
    by linarith
  then show ?thesis
  proof cases
    case 1
    show ?thesis
      by (rule taken_dispatch [where c' = c])
        (use 1 eq disp i in \<open>simp_all add: buffer_state_def receives_def clean_def proc_ok_def\<close>)
  next
    case 2
    let ?r = "r\<lparr>r_exp := Suc k, r_out := r_out r @ pl\<rparr>"
    let ?c = "write_out payload (int (length pl)) (c\<lparr>expectedSeqNum := expectedSeqNum c + 1\<rparr>)"
    have acc: "accept n (f, k, pl) r = settle (drain n (Suc (r_high ?r) - r_exp ?r) ?r)"
      using 2 rc(2) by (simp add: Let_def)
    obtain c' where "flush (?c\<lparr>dataState := FLUSH\<rparr>) = Ret (r_state (accept n (f, k, pl) r)) c'"
      "receives n (accept n (f, k, pl) r) (c'\<lparr>dataState := r_state (accept n (f, k, pl) r)\<rparr>)" "net_in c' = net_in c"
      using flush_settle [OF _ _ _ _ _ _ _ _ _ acc, of "?c\<lparr>dataState := FLUSH\<rparr>"] i 2(1) rc(2) k31 pl
      by (auto simp: write_out_def clean_def proc_ok_def simp del: accept.simps)
    moreover have "dispatch_data (of_nat k) payload (int (length pl)) f c = Ret FLUSH ?c"
      using 2 eq disp by (simp add: buffer_state_def)
    ultimately show ?thesis by (intro taken_flush)
  next
    case 3
    obtain B where B: "addDatatoBuffer (of_nat k) f payload (int (length pl)) (recvBuf c) = Inr B"
      "slots n ((r_slots r)(k mod n := Some (f, pl))) B"
      using slots_put [OF _ k31(1) pl] i by blast
    show ?thesis
      by (rule taken_dispatch [where c' = "c\<lparr>highestSeqNum := of_nat k, recvBuf := B\<rparr>"])
        (use 3 eq lt disp B i k in \<open>simp_all add: buffer_state_def receives_def clean_def proc_ok_def\<close>)
  next
    case 4
    have acc: "accept n (f, k, pl) r = r" using 4 by simp
    have "clean c" using i by simp
    from both_acks_clean [OF this, of BUFFER] obtain c' where
      c': "bindO (sendRR (expectedSeqNum c) c) (\<lambda>_ c. bindO (sendSREJ (expectedSeqNum c) c) (\<lambda>_. Ret BUFFER)) = Ret BUFFER c'"
      "acked_clean c c'" by blast
    show ?thesis
      unfolding acc
      by (rule taken_dispatch [where c' = c'])
        (use 4 eq lt disp c'(1) rc(2) i acked_cleanD [OF c'(2)]
          in \<open>simp_all add: buffer_state_def receives_def clean_def proc_ok_def\<close>)
  qed
qed

lemma receive_accept:
  assumes rc: "receives n r c" "r_state r \<noteq> DATA_STATE_DONE" and k: "k < 2 ^ 31 - 1"
    and pl: "length pl \<le> MAX_PAYLOAD_SIZE" and net: "net_in c = Arrive a (enc (f, of_nat k, pl)) # es"
  shows "\<exists>c'. receiveData c = Ret (if r_state (accept n (f, k, pl) r) = DATA_STATE_DONE then SEND_EOF_ACK else RECV_DATA) c'
    \<and> receives n (accept n (f, k, pl) r) c' \<and> net_in c' = es"
proof -
  let ?d = "enc (f, of_nat k, pl)" and ?c = "c\<lparr>net_in := es, serverConn := (serverConn c)\<lparr>info := a\<rparr>\<rparr>"
  note d = dgram_enc [OF pl, of f "of_nat k"]
  then have h: "?d ! 6 = f" "ntohl (word32 (take 4 ?d)) = of_nat k" "drop 7 ?d = pl"
    by (auto simp: dec_def split: if_splits)
  have net': "net_in c = [] @ Arrive a ?d # es" "passes []" and ok: "proc_ok c"
    using net rc(1) by (simp_all add: receives_def)
  let ?payload = "pl @ replicate (1407 - length ?d) 0"
  have eq: "receiveData c = run_data_state (of_nat k) ?payload (int (length pl)) f ?c"
    using receiveData_eq [OF ok net' d(1)] d(2) h by (simp add: Let_def)
  have rc': "receives n r ?c" using rc(1) by (simp add: receives_def clean_def proc_ok_def)
  have "taken n (accept n (f, k, pl) r) ?c (run_data_state (of_nat k) ?payload (int (length pl)) f ?c)"
  proof (cases "r_state r = IN_ORDER")
    case True
    then have "dispatch_data (of_nat k) ?payload (int (length pl)) f ?c = inOrder (of_nat k) ?payload (int (length pl)) f ?c"
      using rc' by (simp add: dispatch_data_def receives_def)
    with inOrder_accept [OF rc' True k, of pl ?payload f] pl taken_dispatch show ?thesis
      by (metis append_eq_conv_conj le_add1 length_append)
  next
    case False
    then have "r_state r = BUFFER" using rc by (auto simp: receives_def)
    from buffer_accept [OF rc' this k, of pl ?payload f] pl show ?thesis by simp
  qed
  then show ?thesis by (simp add: taken_def eq)
qed


section \<open>Consequences\<close>

declare accept.simps [simp del]

definition fresh :: receiver where
  "fresh = \<lparr>r_exp = 0, r_high = 0, r_state = IN_ORDER, r_slots = \<lambda>_. None, r_out = []\<rparr>"

lemma fresh_receives:
  assumes "client_core n b F 0 0 c" "dataState c = IN_ORDER" "\<forall>j. buf_look j (recvBuf c) = None" "clean c"
  shows "receives n fresh c"
  using assms by (simp add: receives_def fresh_def slots_def client_core_def)

lemma sample_client_receives: "receives 4 fresh (sample_client es)"
proof -
  have "client_core 4 1 [] 0 0 (sample_client [])" "\<forall>j. buf_look j (recvBuf (sample_client [])) = None"
    "dataState (sample_client []) = IN_ORDER" "clean (sample_client [])"
    using sample_sys_init [of 1 "[]"] by (simp_all add: sys_init_def sample_sys_def)
      (simp add: sample_client_def rcopy_boot_def clean_def pm_clean_def g_PktMgr_def)
  from fresh_receives [OF this(1,3,2,4)] have "receives 4 fresh (sample_client [])" .
  moreover have "sample_client es = (sample_client [])\<lparr>net_in := es\<rparr>" by (simp add: sample_client_def rcopy_boot_def)
  ultimately show ?thesis by (simp add: receives_def clean_def proc_ok_def)
qed


text \<open>A client that handles one datagram after the other.\<close>

definition data_arrives :: "sockaddr_in6 \<Rightarrow> (nat \<Rightarrow> byte list) \<Rightarrow> nat \<Rightarrow> event" where
  "data_arrives a block k = Arrive a (enc (flag_code DATA, of_nat k, block k))"

definition received :: "rcopy \<Rightarrow> rcopy \<Rightarrow> bool" where
  "received c c' \<longleftrightarrow> receiveData c = Ret RECV_DATA c'"

text \<open>Without an end of file the receiver is never done.\<close>

definition data_only :: "receiver \<Rightarrow> bool" where
  "data_only r \<longleftrightarrow> r_state r \<noteq> DATA_STATE_DONE \<and> (\<forall>i d. r_slots r i \<noteq> Some (flag_code END_OF_FILE, d))"

lemma drain_data_only: "data_only r \<Longrightarrow> data_only (drain n m r)"
  by (induction n m r rule: drain.induct) (auto simp: data_only_def Let_def split: option.split)

lemma accept_data_only: "data_only r \<Longrightarrow> data_only (accept n (flag_code DATA, k, pl) r)"
  using drain_data_only [of "r\<lparr>r_exp := Suc k, r_out := r_out r @ pl\<rparr>"]
  by (auto simp: accept.simps data_only_def settle_def Let_def)

lemma receive_list:
  assumes "receives n r c" "net_in c = map (data_arrives a block) ks" "\<And>k. length (block k) \<le> MAX_PAYLOAD_SIZE"
    and "\<forall>k \<in> set ks. k < 2 ^ 31 - 1" "data_only r"
  shows "\<exists>c'. received\<^sup>*\<^sup>* c c' \<and> receives n (fold (\<lambda>k. accept n (flag_code DATA, k, block k)) ks r) c'"
  using assms(1,2,4,5)
proof (induction ks arbitrary: r c)
  case (Cons k ks)
  let ?r = "accept n (flag_code DATA, k, block k) r"
  have alive: "data_only ?r" using Cons.prems(4) by (rule accept_data_only)
  obtain c1 where c1: "receiveData c = Ret RECV_DATA c1" "receives n ?r c1" "net_in c1 = map (data_arrives a block) ks"
    using receive_accept [OF Cons.prems(1), of k "block k" a "flag_code DATA"] Cons.prems(2-4) assms(3) alive
    by (auto simp: data_arrives_def data_only_def simp del: enc.simps)
  from Cons.IH [OF c1(2,3) _ alive] Cons.prems(3) obtain c' where
    "received\<^sup>*\<^sup>* c1 c'" "receives n (fold (\<lambda>k. accept n (flag_code DATA, k, block k)) ks ?r) c'" by auto
  moreover have "received c c1" using c1(1) by (simp add: received_def)
  ultimately show ?case by (auto intro: converse_rtranclp_into_rtranclp)
qed auto

lemma drain_numeral:
  "drain n (numeral m) r =
     (case r_slots r (r_exp r mod n) of
        None \<Rightarrow> r
      | Some (f, d) \<Rightarrow>
          (let r = r\<lparr>r_slots := (r_slots r)(r_exp r mod n := None)\<rparr> in
           if f = flag_code END_OF_FILE then r\<lparr>r_state := DATA_STATE_DONE\<rparr>
           else drain n (pred_numeral m) (r\<lparr>r_exp := Suc (r_exp r), r_out := r_out r @ d\<rparr>)))"
  by (simp add: numeral_eq_Suc)

lemmas receiver_run = accept.simps fresh_def settle_def drain_numeral

text \<open>
  C18. When the network swaps two blocks the client can write a wrong file: with a window of four,
  blocks 3 and 2 swapped once and 0, 6 and 7 lost once, a stale block 3 is written in place of
  block 7, because the highest number received is overwritten by a smaller one and the slots are
  read without a look at the number stored in them.
\<close>

theorem reordering_corrupts_the_file:
  assumes "receives 4 fresh c" "\<And>k. length (block k) \<le> MAX_PAYLOAD_SIZE"
    and "net_in c = map (data_arrives a block) [1, 3, 2, 0, 3, 4, 5, 8, 6]"
  shows "\<exists>c'. received\<^sup>*\<^sup>* c c' \<and> expectedSeqNum c' = 9
    \<and> outputFile c' = concat (map block [0, 1, 2, 3, 4, 5, 6, 3, 8])"
proof -
  let ?ks = "[1, 3, 2, 0, 3, 4, 5, 8, 6] :: nat list"
  let ?r = "fold (\<lambda>k. accept 4 (flag_code DATA, k, block k)) ?ks fresh"
  have "data_only fresh" by (simp add: fresh_def data_only_def)
  then obtain c' where c': "received\<^sup>*\<^sup>* c c'" "receives 4 ?r c'"
    using receive_list [OF assms(1,3,2)] by force
  have "r_out ?r = concat (map block [0, 1, 2, 3, 4, 5, 6, 3, 8])" "r_exp ?r = 9"
    by (simp_all add: receiver_run Let_def)
  with c' show ?thesis by (auto simp: receives_def)
qed

text \<open>One byte per block: block 3 stands where block 7 belongs.\<close>

theorem reordering_corrupts_the_file_witness:
  "\<exists>c'. received\<^sup>*\<^sup>* (sample_client (map (data_arrives zero_sockaddr_in6 (\<lambda>k. [of_nat k])) [1, 3, 2, 0, 3, 4, 5, 8, 6])) c'
    \<and> expectedSeqNum c' = 9 \<and> outputFile c' = concat (map (\<lambda>k. [of_nat k]) [0, 1, 2, 3, 4, 5, 6, 3, 8])"
  by (rule reordering_corrupts_the_file [OF sample_client_receives, where a = zero_sockaddr_in6])
    (simp_all add: sample_client_def rcopy_boot_def)

section \<open>A second answer to the file name\<close>

text \<open>
  The client moves on with its own acknowledgment on the way, and the repeated answer, whose
  sequence number is that of the first block, is the next datagram it hears.
\<close>

lemma repeated_answer:
  assumes init: "sys_init n b F (s\<lparr>sv := (sv s)\<lparr>net_out := []\<rparr>\<rparr>)" and cl: "clean (cl s)" and sv: "quiet (sv s)"
    and out: "net_out (sv s) = [(a, enc (status_msg FNAME_OK))]"
  shows "\<exists>s'. (sys_step pdu pduLen)\<^sup>*\<^sup>* s s' \<and> outputFile (cl s') = [flag_code FNAME_OK]"
proof -
  let ?R = "sys_step pdu pduLen"
  have i: "cpc s = AtC FILENAME_OK_STATE" "chalt s = None" "shalt s = None" "net_in (cl s) = []" "net_out (cl s) = []"
    "net_in (sv s) = []" "client_core n b F 0 0 (cl s)" "dataState (cl s) = IN_ORDER" "\<forall>j. buf_look j (recvBuf (cl s)) = None"
    using init by (simp_all add: sys_init_def)
  obtain m' where m': "pm_clean m'" and snd: "sendFlagOnly (serverConn (cl s)) (flag_code FNAME_OK_ACK) (clientSeqNum (cl s)) (cl s) =
      Ret () ((cl s)\<lparr>pm := m', net_out := net_out (cl s) @ [(info (serverConn (cl s)),
        enc (flag_code FNAME_OK_ACK, clientSeqNum (cl s), []))], send_errs := []\<rparr>)"
    using sendFlagOnly_clean [OF cl] by blast
  let ?x = "(info (serverConn (cl s)), enc (flag_code FNAME_OK_ACK, clientSeqNum (cl s), []))"
  let ?c = "(cl s)\<lparr>pm := m', net_out := [?x], send_errs := [], clientSeqNum := clientSeqNum (cl s) + 1\<rparr>"
  have "client_small (cpc s) (cl s) = Ret OkPoll ?c" using i snd by (simp add: filenameOk_send_def)
  from client_go [OF _ _ this, of pdu pduLen] i have 1: "?R s (s\<lparr>cpc := OkPoll, cl := ?c\<rparr>)" by simp
  let ?s1 = "s\<lparr>cpc := OkPoll, cl := ?c\<rparr>" and ?c2 = "?c\<lparr>net_out := []\<rparr>"
  have 2: "?R ?s1 (s\<lparr>cpc := OkPoll, cl := ?c2\<rparr>)" using lose_to_server [of ?s1 ?x "[]" pdu pduLen] by simp
  let ?s2 = "s\<lparr>cpc := OkPoll, cl := ?c2\<rparr>"
  have "client_core n b F 0 0 ?c2" using i(7) pm_clean_ok [OF m'] by (simp add: client_core_def proc_ok_def)
  then have "in_order n b F 0 ?c2" using i m' by (auto simp: in_order_def clean_def)
  then have "both_at n b F 0 ?s2" using i sv by (simp add: both_at_def)
  from wake [OF this, of a "enc (status_msg FNAME_OK)" pdu pduLen a] out obtain c where
    3: "?R\<^sup>*\<^sup>* ?s2 (?s2\<lparr>sv := (sv s)\<lparr>net_out := []\<rparr>, cpc := AtC RECV_DATA, cl := c\<rparr>)"
    and c: "in_order n b F 0 c" "net_in c = [Arrive a (enc (status_msg FNAME_OK))]" by (auto simp del: enc.simps)
  let ?s3 = "?s2\<lparr>sv := (sv s)\<lparr>net_out := []\<rparr>, cpc := AtC RECV_DATA, cl := c\<rparr>"
  obtain H where "client_core n b F 0 H c" "client_held IN_ORDER n b F 0 H (recvBuf c)" "dataState c = IN_ORDER" "clean c"
    using c(1) by (auto simp: in_order_def)
  then have "receives n fresh c" by (intro fresh_receives) simp_all
  from receive_accept [OF this, of 0 "[flag_code FNAME_OK]" a "flag_code FNAME_STATUS" "[]"] c(2) obtain c' where
    c': "receiveData c = Ret RECV_DATA c'" "outputFile c' = [flag_code FNAME_OK]"
    by (auto simp: status_msg_def fresh_def accept.simps receives_def simp del: enc.simps)
  have "client_small (cpc ?s3) (cl ?s3) = Ret (AtC RECV_DATA) c'" using c'(1) by simp
  from client_go [of ?s3, OF _ _ this, of pdu pduLen] i have 4: "?R ?s3 (?s3\<lparr>cpc := AtC RECV_DATA, cl := c'\<rparr>)" by simp
  have "?R\<^sup>*\<^sup>* s (?s3\<lparr>cpc := AtC RECV_DATA, cl := c'\<rparr>)"
    using 1 2 3 4 by (meson converse_rtranclp_into_rtranclp rtranclp.rtrancl_into_rtrancl)
  with c'(2) show ?thesis by (intro exI) auto
qed

text \<open>
  C19. When the network repeats the answer to the file name, the second copy is written to the
  output file as its first block.
\<close>

theorem repeated_answer_is_written:
  assumes "sys_init n b F (s\<lparr>sv := (sv s)\<lparr>net_out := []\<rparr>\<rparr>)" "clean (cl s)" "quiet (sv s)"
    and "net_out (sv s) = [(a, enc (status_msg FNAME_OK))]"
  shows "\<exists>s'. (sys_step pdu pduLen)\<^sup>*\<^sup>* s s' \<and> outputFile (cl s') = [flag_code FNAME_OK]"
  by (rule repeated_answer [OF assms])

theorem repeated_answer_is_written_witness:
  "let s = sample_sys 2 [1, 2, 3, 4, 5] in
   \<exists>s'. (sys_step [] 0)\<^sup>*\<^sup>* (s\<lparr>sv := (sv s)\<lparr>net_out := [(zero_sockaddr_in6, enc (status_msg FNAME_OK))]\<rparr>\<rparr>) s'
    \<and> outputFile (cl s') = [flag_code FNAME_OK]"
  unfolding Let_def
  by (rule repeated_answer_is_written [where a = zero_sockaddr_in6])
    (use sample_sys_init [of 2 "[1, 2, 3, 4, 5]"] in \<open>simp_all add: sample_sys_def sample_client_def rcopy_boot_def
      sample_server_def server_boot_def clean_def quiet_def pm_clean_def g_PktMgr_def del: enc.simps\<close>)

end
