(* ===== verification/Recovery.thy ===== *)
theory Recovery
  imports Receiver
begin

text \<open>
  The transfer recovers from loss: however many datagrams the link has lost, as long as the server
  has a try left and the client waits for data, there is a run to success. A round of this run is
  a timeout of the server, the resent block, the acknowledgment, and the blocks for which the
  window has room; all but these the link may lose again.
\<close>

section \<open>The first answer of the client\<close>

text \<open>To a block that is not news the client answers first with an RR for what it expects.\<close>

definition answers :: "rcopy \<Rightarrow> rcopy \<Rightarrow> bool" where
  "answers c c' \<longleftrightarrow> clean c' \<and> net_in c' = net_in c
     \<and> (\<exists>a q rest. net_out c' = net_out c @ (a, enc (ack RR q (unat (expectedSeqNum c')))) # rest)"

lemma answers_same: "net_in c = net_in c0 \<Longrightarrow> net_out c = net_out c0 \<Longrightarrow> answers c c' \<longleftrightarrow> answers c0 c'"
  by (simp add: answers_def)

lemma sendRR_answers:
  assumes "clean c" "sendRR (expectedSeqNum c) c = Ret u c'"
  shows "answers c c' \<and> expectedSeqNum c' = expectedSeqNum c"
  using sendRR_clean [OF assms(1), of "unat (expectedSeqNum c)"] assms(2)
  by (auto simp: answers_def clean_def simp del: enc.simps)

lemma sendSREJ_answers:
  assumes "answers c0 c" "sendSREJ v c = Ret u c'"
  shows "answers c0 c' \<and> expectedSeqNum c' = expectedSeqNum c"
proof -
  have "clean c" using assms(1) by (simp add: answers_def)
  from sendPDU_clean [OF this, of 4 "bytes32 (htonl v)" "bytes32 (htonl v)" "serverConn c" "flag_code SREJ" "clientSeqNum c"]
  obtain m' where "pm_clean m'" "c' = c\<lparr>pm := m', net_out := net_out c @ [(info (serverConn c),
      enc (flag_code SREJ, clientSeqNum c, bytes32 (htonl v)))], send_errs := [], clientSeqNum := clientSeqNum c + 1\<rparr>"
    using assms(2) by (auto simp: sendSREJ_def simp del: enc.simps)
  with assms(1) show ?thesis by (auto simp: answers_def clean_def simp del: enc.simps)
qed

lemma flush_loop_keeps:
  "flush_loop data c = Ret r c' \<Longrightarrow> clean c \<Longrightarrow> clean c' \<and> net_in c' = net_in c \<and> net_out c' = net_out c
    \<and> (r = None \<or> r = Some DATA_STATE_DONE)"
proof (induction data c rule: flush_loop.induct)
  case (1 data c)
  note unfold = flush_loop.simps [of data c]
  show ?case
  proof (cases "expectedSeqNum c \<le> highestSeqNum c")
    case True
    show ?thesis
    proof (cases "getDataFromBuffer (expectedSeqNum c) data (recvBuf c)")
      case (Inl h)
      with True 1(2) show ?thesis by (simp add: unfold)
    next
      case (Inr x)
      show ?thesis
      proof (cases "\<exists>f d l B. x = (Some (f, d, l), B) \<and> f \<noteq> flag_code END_OF_FILE")
        case more: True
        then obtain f d l B where x: "x = (Some (f, d, l), B)" "f \<noteq> flag_code END_OF_FILE" by blast
        let ?c = "write_out d l (c\<lparr>recvBuf := B, expectedSeqNum := expectedSeqNum c + 1\<rparr>)"
        have "flush_loop d ?c = Ret r c'" using True Inr x 1(2) by (simp add: unfold)
        from 1(1) [OF True Inr x(1) [symmetric] refl refl refl x(2) this] 1(3) show ?thesis
          by (simp add: write_out_def clean_def)
      next
        case False
        with True Inr 1(2,3) show ?thesis
          by (cases x) (auto simp: unfold clean_def split: option.splits)
      qed
    qed
  qed (use 1(2,3) in \<open>simp add: unfold\<close>)
qed

lemma flush_answers:
  assumes "clean c" "flush c = Ret D c'" "D \<noteq> DATA_STATE_DONE"
  shows "answers c c'"
proof -
  obtain r c1 where loop: "flush_loop (replicate MAX_PAYLOAD_SIZE 0) c = Ret r c1"
    using assms(2) by (auto simp: flush_def bindO_eq_Ret)
  from flush_loop_keeps [OF this assms(1)] have same: "clean c1" "net_in c1 = net_in c" "net_out c1 = net_out c"
    and r: "r = None \<or> r = Some DATA_STATE_DONE" by auto
  have "answers c1 c'"
  proof (cases r)
    case None
    with assms(2) loop show ?thesis
      using sendRR_answers [OF same(1)] sendSREJ_answers
      by (auto simp: flush_def bindO_eq_Ret split: if_splits)
  next
    case (Some st)
    with r loop assms(2,3) show ?thesis by (auto simp: flush_def)
  qed
  with same show ?thesis by (simp add: answers_def)
qed

lemma data_state_answers:
  assumes c: "clean c" "dataState c \<in> {IN_ORDER, BUFFER}" and old: "\<not> expectedSeqNum c < k"
    and run: "run_data_state k payload l f c = Ret RECV_DATA c'"
  shows "answers c c'"
proof -
  obtain D c1 where disp: "dispatch_data k payload l f c = Ret D c1"
    and after: "(if D = FLUSH then bindO (flush (c1\<lparr>dataState := D\<rparr>)) (\<lambda>st c. Ret () (c\<lparr>dataState := st\<rparr>))
      else Ret () (c1\<lparr>dataState := D\<rparr>)) = Ret () c'" "dataState c' \<noteq> DATA_STATE_DONE"
    using run by (auto simp: run_data_state_def bindO_eq_Ret Let_def split: if_splits)
  have set: "answers c2 (c3\<lparr>dataState := st\<rparr>) \<longleftrightarrow> answers c2 c3" for c2 c3 st
    by (simp add: answers_def clean_def)
  show ?thesis
  proof (cases "D = FLUSH")
    case False
    then have c': "c' = c1\<lparr>dataState := D\<rparr>" using after(1) by simp
    with after(2) have D: "D \<noteq> DATA_STATE_DONE" by simp
    have "answers c c1"
    proof (cases "dataState c = IN_ORDER")
      case True
      with disp have io: "inOrder k payload l f c = Ret D c1" by (simp add: dispatch_data_def)
      show ?thesis
      proof (cases "k = expectedSeqNum c")
        case True
        let ?c = "write_out payload l (c\<lparr>highestSeqNum := k, expectedSeqNum := expectedSeqNum c + 1\<rparr>)"
        have "sendRR (expectedSeqNum ?c) ?c = Ret () c1" "clean ?c"
          using io D True c(1) by (auto simp: inOrder_def bindO_eq_Ret Let_def write_out_def clean_def split: if_splits)
        with sendRR_answers [of ?c] show ?thesis
          by (subst answers_same [of c ?c]) (simp_all add: write_out_def)
      next
        case False
        with io old have "sendRR (expectedSeqNum c) c = Ret () c1" by (auto simp: inOrder_def bindO_eq_Ret)
        with sendRR_answers [OF c(1)] show ?thesis by simp
      qed
    next
      case False
      with c(2) disp have bs: "buffer_state k payload l f c = Ret D c1" by (simp add: dispatch_data_def)
      with old D \<open>D \<noteq> FLUSH\<close> obtain c2 where "sendRR (expectedSeqNum c) c = Ret () c2"
        "sendSREJ (expectedSeqNum c2) c2 = Ret () c1"
        by (auto simp: buffer_state_def bindO_eq_Ret split: if_splits)
      with sendRR_answers [OF c(1)] sendSREJ_answers show ?thesis by blast
    qed
    then show ?thesis by (simp add: c' set)
  next
    case True
    then obtain st c2 where fl: "flush (c1\<lparr>dataState := FLUSH\<rparr>) = Ret st c2" and c': "c' = c2\<lparr>dataState := st\<rparr>"
      using after(1) by (auto simp: bindO_eq_Ret)
    have "c1 = write_out payload l (c\<lparr>expectedSeqNum := expectedSeqNum c + 1\<rparr>)"
      using disp c(2) True by (auto simp: dispatch_data_def inOrder_def buffer_state_def bindO_eq_Ret Let_def split: if_splits)
    then have same: "clean (c1\<lparr>dataState := FLUSH\<rparr>)" "net_in c1 = net_in c" "net_out c1 = net_out c"
      using c(1) by (simp_all add: write_out_def clean_def)
    from flush_answers [OF same(1) fl] after(2) c' same(2,3) show ?thesis
      by (simp add: set answers_same [of "c1\<lparr>dataState := FLUSH\<rparr>" c])
  qed
qed

text \<open>The client in the numbers of the transfer takes such a block.\<close>

lemma drain_forward: "r_exp r \<le> r_exp (drain n m r)"
  by (induction n m r rule: drain.induct) (force split: option.split simp: Let_def)+

lemma accept_forward:
  "k \<le> r_exp r \<Longrightarrow> f \<noteq> flag_code END_OF_FILE \<Longrightarrow>
   r_exp r \<le> r_exp (accept n (f, k, pl) r) \<and> (k = r_exp r \<longrightarrow> r_exp r < r_exp (accept n (f, k, pl) r))"
  using drain_forward [of "r\<lparr>r_exp := Suc k, r_out := r_out r @ pl\<rparr>" n "Suc (r_high r) - Suc k"]
  by (auto simp: accept.simps settle_def Let_def)

lemma client_receives:
  assumes core: "client_core n b F E H c" and held: "client_held (dataState c) n b F E H (recvBuf c)"
    and D: "dataState c \<in> {IN_ORDER, BUFFER}" and "clean c" and N: "sizes_ok n b F"
  shows "\<exists>r. receives n r c \<and> r_exp r = E \<and> r_state r = dataState c"
proof -
  let ?r = "\<lparr>r_exp = E, r_high = H, r_state = dataState c, r_slots = (\<lambda>i. buf_look i (recvBuf c)), r_out = outputFile c\<rparr>"
  have n: "0 < n" "nchunks b F + n < 2 ^ 31" using N by (auto simp: sizes_ok_def)
  have c: "buf_ok (recvBuf c)" "buf_cap (recvBuf c) = n" "E \<le> nchunks b F" using core by (auto simp: client_core_def)
  have "H \<le> nchunks b F" "dataState c = BUFFER \<longrightarrow> E < H" using held D c(3) by auto
  moreover have "slots n (r_slots ?r) (recvBuf c)" using c by (simp add: slots_def buf_look_def)
  ultimately have "receives n ?r c"
    using core D assms(4) n c(3) by (auto simp: receives_def client_core_def)
  then show ?thesis by (intro exI [of _ ?r]) simp
qed

lemma client_takes:
  assumes core: "client_core n b F E H c" and held: "client_held (dataState c) n b F E H (recvBuf c)"
    and D: "dataState c \<in> {IN_ORDER, BUFFER}" and cl: "clean c" and N: "sizes_ok n b F"
    and net: "net_in c = [Arrive a (enc (f, of_nat k, pl))]" "length pl \<le> MAX_PAYLOAD_SIZE"
    and k: "k \<le> E" "f \<noteq> flag_code END_OF_FILE"
  shows "\<exists>st c' E'. receiveData c = Ret st c' \<and> clean c' \<and> net_in c' = [] \<and> expectedSeqNum c' = of_nat E'
    \<and> E \<le> E' \<and> (k = E \<longrightarrow> E < E') \<and> E' < 2 ^ 31
    \<and> (st = RECV_DATA \<and> (\<exists>x q rest. net_out c' = net_out c @ (x, enc (ack RR q E')) # rest) \<or> st = SEND_EOF_ACK)"
proof -
  obtain r where r: "receives n r c" "r_exp r = E" "r_state r = dataState c"
    using client_receives [OF core held D cl N] by blast
  let ?r = "accept n (f, k, pl) r"
  have "k < 2 ^ 31 - 1" using k(1) core N by (simp add: client_core_def sizes_ok_def)
  from receive_accept [OF r(1) _ this net(2), where f = f and es = "[]"] net(1) D r(3) obtain c' where
    c': "receiveData c = Ret (if r_state ?r = DATA_STATE_DONE then SEND_EOF_ACK else RECV_DATA) c'"
      "receives n ?r c'" "net_in c' = []"
    by (auto simp del: enc.simps)
  have E': "r_exp r \<le> r_exp ?r" "k = E \<longrightarrow> E < r_exp ?r" "r_exp ?r < 2 ^ 31"
    using accept_forward [of k r f n pl] k r(2) c'(2) by (auto simp: receives_def)
  have now: "expectedSeqNum c' = of_nat (r_exp ?r)" "clean c'" using c'(2) by (simp_all add: receives_def)
  show ?thesis
  proof (cases "r_state ?r = DATA_STATE_DONE")
    case False
    let ?c = "c\<lparr>net_in := [], serverConn := (serverConn c)\<lparr>info := a\<rparr>\<rparr>"
    have ok: "proc_ok c" using core by (simp add: client_core_def)
    note d = dgram_enc [OF net(2), of f "of_nat k"]
    have h: "ntohl (word32 (take 4 (enc (f, of_nat k, pl)))) = of_nat k"
      using d by (auto simp: dec_def split: if_splits)
    have net': "net_in c = [] @ Arrive a (enc (f, of_nat k, pl)) # []" "passes []" using net(1) by simp_all
    obtain payload l g where run: "receiveData c = run_data_state (of_nat k) payload l g ?c"
      using receiveData_eq [OF ok net' d(1)] d(2) h by (auto simp: Let_def)
    have "\<not> expectedSeqNum ?c < of_nat k"
      using k(1) core N by (simp add: client_core_def sizes_ok_def seq_less)
    from data_state_answers [OF _ _ this, of payload l g c'] c'(1) run False cl D
    have "answers ?c c'" by (simp add: clean_def)
    then obtain x q rest where "net_out c' = net_out c @ (x, enc (ack RR q (unat (expectedSeqNum c')))) # rest"
      by (auto simp: answers_def)
    moreover have "unat (expectedSeqNum c') = r_exp ?r" using now(1) E'(3) by (simp add: unat_seq)
    ultimately show ?thesis using c' E' now r(2) False
      by (intro exI [of _ RECV_DATA] exI [of _ c'] exI [of _ "r_exp ?r"]) auto
  next
    case True
    then show ?thesis using c' E' now r(2)
      by (intro exI [of _ SEND_EOF_ACK] exI [of _ c'] exI [of _ "r_exp ?r"]) auto
  qed
qed

section \<open>States in which nothing is under way\<close>

definition calm :: "nat \<Rightarrow> nat \<Rightarrow> byte list \<Rightarrow> sys \<Rightarrow> bool" where
  "calm n b F s \<longleftrightarrow> sys_inv n b F s \<and> chalt s = None \<and> shalt s = None \<and> clean (cl s) \<and> quiet (sv s)
     \<and> cpc s \<in> {OkPoll, AtC RECV_DATA} \<and> net_in (cl s) = [] \<and> net_out (cl s) = []
     \<and> net_in (sv s) = [] \<and> net_out (sv s) = []"

lemma reach_keeps:
  "(sys_step pdu pduLen)\<^sup>*\<^sup>* s s' \<Longrightarrow> sizes_ok n b F \<Longrightarrow> sys_inv n b F s \<Longrightarrow> sys_inv n b F s'"
  using transfer.kept_from [of pdu pduLen s s' n b F] by blast

lemma same_numbers:
  assumes "sys_inv n b F s" "shalt s = None" "srv_core n b F lo C (sv s)" "client_core n b F E H (cl s)" "sizes_ok n b F"
  shows "lo \<le> E \<and> E \<le> C \<and> C \<le> lo + n \<and> C \<le> nchunks b F \<and> pc_ok (spc s) lo C (sv s)"
proof -
  from assms(1) obtain lo' C' E' H' where *: "sys_numbers n b F lo' C' E' s" "client_inv n b F C' E' H' s"
    "server_inv n b F lo' C' E' s" by (auto simp: sys_inv_def)
  have "srv_core n b F lo' C' (sv s)" "pc_ok (spc s) lo' C' (sv s)" using *(3) assms(2) by (auto simp: server_inv_def)
  moreover from this(1) assms(3) have "int lo' = int lo" "int C' = int C" unfolding srv_core_def by metis+
  then have "lo' = lo" "C' = C" by simp_all
  moreover have "client_core n b F E' H' (cl s)" using *(2) by (simp add: client_inv_def)
  then have "(of_nat E' :: u32) = of_nat E" "E' < 2 ^ 31" "E < 2 ^ 31"
    using assms(4,5) by (auto simp: client_core_def sizes_ok_def)
  then have "E' = E" using seq_eq [of E' E] by simp
  ultimately show ?thesis using *(1) by (auto simp: sys_numbers_def)
qed

lemma calm_numbers:
  assumes "calm n b F s" "sizes_ok n b F"
  obtains lo C E H where "srv_core n b F lo C (sv s)" "client_core n b F E H (cl s)"
    "client_held (dataState (cl s)) n b F E H (recvBuf (cl s))" "cpc_ok (cpc s) (dataState (cl s))"
    "dataState (cl s) \<in> {IN_ORDER, BUFFER}" "lo \<le> E" "E \<le> C" "C \<le> lo + n" "C \<le> nchunks b F" "pc_ok (spc s) lo C (sv s)"
proof -
  from assms(1) have c: "sys_inv n b F s" "chalt s = None" "shalt s = None" "cpc s \<in> {OkPoll, AtC RECV_DATA}"
    by (auto simp: calm_def)
  then obtain lo C E H where *: "client_inv n b F C E H s" "server_inv n b F lo C E s" by (auto simp: sys_inv_def)
  have core: "srv_core n b F lo C (sv s)" "client_core n b F E H (cl s)"
    and held: "client_held (dataState (cl s)) n b F E H (recvBuf (cl s))" "cpc_ok (cpc s) (dataState (cl s))"
    using * c by (auto simp: client_inv_def server_inv_def)
  from held(2) c(4) have "dataState (cl s) \<in> {IN_ORDER, BUFFER}" by auto
  with core held same_numbers [OF c(1,3) core assms(2)] that show ?thesis by blast
qed

text \<open>Everything that is under way gets lost.\<close>

lemma lose_server_out: "(sys_step pdu pduLen)\<^sup>*\<^sup>* s (s\<lparr>sv := (sv s)\<lparr>net_out := []\<rparr>\<rparr>)"
proof (induction "net_out (sv s)" arbitrary: s)
  case Nil
  then have "s\<lparr>sv := (sv s)\<lparr>net_out := []\<rparr>\<rparr> = s" by (cases s, cases "sv s") simp
  then show ?case by simp
next
  case (Cons x out)
  let ?s = "s\<lparr>sv := (sv s)\<lparr>net_out := out\<rparr>\<rparr>"
  have "sys_step pdu pduLen s ?s" using Cons(2) [symmetric] by (rule lose_to_client)
  moreover have "(sys_step pdu pduLen)\<^sup>*\<^sup>* ?s (?s\<lparr>sv := (sv ?s)\<lparr>net_out := []\<rparr>\<rparr>)" by (rule Cons(1)) simp
  ultimately show ?case by (simp add: converse_rtranclp_into_rtranclp)
qed

lemma lose_client_out: "(sys_step pdu pduLen)\<^sup>*\<^sup>* s (s\<lparr>cl := (cl s)\<lparr>net_out := []\<rparr>\<rparr>)"
proof (induction "net_out (cl s)" arbitrary: s)
  case Nil
  then have "s\<lparr>cl := (cl s)\<lparr>net_out := []\<rparr>\<rparr> = s" by (cases s, cases "cl s") simp
  then show ?case by simp
next
  case (Cons x out)
  let ?s = "s\<lparr>cl := (cl s)\<lparr>net_out := out\<rparr>\<rparr>"
  have "sys_step pdu pduLen s ?s" using Cons(2) [symmetric] by (rule lose_to_server)
  moreover have "(sys_step pdu pduLen)\<^sup>*\<^sup>* ?s (?s\<lparr>cl := (cl ?s)\<lparr>net_out := []\<rparr>\<rparr>)" by (rule Cons(1)) simp
  ultimately show ?case by (simp add: converse_rtranclp_into_rtranclp)
qed

text \<open>A step of the server of which the link lets nothing pass.\<close>

lemma quiet_out [simp]: "quiet (v\<lparr>net_out := out\<rparr>) \<longleftrightarrow> quiet v"
  by (simp add: quiet_def)

lemma server_alone:
  assumes s: "calm n b F s" and N: "sizes_ok n b F"
    and go: "spc s \<noteq> At DONE_SERVER" "server_small pdu pduLen (spc s) (sv s) = Ret pc v" "quiet v" "net_in v = []"
  shows "(sys_step pdu pduLen)\<^sup>*\<^sup>* s (s\<lparr>spc := pc, sv := v\<lparr>net_out := []\<rparr>\<rparr>)"
    "calm n b F (s\<lparr>spc := pc, sv := v\<lparr>net_out := []\<rparr>\<rparr>)"
proof -
  let ?s = "s\<lparr>spc := pc, sv := v\<rparr>"
  have "shalt s = None" using s by (simp add: calm_def)
  from server_move [OF this go(1,2)] lose_server_out [of pdu pduLen ?s]
  show run: "(sys_step pdu pduLen)\<^sup>*\<^sup>* s (s\<lparr>spc := pc, sv := v\<lparr>net_out := []\<rparr>\<rparr>)"
    by (simp add: converse_rtranclp_into_rtranclp)
  from reach_keeps [OF run N] s go(3,4) show "calm n b F (s\<lparr>spc := pc, sv := v\<lparr>net_out := []\<rparr>\<rparr>)"
    by (simp add: calm_def)
qed

text \<open>The same after the timer of the server has expired.\<close>

lemma server_ticks:
  assumes s: "calm n b F s" and N: "sizes_ok n b F" and pc: "spc s \<noteq> At DONE_SERVER"
    and go: "server_small pdu pduLen (spc s) ((sv s)\<lparr>net_in := [Timeout]\<rparr>) = Ret pc v" "quiet v" "net_in v = []"
  shows "(sys_step pdu pduLen)\<^sup>*\<^sup>* s (s\<lparr>spc := pc, sv := v\<rparr>)" "sys_inv n b F (s\<lparr>spc := pc, sv := v\<rparr>)"
    "(sys_step pdu pduLen)\<^sup>*\<^sup>* s (s\<lparr>spc := pc, sv := v\<lparr>net_out := []\<rparr>\<rparr>)"
    "calm n b F (s\<lparr>spc := pc, sv := v\<lparr>net_out := []\<rparr>\<rparr>)"
proof -
  let ?t = "s\<lparr>sv := (sv s)\<lparr>net_in := [Timeout]\<rparr>\<rparr>" and ?s = "s\<lparr>spc := pc, sv := v\<rparr>"
  have c: "shalt s = None" "net_in (sv s) = []" "sys_inv n b F s" using s by (simp_all add: calm_def)
  have 1: "sys_step pdu pduLen s ?t" using server_timer [of pdu pduLen s] c(2) by simp
  have "sys_step pdu pduLen ?t ?s" using server_move [of ?t pdu pduLen pc v] c(1) pc go(1) by simp
  with 1 show run: "(sys_step pdu pduLen)\<^sup>*\<^sup>* s ?s" by (meson converse_rtranclp_into_rtranclp rtranclp.rtrancl_refl)
  show "sys_inv n b F ?s" by (rule reach_keeps [OF run N c(3)])
  show run': "(sys_step pdu pduLen)\<^sup>*\<^sup>* s (s\<lparr>spc := pc, sv := v\<lparr>net_out := []\<rparr>\<rparr>)"
    using rtranclp_trans [OF run lose_server_out] by simp
  from reach_keeps [OF run' N] s go(2,3) show "calm n b F (s\<lparr>spc := pc, sv := v\<lparr>net_out := []\<rparr>\<rparr>)"
    by (simp add: calm_def)
qed

section \<open>Filling the window\<close>

text \<open>The server goes on until it waits: the window is closed or the file has ended.\<close>

lemma fill_ends:
  assumes s: "calm n b F s" "spc s = Fill" "srv_core n b F lo C (sv s)" and N: "sizes_ok n b F"
    and stop: "atEOF (sv s) \<or> C = lo + n"
  shows "\<exists>s'. (sys_step pdu pduLen)\<^sup>*\<^sup>* s s' \<and> calm n b F s' \<and> spc s' = Wait 0 \<and> srv_core n b F lo C (sv s')
    \<and> (atEOF (sv s') \<or> C = lo + n)"
proof -
  have q: "quiet (sv s)" "net_in (sv s) = []" "net_out (sv s) = []" using s(1) by (simp_all add: calm_def)
  obtain lo' C' where "srv_core n b F lo' C' (sv s)" "pc_ok (spc s) lo' C' (sv s)" using calm_numbers [OF s(1) N] by blast
  then have "\<not> waitingForLastRR (sv s)" using s(2) by simp
  then obtain v where v: "eof_check (sv s) = Ret () v" "srv_core n b F lo C v"
    "v = sv s \<or> v = (sv s)\<lparr>waitingForLastRR := True\<rparr>"
    using eof_check_cases [OF s(3) N] s(3) by blast
  have "quiet v" "net_in v = []" "net_out v = []" "atEOF v = atEOF (sv s)" using v(3) q by (auto simp: quiet_def clean_def)
  moreover have "server_small pdu pduLen (spc s) (sv s) = Ret (Wait 0) v"
    using stop v(1) win_closed_iff(2) [OF s(3)] s(2) by auto
  ultimately show ?thesis
    using server_alone [OF s(1) N, of pdu pduLen "Wait 0" v] s(2) stop v(2)
    by (intro exI [of _ "s\<lparr>spc := Wait 0, sv := v\<lparr>net_out := []\<rparr>\<rparr>"]) simp
qed

lemma fill_up:
  assumes "calm n b F s" "spc s = Fill" "srv_core n b F lo C (sv s)" and N: "sizes_ok n b F"
  shows "\<exists>s' C'. (sys_step pdu pduLen)\<^sup>*\<^sup>* s s' \<and> calm n b F s' \<and> spc s' = Wait 0 \<and> srv_core n b F lo C' (sv s')
    \<and> (atEOF (sv s') \<or> C' = lo + n)"
  using assms(1-3)
proof (induction "if atEOF (sv s) then 0 else Suc (nchunks b F - C)" arbitrary: s C rule: less_induct)
  case less
  have q: "quiet (sv s)" "net_in (sv s) = []" "net_out (sv s) = []" using less.prems(1) by (simp_all add: calm_def)
  have le: "C \<le> lo + n" "C \<le> nchunks b F" using less.prems(3) by (simp_all add: srv_core_def)
  show ?case
  proof (cases "atEOF (sv s) \<or> C = lo + n")
    case True
    with fill_ends [OF less.prems N, of pdu pduLen] show ?thesis by blast
  next
    case False
    then have open_: "C < lo + n" "\<not> atEOF (sv s)" using le by auto
    obtain v C' where v: "server_small pdu pduLen Fill (sv s) = Ret FillPoll v" "srv_core n b F lo C' v" "quiet v"
      "net_in v = []" and less': "(if atEOF v then 0 else Suc (nchunks b F - C')) < Suc (nchunks b F - C)"
    proof (cases "C < nchunks b F")
      case True
      from serve_block [OF less.prems(3) N open_(1) True open_(2) q(1,3), of pdu pduLen] that q(2) show ?thesis
        using True by fastforce
    next
      case False
      then have "C = nchunks b F" using le(2) by simp
      from serve_end [OF _ N _ open_(2) q(1), of lo pdu pduLen] this less.prems(3) open_(1) that q(2) show ?thesis
        by fastforce
    qed
    let ?v = "v\<lparr>net_out := []\<rparr>" and ?s = "s\<lparr>spc := FillPoll, sv := v\<lparr>net_out := []\<rparr>\<rparr>"
    have 1: "(sys_step pdu pduLen)\<^sup>*\<^sup>* s ?s" "calm n b F ?s"
      using server_alone [OF less.prems(1) N, of pdu pduLen FillPoll v] v less.prems(2) by simp_all
    have nil: "?v\<lparr>net_in := []\<rparr> = ?v" using v(4) by (cases v) simp
    have "fill_poll (?v\<lparr>net_in := [Timeout]\<rparr>) = Ret () ?v"
      using pollCall_timeout [of "?v\<lparr>net_in := [Timeout]\<rparr>" "[]" 0] nil by (simp add: fill_poll_def)
    then have go: "server_small pdu pduLen (spc ?s) ((sv ?s)\<lparr>net_in := [Timeout]\<rparr>) = Ret Fill ?v" by simp
    let ?s2 = "?s\<lparr>spc := Fill, sv := ?v\<lparr>net_out := []\<rparr>\<rparr>"
    have 2: "(sys_step pdu pduLen)\<^sup>*\<^sup>* ?s ?s2" "calm n b F ?s2"
      using server_ticks(3,4) [OF 1(2) N _ go] v(3,4) by simp_all
    have "(if atEOF (sv ?s2) then 0 else Suc (nchunks b F - C')) < (if atEOF (sv s) then 0 else Suc (nchunks b F - C))"
      using less' open_(2) by simp
    from less.hyps [OF this 2(2)] v(2) obtain s' C'' where
      s': "(sys_step pdu pduLen)\<^sup>*\<^sup>* ?s2 s'" "calm n b F s'" "spc s' = Wait 0" "srv_core n b F lo C'' (sv s')"
      "atEOF (sv s') \<or> C'' = lo + n" by auto
    from rtranclp_trans [OF rtranclp_trans [OF 1(1) 2(1)] s'(1)] s'(2-5) show ?thesis by blast
  qed
qed

section \<open>The end of the file\<close>

lemma calm_finishes:
  assumes s: "calm n b F s" "spc s = At SEND_EOF" and N: "sizes_ok n b F"
  shows "\<exists>s'. (sys_step pdu pduLen)\<^sup>*\<^sup>* s s' \<and> shalt s' = Some (Exit 0)"
proof -
  obtain lo C E H where c: "srv_core n b F lo C (sv s)" "client_core n b F E H (cl s)"
    "client_held (dataState (cl s)) n b F E H (recvBuf (cl s))" "cpc_ok (cpc s) (dataState (cl s))"
    "dataState (cl s) \<in> {IN_ORDER, BUFFER}" "lo \<le> E" "E \<le> C" "C \<le> lo + n" "C \<le> nchunks b F" "pc_ok (spc s) lo C (sv s)"
    by (rule calm_numbers [OF s(1) N])
  have end_: "atEOF (sv s)" "lo = C" using c(10) s(2) by auto
  moreover from end_(1) c(1) have num: "C = nchunks b F" by (simp add: srv_core_def)
  moreover have "E = C" using end_(2) c(6,7) by simp
  moreover from this num have "dataState (cl s) = IN_ORDER" using c(3,5) by auto
  ultimately have "in_order n b F C (cl s)" using c(2,3) s(1) unfolding in_order_def calm_def by auto
  then have "at_end n b F (At SEND_EOF) s"
    using s c(1) end_ num by (simp add: at_end_def both_at_def calm_def)
  then show ?thesis by (rule send_eof [OF _ N])
qed

section \<open>One round\<close>

lemma server_resends:
  assumes core: "srv_core n b F lo C v" and N: "sizes_ok n b F" and q: "quiet v" "net_in v = []" "net_out v = []"
    and t: "t < 9" and blocked: "isWindowClosed (win v) \<or> waitingForLastRR v"
  shows "\<exists>v' a j pl. server_small pdu pduLen (Wait t) (v\<lparr>net_in := [Timeout]\<rparr>) = Ret (Wait (t + 1)) v'
    \<and> srv_core n b F lo C v' \<and> quiet v' \<and> net_in v' = [] \<and> net_out v' = [(a, enc (flag_code RESENT_DATA_TIMEOUT, of_nat j, pl))]
    \<and> win v' = win v \<and> waitingForLastRR v' = waitingForLastRR v \<and> atEOF v' = atEOF v
    \<and> j \<le> lo \<and> (lo < C \<longrightarrow> j = lo) \<and> length pl \<le> MAX_PAYLOAD_SIZE"
proof -
  obtain j pl where j: "win_look lo (win v) = Some (of_nat j, pl)" "j \<le> lo" "length pl \<le> MAX_PAYLOAD_SIZE"
    "lo < C \<longrightarrow> j = lo"
    using lowest_slot [OF core N] by (auto split: if_splits)
  have win: "win_ok (win v)" "lower (win v) = int lo" using core by (auto simp: srv_core_def)
  have get: "getLowestSeqNumData (replicate MAX_PAYLOAD_SIZE 0) (win v) =
      Inr (pl @ drop (length pl) (replicate MAX_PAYLOAD_SIZE 0), of_nat j, int (length pl))"
    using getLowestSeqNumData_ok [OF win _ j(1), of "replicate MAX_PAYLOAD_SIZE 0"] by simp
  let ?d = "enc (flag_code RESENT_DATA_TIMEOUT, of_nat j, pl)" and ?a = "info (clientConn v)"
  have "clean v" using q(1) by (simp add: quiet_def)
  from sendPDU_clean [OF this, of "length pl" "pl @ drop (length pl) (replicate MAX_PAYLOAD_SIZE 0)" pl "clientConn v"
      "flag_code RESENT_DATA_TIMEOUT" "of_nat j"] j(3)
  obtain m' where m': "pm_clean m'" and snd: "sendPDU (clientConn v) (pl @ drop (length pl) (replicate MAX_PAYLOAD_SIZE 0))
      (int (length pl)) (flag_code RESENT_DATA_TIMEOUT) (of_nat j) v
    = Ret () (v\<lparr>pm := m', net_out := net_out v @ [(?a, ?d)], send_errs := []\<rparr>)" by auto
  let ?v = "v\<lparr>pm := m', net_out := [(?a, ?d)], send_errs := []\<rparr>"
  have act: "wait_act RESEND_LOWEST (t + 1) v = Ret (Some (t + 1)) ?v"
    using get snd q(3) by (simp add: wait_act_def)
  have nil: "v\<lparr>net_in := []\<rparr> = v" using q(2) by (cases v) simp
  have "processPoll t SHORT_TIME 10 RESEND_LOWEST RESPONSE_RECV QUIT (v\<lparr>net_in := [Timeout]\<rparr>) = Ret (RESEND_LOWEST, t + 1) v"
    using processPoll_timeout [of "v\<lparr>net_in := [Timeout]\<rparr>" "[]" t SHORT_TIME 10 RESEND_LOWEST RESPONSE_RECV QUIT] nil t
    by simp
  then have "server_small pdu pduLen (Wait t) (v\<lparr>net_in := [Timeout]\<rparr>) = Ret (Wait (t + 1)) ?v"
    using blocked act by (simp add: wait_body_act)
  moreover have "srv_core n b F lo C ?v" using core pm_clean_ok [OF m'] by (auto simp: srv_core_def proc_ok_def)
  moreover have "quiet ?v" using q(1) m' by (simp add: quiet_def clean_def)
  ultimately show ?thesis using q(2) j(2-4)
    by (intro exI [of _ ?v] exI [of _ ?a] exI [of _ j] exI [of _ pl]) simp
qed

text \<open>A datagram reaches the client, and wakes it if it still waits for the first one.\<close>

lemma deliver_to_client:
  assumes "chalt s = None" "cpc s \<in> {OkPoll, AtC RECV_DATA}" "proc_ok (cl s)" "net_in (cl s) = []"
    and out: "net_out (sv s) = [(a, d)]"
  shows "\<exists>r. (sys_step pdu pduLen)\<^sup>*\<^sup>* s (s\<lparr>sv := (sv s)\<lparr>net_out := []\<rparr>, cpc := AtC RECV_DATA,
    cl := (cl s)\<lparr>net_in := [Arrive a d], filenameOk_retryCount := r\<rparr>\<rparr>)"
proof -
  let ?R = "sys_step pdu pduLen" and ?c = "(cl s)\<lparr>net_in := [Arrive a d]\<rparr>"
  let ?s1 = "s\<lparr>sv := (sv s)\<lparr>net_out := []\<rparr>, cl := ?c\<rparr>"
  have 1: "?R s ?s1" using to_client [OF out, of pdu pduLen a] assms(4) by simp
  show ?thesis
  proof (cases "cpc s = OkPoll")
    case True
    have "net_in ?c = Arrive a d # []" "proc_ok ?c" using assms(3) by simp_all
    from processPoll_ready [OF this(2,1), of "filenameOk_retryCount (cl s)" SHORT_TIME 10 FILENAME_OK_STATE RECV_DATA DONE_RCOPY]
    have "client_small (cpc ?s1) (cl ?s1) = Ret (AtC RECV_DATA) (?c\<lparr>filenameOk_retryCount := 0\<rparr>)"
      using True by (simp add: filenameOk_poll_def)
    from client_go [of ?s1, OF _ _ this, of pdu pduLen] assms(1) True
    have "?R ?s1 (s\<lparr>sv := (sv s)\<lparr>net_out := []\<rparr>, cpc := AtC RECV_DATA,
        cl := (cl s)\<lparr>net_in := [Arrive a d], filenameOk_retryCount := 0\<rparr>\<rparr>)" by simp
    with 1 show ?thesis by (meson converse_rtranclp_into_rtranclp rtranclp.rtrancl_refl)
  next
    case False
    then have "?s1 = s\<lparr>sv := (sv s)\<lparr>net_out := []\<rparr>, cpc := AtC RECV_DATA,
        cl := (cl s)\<lparr>net_in := [Arrive a d], filenameOk_retryCount := filenameOk_retryCount (cl s)\<rparr>\<rparr>"
      using assms(2) by (cases s, cases "cl s") simp
    with 1 show ?thesis by (metis r_into_rtranclp)
  qed
qed

text \<open>The client has everything and says so; the server hears it in the loop.\<close>

lemma eof_ack_heard:
  assumes s: "chalt s = None" "shalt s = None" "cpc s = AtC SEND_EOF_ACK" "clean (cl s)" "spc s = Wait t"
    and v: "proc_ok (sv s)" "net_in (sv s) = []" "isWindowClosed (win (sv s)) \<or> waitingForLastRR (sv s)"
  shows "\<exists>s'. (sys_step pdu pduLen)\<^sup>*\<^sup>* s s' \<and> shalt s' = Some (Exit 0)"
proof -
  let ?R = "sys_step pdu pduLen" and ?c = "(cl s)\<lparr>net_out := []\<rparr>"
  let ?s1 = "s\<lparr>cl := ?c\<rparr>"
  have 1: "?R\<^sup>*\<^sup>* s ?s1" by (rule lose_client_out)
  have "clean ?c" using s(4) by simp
  from sendFlagOnly_clean [OF this, of "serverConn ?c" "flag_code EOF_ACK" "clientSeqNum ?c"]
  obtain m where snd: "sendEOFAck ?c = Ret DONE_RCOPY (?c\<lparr>pm := m, net_out := [(info (serverConn ?c),
      enc (flag_code EOF_ACK, clientSeqNum ?c, []))], send_errs := [], clientSeqNum := clientSeqNum ?c + 1\<rparr>)"
    by (auto simp: sendEOFAck_def)
  let ?e = "enc (flag_code EOF_ACK, clientSeqNum ?c, [])" and ?a = "info (serverConn ?c)"
  let ?c2 = "?c\<lparr>pm := m, net_out := [(?a, ?e)], send_errs := [], clientSeqNum := clientSeqNum ?c + 1\<rparr>"
  let ?s2 = "s\<lparr>cpc := AtC DONE_RCOPY, cl := ?c2\<rparr>"
  have "client_small (cpc ?s1) (cl ?s1) = Ret (AtC DONE_RCOPY) ?c2" using snd s(3) by simp
  from client_go [of ?s1, OF _ _ this, of pdu pduLen] s(1,3) have 2: "?R ?s1 ?s2" by simp
  let ?v = "(sv s)\<lparr>net_in := [Arrive ?a ?e]\<rparr>"
  let ?s3 = "?s2\<lparr>cl := ?c2\<lparr>net_out := []\<rparr>, sv := ?v\<rparr>"
  have "net_out (cl ?s2) = (?a, ?e) # []" by simp
  from to_server [OF this, of pdu pduLen ?a] v(2) have 3: "?R ?s2 ?s3" by simp
  have ready: "proc_ok ?v" "net_in ?v = Arrive ?a ?e # []" using v(1) by simp_all
  obtain v' where "processResponse (waitingForLastRR ?v) (lastDataSeqNum ?v) ?v = Stop (Exit 0) v'"
    using process_EOF_ACK [of ?v ?a "clientSeqNum ?c"] by auto
  then have "respond ?v = Stop (Exit 0) v'" by (simp add: respond_def)
  then have "wait_body t ?v = Stop (Exit 0) v'"
    using processPoll_ready [OF ready, of t SHORT_TIME 10 RESEND_LOWEST RESPONSE_RECV QUIT]
    by (simp add: wait_body_act wait_act_def)
  then have "server_small pdu pduLen (spc ?s3) (sv ?s3) = Stop (Exit 0) v'" using s(5) v(3) by simp
  from server_halts [OF _ this] s(2) have 4: "?R ?s3 (?s3\<lparr>sv := v', shalt := Some (Exit 0)\<rparr>)" by simp
  from 1 2 3 4 have "?R\<^sup>*\<^sup>* s (?s3\<lparr>sv := v', shalt := Some (Exit 0)\<rparr>)"
    by (meson rtranclp.rtrancl_into_rtrancl)
  then show ?thesis by (intro exI [of _ "?s3\<lparr>sv := v', shalt := Some (Exit 0)\<rparr>"]) simp
qed

text \<open>The client takes a resent block, and the server hears its answer while it waits.\<close>

lemma calm_out: "calm n b F s \<Longrightarrow> net_out (cl s) = [] \<and> net_out (sv s) = [] \<and> net_in (cl s) = [] \<and> net_in (sv s) = []"
  by (simp add: calm_def)

lemma expected_next:
  assumes "sys_inv n b F s" "chalt s = None" "expectedSeqNum (cl s) = of_nat E" "E < 2 ^ 31" "sizes_ok n b F"
  shows "\<exists>H. client_core n b F E H (cl s)"
proof -
  from assms(1) obtain C E' H where "client_inv n b F C E' H s" by (auto simp: sys_inv_def)
  then have core: "client_core n b F E' H (cl s)" by (simp add: client_inv_def)
  then have "(of_nat E' :: u32) = of_nat E" "E' < 2 ^ 31"
    using assms(3,5) by (auto simp: client_core_def sizes_ok_def)
  then have "E' = E" using assms(4) seq_eq [of E' E] by simp
  with core show ?thesis by blast
qed

lemma ack_heard_waiting:
  assumes s: "sys_inv n b F s" "chalt s = None" "shalt s = None" "cpc s = AtC RECV_DATA" "spc s = Wait t"
    and c: "clean (cl s)" "net_in (cl s) = []" "net_out (cl s) = (x, enc (ack RR q E)) # rest"
      "expectedSeqNum (cl s) = of_nat E" "E < 2 ^ 31"
    and v: "srv_core n b F lo C (sv s)" "quiet (sv s)" "net_in (sv s) = []" "net_out (sv s) = []"
      "isWindowClosed (win (sv s)) \<or> waitingForLastRR (sv s)" and N: "sizes_ok n b F"
  shows "\<exists>s'. (sys_step pdu pduLen)\<^sup>*\<^sup>* s s' \<and> calm n b F s' \<and> spc s' = Wait 0 \<and> srv_core n b F E C (sv s')
    \<and> lo \<le> E \<and> E \<le> C \<and> atEOF (sv s') = atEOF (sv s) \<and> waitingForLastRR (sv s') = (waitingForLastRR (sv s) \<and> of_nat E - 1 \<noteq> lastDataSeqNum (sv s))"
proof -
  let ?R = "sys_step pdu pduLen" and ?v = "(sv s)\<lparr>net_in := [Arrive x (enc (ack RR q E))]\<rparr>"
  obtain H where "client_core n b F E H (cl s)" using expected_next [OF s(1,2) c(4,5) N] by blast
  from same_numbers [OF s(1,3) v(1) this N] have E: "lo \<le> E" "E \<le> C" by simp_all
  let ?s1 = "s\<lparr>cl := (cl s)\<lparr>net_out := rest\<rparr>, sv := ?v\<rparr>"
  let ?s2 = "s\<lparr>sv := ?v, cl := (cl s)\<lparr>net_out := []\<rparr>\<rparr>"
  have 1: "?R s ?s1" using to_server [OF c(3), of pdu pduLen x] v(3) by simp
  have 2: "?R\<^sup>*\<^sup>* ?s1 ?s2" using lose_client_out [of pdu pduLen ?s1] by simp
  have q: "quiet ?v" using v(2) by (simp add: quiet_def clean_def)
  obtain v' where v': "respond ?v = Ret () v'" "srv_core n b F E C v'" "quiet v'" "net_in v' = []" "net_out v' = []"
    "atEOF v' = atEOF (sv s)" "waitingForLastRR v' = (waitingForLastRR (sv s) \<and> of_nat E - 1 \<noteq> lastDataSeqNum (sv s))"
    using hear_RR [OF _ N E, of ?v x q] v(1,4) q by auto
  have "proc_ok ?v" "net_in ?v = Arrive x (enc (ack RR q E)) # []" using v(1) by (simp_all add: srv_core_def)
  from processPoll_ready [OF this, of t SHORT_TIME 10 RESEND_LOWEST RESPONSE_RECV QUIT]
  have "wait_body t ?v = Ret (Some 0) v'" using v'(1) by (simp add: wait_body_act wait_act_def)
  then have "server_small pdu pduLen (spc ?s2) (sv ?s2) = Ret (Wait 0) v'" using s(5) v(5) by simp
  from server_move [OF _ _ this] s(3,5) have 3: "?R ?s2 (?s2\<lparr>spc := Wait 0, sv := v'\<rparr>)" by simp
  from converse_rtranclp_into_rtranclp [OF 1 2] 3
  have run: "?R\<^sup>*\<^sup>* s (?s2\<lparr>spc := Wait 0, sv := v'\<rparr>)" by (rule rtranclp.rtrancl_into_rtrancl)
  from reach_keeps [OF run N s(1)] s c v' have "calm n b F (?s2\<lparr>spc := Wait 0, sv := v'\<rparr>)"
    by (simp add: calm_def)
  with run v' E show ?thesis by (intro exI [of _ "?s2\<lparr>spc := Wait 0, sv := v'\<rparr>"]) simp
qed

lemma one_round:
  assumes s: "calm n b F s" "spc s = Wait t" "t < 9" "srv_core n b F lo C (sv s)" and N: "sizes_ok n b F"
    and blocked: "isWindowClosed (win (sv s)) \<or> waitingForLastRR (sv s)"
  shows "\<exists>s'. (sys_step pdu pduLen)\<^sup>*\<^sup>* s s' \<and> (shalt s' = Some (Exit 0) \<or>
    calm n b F s' \<and> spc s' = Wait 0 \<and> (\<exists>lo'. srv_core n b F lo' C (sv s') \<and>
      (lo < lo' \<or> \<not> isWindowClosed (win (sv s')) \<and> \<not> waitingForLastRR (sv s') \<and> atEOF (sv s'))))"
proof -
  let ?R = "sys_step pdu pduLen"
  have q: "quiet (sv s)" "net_in (sv s) = []" "net_out (sv s) = []" "chalt s = None" "shalt s = None"
    "cpc s \<in> {OkPoll, AtC RECV_DATA}" "net_in (cl s) = []" "net_out (cl s) = []" "clean (cl s)"
    using s(1) by (simp_all add: calm_def)
  obtain v a j pl where tick: "server_small pdu pduLen (Wait t) ((sv s)\<lparr>net_in := [Timeout]\<rparr>) = Ret (Wait (t + 1)) v"
    and v: "srv_core n b F lo C v" "quiet v" "net_in v = []"
      "net_out v = [(a, enc (flag_code RESENT_DATA_TIMEOUT, of_nat j, pl))]"
      "win v = win (sv s)" "waitingForLastRR v = waitingForLastRR (sv s)"
    and j: "j \<le> lo" "lo < C \<longrightarrow> j = lo" "length pl \<le> MAX_PAYLOAD_SIZE"
    using server_resends [OF s(4) N q(1-3) s(3) blocked, of pdu pduLen] by auto
  let ?d = "enc (flag_code RESENT_DATA_TIMEOUT, of_nat j, pl)" and ?s1 = "s\<lparr>spc := Wait (t + 1), sv := v\<rparr>"
  have 1: "?R\<^sup>*\<^sup>* s ?s1" and inv1: "sys_inv n b F ?s1"
    using server_ticks(1,2) [OF s(1) N, of pdu pduLen "Wait (t + 1)" v] tick v(2,3) s(2) by simp_all
  obtain lo' C' E H where num: "srv_core n b F lo' C' (sv s)" "client_core n b F E H (cl s)"
    "client_held (dataState (cl s)) n b F E H (recvBuf (cl s))" "cpc_ok (cpc s) (dataState (cl s))"
    "dataState (cl s) \<in> {IN_ORDER, BUFFER}" "lo' \<le> E" "E \<le> C'" "C' \<le> lo' + n" "C' \<le> nchunks b F" "pc_ok (spc s) lo' C' (sv s)"
    by (rule calm_numbers [OF s(1) N])
  have "sys_inv n b F s" using s(1) by (simp add: calm_def)
  from same_numbers [OF this q(5) s(4) num(2) N] have E: "lo \<le> E" "E \<le> C" by simp_all
  have "proc_ok (cl s)" using num(2) by (simp add: client_core_def)
  then obtain r where 2: "?R\<^sup>*\<^sup>* ?s1 (?s1\<lparr>sv := (sv ?s1)\<lparr>net_out := []\<rparr>, cpc := AtC RECV_DATA,
      cl := (cl ?s1)\<lparr>net_in := [Arrive a ?d], filenameOk_retryCount := r\<rparr>\<rparr>)"
    using deliver_to_client [of ?s1 a ?d pdu pduLen] q v(4) by auto
  let ?c = "(cl s)\<lparr>net_in := [Arrive a ?d], filenameOk_retryCount := r\<rparr>" and ?v = "v\<lparr>net_out := []\<rparr>"
  let ?s2 = "s\<lparr>spc := Wait (t + 1), sv := ?v, cpc := AtC RECV_DATA, cl := ?c\<rparr>"
  have c: "client_core n b F E H ?c" "client_held (dataState ?c) n b F E H (recvBuf ?c)"
    "dataState ?c \<in> {IN_ORDER, BUFFER}" "clean ?c" "net_in ?c = [Arrive a ?d]"
    using num q(9) by (auto simp: client_core_def proc_ok_def clean_def)
  obtain st c' E' where recv: "receiveData ?c = Ret st c'" and c': "clean c'" "net_in c' = []" "expectedSeqNum c' = of_nat E'"
    "E \<le> E'" "j = E \<longrightarrow> E < E'" "E' < 2 ^ 31"
    and after: "st = RECV_DATA \<and> (\<exists>x q rest. net_out c' = net_out ?c @ (x, enc (ack RR q E')) # rest) \<or> st = SEND_EOF_ACK"
    using client_takes [OF c(1-4) N c(5) j(3)] j(1) E(1) by force
  let ?s3 = "?s2\<lparr>cpc := AtC st, cl := c'\<rparr>"
  have "client_small (cpc ?s2) (cl ?s2) = Ret (AtC st) c'" using recv by simp
  from client_go [of ?s2, OF _ _ this, of pdu pduLen] q(4) have "?R ?s2 ?s3" by simp
  with 1 2 have run: "?R\<^sup>*\<^sup>* s ?s3" by simp
  from reach_keeps [OF run N] s(1) have inv3: "sys_inv n b F ?s3" by (simp add: calm_def)
  have core: "srv_core n b F lo C ?v" "proc_ok ?v" using v(1) by (auto simp: srv_core_def proc_ok_def)
  have bl: "isWindowClosed (win ?v) \<or> waitingForLastRR ?v" using blocked v(5,6) by simp
  from after show ?thesis
  proof
    assume "st = SEND_EOF_ACK"
    with eof_ack_heard [of ?s3 "t + 1" pdu pduLen] q c' core(2) v(3) bl
    obtain s' where "?R\<^sup>*\<^sup>* ?s3 s'" "shalt s' = Some (Exit 0)" by auto
    with run show ?thesis by (meson rtranclp_trans)
  next
    assume "st = RECV_DATA \<and> (\<exists>x q rest. net_out c' = net_out ?c @ (x, enc (ack RR q E')) # rest)"
    then obtain x q' rest where st: "st = RECV_DATA" "net_out c' = (x, enc (ack RR q' E')) # rest" using q(8) by auto
    from ack_heard_waiting [OF inv3 _ _ _ _ _ _ _ _ c'(6) _ _ _ _ _ N, of "t + 1" x q' rest lo C pdu pduLen] st c' q(4,5) core v(2,3) bl
    obtain s' where s': "?R\<^sup>*\<^sup>* ?s3 s'" "calm n b F s'" "spc s' = Wait 0" "srv_core n b F E' C (sv s')" "lo \<le> E'" "E' \<le> C"
      "atEOF (sv s') = atEOF ?v" "waitingForLastRR (sv s') = (waitingForLastRR ?v \<and> of_nat E' - 1 \<noteq> lastDataSeqNum ?v)" by auto
    have "lo < E' \<or> \<not> isWindowClosed (win (sv s')) \<and> \<not> waitingForLastRR (sv s') \<and> atEOF (sv s')"
    proof (cases "lo < C")
      case True
      with j(2) c'(4,5) E(1) show ?thesis by auto
    next
      case False
      then have "lo = C" "E' = C" using s'(5,6) by auto
      moreover have "0 < n" using N by (simp add: sizes_ok_def)
      ultimately have "\<not> isWindowClosed (win (sv s'))" "\<not> isWindowClosed (win ?v)"
        using win_closed_iff(1) [OF s'(4)] win_closed_iff(1) [OF core(1)] by simp_all
      moreover from this bl core(1) have "lastDataSeqNum ?v = of_nat C - 1" "atEOF ?v" by (simp_all add: srv_core_def)
      ultimately show ?thesis using s'(7,8) \<open>E' = C\<close> by simp
    qed
    with s' rtranclp_trans [OF run s'(1)] show ?thesis by blast
  qed
qed

section \<open>All rounds\<close>

lemma server_moves_on:
  assumes s: "calm n b F s" and N: "sizes_ok n b F"
    and go: "spc s \<noteq> At DONE_SERVER" "server_small pdu pduLen (spc s) (sv s) = Ret pc (sv s)"
  shows "(sys_step pdu pduLen)\<^sup>*\<^sup>* s (s\<lparr>spc := pc\<rparr>)" "calm n b F (s\<lparr>spc := pc\<rparr>)"
proof -
  have q: "quiet (sv s)" "net_in (sv s) = []" "net_out (sv s) = []" using s by (simp_all add: calm_def)
  from q(3) have eq: "s\<lparr>spc := pc, sv := (sv s)\<lparr>net_out := []\<rparr>\<rparr> = s\<lparr>spc := pc\<rparr>"
    by (cases s, cases "sv s") simp
  show "(sys_step pdu pduLen)\<^sup>*\<^sup>* s (s\<lparr>spc := pc\<rparr>)" "calm n b F (s\<lparr>spc := pc\<rparr>)"
    using server_alone [OF s N go q(1,2)] by (simp_all only: eq)
qed

lemma calm_blocks:
  assumes s: "calm n b F s" "spc s \<in> {At SEND_DATA, Fill}" "srv_core n b F lo C (sv s)" and N: "sizes_ok n b F"
  shows "\<exists>s' C'. (sys_step pdu pduLen)\<^sup>*\<^sup>* s s' \<and> calm n b F s' \<and> spc s' = Wait 0 \<and> srv_core n b F lo C' (sv s')
    \<and> (isWindowClosed (win (sv s')) \<or> waitingForLastRR (sv s') \<or> atEOF (sv s'))"
proof -
  have "\<exists>s'. (sys_step pdu pduLen)\<^sup>*\<^sup>* s s' \<and> calm n b F s' \<and> spc s' = Fill \<and> srv_core n b F lo C (sv s')"
  proof (cases "spc s = Fill")
    case False
    with s(2) server_moves_on [OF s(1) N, of pdu pduLen Fill] s(3) show ?thesis
      by (intro exI [of _ "s\<lparr>spc := Fill\<rparr>"]) simp
  qed (use s in auto)
  then obtain s1 where s1: "(sys_step pdu pduLen)\<^sup>*\<^sup>* s s1" "calm n b F s1" "spc s1 = Fill" "srv_core n b F lo C (sv s1)"
    by blast
  from fill_up [OF s1(2-4) N, of pdu pduLen] obtain s2 C' where
    s2: "(sys_step pdu pduLen)\<^sup>*\<^sup>* s1 s2" "calm n b F s2" "spc s2 = Wait 0" "srv_core n b F lo C' (sv s2)"
    "atEOF (sv s2) \<or> C' = lo + n" by blast
  with rtranclp_trans [OF s1(1) s2(1)] win_closed_iff(1) [OF s2(4)] show ?thesis by blast
qed

lemma calm_continues:
  assumes s: "calm n b F s" "spc s = Wait t" "t < 9" "srv_core n b F lo C (sv s)" and N: "sizes_ok n b F"
  shows "\<exists>s' t' C'. (sys_step pdu pduLen)\<^sup>*\<^sup>* s s' \<and> calm n b F s' \<and> spc s' = Wait t' \<and> t' < 9 \<and> srv_core n b F lo C' (sv s')
    \<and> (isWindowClosed (win (sv s')) \<or> waitingForLastRR (sv s') \<or> atEOF (sv s'))"
proof (cases "isWindowClosed (win (sv s)) \<or> waitingForLastRR (sv s) \<or> atEOF (sv s)")
  case True
  with s show ?thesis by blast
next
  case False
  with s(2) server_moves_on [OF s(1) N, of pdu pduLen "At SEND_DATA"]
  have 1: "(sys_step pdu pduLen)\<^sup>*\<^sup>* s (s\<lparr>spc := At SEND_DATA\<rparr>)" "calm n b F (s\<lparr>spc := At SEND_DATA\<rparr>)" by simp_all
  have 2: "spc (s\<lparr>spc := At SEND_DATA\<rparr>) \<in> {At SEND_DATA, Fill}" "srv_core n b F lo C (sv (s\<lparr>spc := At SEND_DATA\<rparr>))"
    using s(4) by simp_all
  from calm_blocks [OF 1(2) 2 N, of pdu pduLen] obtain s' C' where
    "(sys_step pdu pduLen)\<^sup>*\<^sup>* (s\<lparr>spc := At SEND_DATA\<rparr>) s'" "calm n b F s'" "spc s' = Wait 0" "srv_core n b F lo C' (sv s')"
    "isWindowClosed (win (sv s')) \<or> waitingForLastRR (sv s') \<or> atEOF (sv s')" by blast
  with rtranclp_trans [OF 1(1)] show ?thesis
    by (intro exI [of _ s'] exI [of _ 0] exI [of _ C']) simp
qed

lemma unblocked_finishes:
  assumes s: "calm n b F s" "spc s = Wait t" "atEOF (sv s)" and N: "sizes_ok n b F"
    and "\<not> isWindowClosed (win (sv s))" "\<not> waitingForLastRR (sv s)"
  shows "\<exists>s'. (sys_step pdu pduLen)\<^sup>*\<^sup>* s s' \<and> shalt s' = Some (Exit 0)"
proof -
  from assms server_moves_on [OF s(1) N, of pdu pduLen "At SEND_EOF"]
  have 1: "(sys_step pdu pduLen)\<^sup>*\<^sup>* s (s\<lparr>spc := At SEND_EOF\<rparr>)" "calm n b F (s\<lparr>spc := At SEND_EOF\<rparr>)" by simp_all
  from calm_finishes [OF 1(2) _ N, of pdu pduLen] obtain s' where
    "(sys_step pdu pduLen)\<^sup>*\<^sup>* (s\<lparr>spc := At SEND_EOF\<rparr>) s'" "shalt s' = Some (Exit 0)" by auto
  with rtranclp_trans [OF 1(1)] show ?thesis by blast
qed

lemma recover_waiting:
  assumes "calm n b F s" "spc s = Wait t" "t < 9" "srv_core n b F lo C (sv s)" and N: "sizes_ok n b F"
  shows "\<exists>s'. (sys_step pdu pduLen)\<^sup>*\<^sup>* s s' \<and> shalt s' = Some (Exit 0)"
  using assms(1-4)
proof (induction "nchunks b F - lo" arbitrary: s t lo C rule: less_induct)
  case less
  let ?R = "sys_step pdu pduLen"
  from calm_continues [OF less.prems N, of pdu pduLen] obtain s1 t1 C1 where
    1: "?R\<^sup>*\<^sup>* s s1" and s1: "calm n b F s1" "spc s1 = Wait t1" "t1 < 9" "srv_core n b F lo C1 (sv s1)"
    and cases: "isWindowClosed (win (sv s1)) \<or> waitingForLastRR (sv s1) \<or> atEOF (sv s1)" by blast
  have "\<exists>s'. ?R\<^sup>*\<^sup>* s1 s' \<and> shalt s' = Some (Exit 0)"
  proof (cases "isWindowClosed (win (sv s1)) \<or> waitingForLastRR (sv s1)")
    case False
    with cases unblocked_finishes [OF s1(1,2) _ N, of pdu pduLen] show ?thesis by blast
  next
    case True
    from one_round [OF s1 N True, of pdu pduLen] obtain s2 where
      2: "?R\<^sup>*\<^sup>* s1 s2" and r: "shalt s2 = Some (Exit 0) \<or> calm n b F s2 \<and> spc s2 = Wait 0
        \<and> (\<exists>lo'. srv_core n b F lo' C1 (sv s2) \<and> (lo < lo'
            \<or> \<not> isWindowClosed (win (sv s2)) \<and> \<not> waitingForLastRR (sv s2) \<and> atEOF (sv s2)))" by blast
    have "\<exists>s'. ?R\<^sup>*\<^sup>* s2 s' \<and> shalt s' = Some (Exit 0)"
    proof (cases "shalt s2 = Some (Exit 0) \<or> \<not> isWindowClosed (win (sv s2)) \<and> \<not> waitingForLastRR (sv s2) \<and> atEOF (sv s2)")
      case True
      with r unblocked_finishes [of n b F s2 0 pdu pduLen] N show ?thesis by blast
    next
      case False
      with r obtain lo' where c: "calm n b F s2" "spc s2 = Wait 0" "srv_core n b F lo' C1 (sv s2)" "lo < lo'" by blast
      then have "lo' \<le> nchunks b F" by (simp add: srv_core_def)
      with c(4) have "nchunks b F - lo' < nchunks b F - lo" by simp
      from less.hyps [OF this c(1,2) _ c(3)] show ?thesis by simp
    qed
    with 2 show ?thesis by (blast intro: rtranclp_trans)
  qed
  with 1 show ?case by (blast intro: rtranclp_trans)
qed

lemma recover_filling:
  assumes s: "calm n b F s" "spc s \<in> {At SEND_DATA, Fill}" and N: "sizes_ok n b F"
  shows "\<exists>s'. (sys_step pdu pduLen)\<^sup>*\<^sup>* s s' \<and> shalt s' = Some (Exit 0)"
proof -
  obtain lo C where "srv_core n b F lo C (sv s)" using calm_numbers [OF s(1) N] by blast
  from calm_blocks [OF s this N, of pdu pduLen] obtain s1 C1 where
    s1: "(sys_step pdu pduLen)\<^sup>*\<^sup>* s s1" "calm n b F s1" "spc s1 = Wait 0" "srv_core n b F lo C1 (sv s1)" by blast
  from recover_waiting [OF s1(2,3) _ s1(4) N, of pdu pduLen] s1(1) show ?thesis by (auto intro: rtranclp_trans)
qed

text \<open>
  The side whose turn it is has a try left: it does not give up the next time its timer expires.
\<close>

fun has_try :: "server_pc \<Rightarrow> sys \<Rightarrow> bool" where
  "has_try (At WAIT_ON_FILENAME_OK_ACK) s \<longleftrightarrow> cpc s = OkPoll \<and> filenameOk_retryCount (cl s) < 9"
| "has_try (Wait t) s \<longleftrightarrow> t < 9"
| "has_try EofPoll s \<longleftrightarrow> eof_tryCount (sv s) < 9"
| "has_try (At DONE_SERVER) s \<longleftrightarrow> False"
| "has_try _ s \<longleftrightarrow> True"

lemma ok_ack_again:
  assumes s: "calm n b F s" "spc s = At WAIT_ON_FILENAME_OK_ACK" "has_try (spc s) s" and N: "sizes_ok n b F"
  shows "\<exists>s'. (sys_step pdu pduLen)\<^sup>*\<^sup>* s s' \<and> calm n b F s' \<and> spc s' = At SEND_DATA"
proof -
  let ?R = "sys_step pdu pduLen" and ?c = "(cl s)\<lparr>net_in := [Timeout]\<rparr>"
  have t: "cpc s = OkPoll" "filenameOk_retryCount (cl s) < 9" using s(2,3) by simp_all
  have q: "sys_inv n b F s" "chalt s = None" "shalt s = None" "clean (cl s)" "quiet (sv s)" "net_in (cl s) = []"
    "net_out (cl s) = []" "net_in (sv s) = []" "net_out (sv s) = []" using s(1) by (simp_all add: calm_def)
  obtain lo C where "srv_core n b F lo C (sv s)" using calm_numbers [OF s(1) N] by blast
  then have ok: "proc_ok (sv s)" by (simp add: srv_core_def)
  have 1: "?R s (s\<lparr>cl := ?c\<rparr>)" using client_timer [of pdu pduLen s] q(6) by simp
  have nil: "?c\<lparr>net_in := []\<rparr> = cl s" using q(6) by (cases "cl s") simp
  let ?c' = "(cl s)\<lparr>filenameOk_retryCount := filenameOk_retryCount (cl s) + 1\<rparr>"
  have "client_small (cpc (s\<lparr>cl := ?c\<rparr>)) (cl (s\<lparr>cl := ?c\<rparr>)) = Ret (AtC FILENAME_OK_STATE) ?c'"
    using processPoll_timeout [of ?c "[]" "filenameOk_retryCount (cl s)" SHORT_TIME 10 FILENAME_OK_STATE RECV_DATA DONE_RCOPY]
      nil t by (simp add: filenameOk_poll_def)
  from client_go [OF _ _ this, of pdu pduLen] q(2) t(1)
  have 2: "?R (s\<lparr>cl := ?c\<rparr>) (s\<lparr>cpc := AtC FILENAME_OK_STATE, cl := ?c'\<rparr>)" by simp
  let ?s2 = "s\<lparr>cpc := AtC FILENAME_OK_STATE, cl := ?c'\<rparr>"
  have ready: "cpc ?s2 = AtC FILENAME_OK_STATE" "spc ?s2 = At WAIT_ON_FILENAME_OK_ACK" "chalt ?s2 = None" "shalt ?s2 = None"
    "clean (cl ?s2)" "net_out (cl ?s2) = []" "proc_ok (sv ?s2)" "net_in (sv ?s2) = []"
    using s(2) q ok by (simp_all add: clean_def)
  from ok_ack_heard [OF ready, of pdu pduLen] obtain m' x conn where m': "pm_clean m'" and 3: "?R\<^sup>*\<^sup>* ?s2 (?s2\<lparr>cpc := OkPoll,
      cl := (cl ?s2)\<lparr>pm := m', send_errs := [], clientSeqNum := x, net_out := []\<rparr>,
      spc := At SEND_DATA, sv := (sv ?s2)\<lparr>net_in := [], clientConn := conn\<rparr>\<rparr>)" by blast
  let ?s3 = "?s2\<lparr>cpc := OkPoll, cl := (cl ?s2)\<lparr>pm := m', send_errs := [], clientSeqNum := x, net_out := []\<rparr>,
      spc := At SEND_DATA, sv := (sv ?s2)\<lparr>net_in := [], clientConn := conn\<rparr>\<rparr>"
  have run: "?R\<^sup>*\<^sup>* s ?s3" using converse_rtranclp_into_rtranclp [OF 1 converse_rtranclp_into_rtranclp [OF 2 3]] .
  from reach_keeps [OF run N q(1)] q m' have "calm n b F ?s3" by (simp add: calm_def clean_def quiet_def)
  with run show ?thesis by (intro exI [of _ ?s3]) simp
qed

lemma server_times_out:
  assumes s: "calm n b F s" "spc s \<in> {FillPoll, EofPoll}" "has_try (spc s) s" and N: "sizes_ok n b F"
  shows "\<exists>s'. (sys_step pdu pduLen)\<^sup>*\<^sup>* s s' \<and> calm n b F s' \<and> spc s' \<in> {Fill, At SEND_EOF}"
proof -
  let ?t = "(sv s)\<lparr>net_in := [Timeout]\<rparr>"
  have q: "quiet (sv s)" "net_in (sv s) = []" using s(1) by (simp_all add: calm_def)
  have nil: "?t\<lparr>net_in := []\<rparr> = sv s" using q(2) by (cases "sv s") simp
  have "\<exists>pc v. pc \<in> {Fill, At SEND_EOF} \<and> server_small pdu pduLen (spc s) ?t = Ret pc v \<and> quiet v \<and> net_in v = []"
  proof (cases "spc s = FillPoll")
    case True
    have "fill_poll ?t = Ret () (sv s)" using pollCall_timeout [of ?t "[]" 0] nil by (simp add: fill_poll_def)
    with True q show ?thesis by simp
  next
    case False
    then have pc: "spc s = EofPoll" "eof_tryCount (sv s) < 9" using s(2,3) by auto
    have "eof_poll ?t = Ret SEND_EOF ((sv s)\<lparr>eof_tryCount := eof_tryCount (sv s) + 1\<rparr>)"
      using processPoll_timeout [of ?t "[]" "eof_tryCount (sv s)" SHORT_TIME 10 SEND_EOF RECV_POSSIBLE_EOF_ACK DONE_SERVER] nil pc(2)
      by (simp add: eof_poll_def)
    with pc q show ?thesis by (simp add: quiet_def clean_def)
  qed
  then obtain pc v where go: "pc \<in> {Fill, At SEND_EOF}" "server_small pdu pduLen (spc s) ?t = Ret pc v" "quiet v" "net_in v = []"
    by blast
  have "spc s \<noteq> At DONE_SERVER" using s(2) by auto
  from server_ticks(3,4) [OF s(1) N this go(2-4)] go(1) show ?thesis
    by (intro exI [of _ "s\<lparr>spc := pc, sv := v\<lparr>net_out := []\<rparr>\<rparr>"]) simp
qed

lemma recover:
  assumes s: "calm n b F s" "has_try (spc s) s" and N: "sizes_ok n b F"
  shows "\<exists>s'. (sys_step pdu pduLen)\<^sup>*\<^sup>* s s' \<and> shalt s' = Some (Exit 0)"
proof -
  have go: "\<exists>s'. (sys_step pdu pduLen)\<^sup>*\<^sup>* s s' \<and> shalt s' = Some (Exit 0)"
    if "calm n b F s" "spc s \<in> {At SEND_DATA, Fill, At SEND_EOF}" for s
    using that recover_filling [of n b F s pdu pduLen] calm_finishes [of n b F s pdu pduLen] N by blast
  obtain lo C where core: "srv_core n b F lo C (sv s)" and pc: "pc_ok (spc s) lo C (sv s)" using calm_numbers [OF s(1) N] by blast
  consider (wait) t where "spc s = Wait t" | (out) "spc s \<in> {FillPoll, EofPoll}" | (name) "spc s = At WAIT_ON_FILENAME_OK_ACK"
    | (now) "spc s \<in> {At SEND_DATA, Fill, At SEND_EOF}"
  proof (cases "spc s")
    case (At st)
    with pc s(2) that(3,4) show ?thesis by (cases st) auto
  qed (use that in auto)
  then show ?thesis
  proof cases
    case (wait t)
    with s(2) recover_waiting [OF s(1) wait _ core N, of pdu pduLen] show ?thesis by simp
  next
    case out
    from server_times_out [OF s(1) out s(2) N, of pdu pduLen] go show ?thesis by (blast intro: rtranclp_trans)
  next
    case name
    from ok_ack_again [OF s(1) name s(2) N, of pdu pduLen] go show ?thesis by (blast intro: rtranclp_trans)
  next
    case now
    from go [OF s(1) now] show ?thesis .
  qed
qed

text \<open>What is under way may get lost first.\<close>

lemma recover_lossy:
  assumes N: "sizes_ok n b F" and s: "sys_inv n b F s" "chalt s = None" "shalt s = None"
    "cpc s \<in> {OkPoll, AtC RECV_DATA}" "has_try (spc s) s"
    and q: "clean (cl s)" "quiet (sv s)" "net_in (cl s) = []" "net_in (sv s) = []"
  shows "\<exists>s'. (sys_step pdu pduLen)\<^sup>*\<^sup>* s s' \<and> shalt s' = Some (Exit 0)"
proof -
  let ?R = "sys_step pdu pduLen" and ?s1 = "s\<lparr>sv := (sv s)\<lparr>net_out := []\<rparr>\<rparr>"
  let ?s2 = "?s1\<lparr>cl := (cl ?s1)\<lparr>net_out := []\<rparr>\<rparr>"
  have run: "?R\<^sup>*\<^sup>* s ?s2" using rtranclp_trans [OF lose_server_out lose_client_out] .
  from reach_keeps [OF run N s(1)] s q have "calm n b F ?s2" by (simp add: calm_def clean_def)
  moreover have "has_try (spc ?s2) ?s2" using s(5) by (cases "(spc s, s)" rule: has_try.cases) simp_all
  ultimately show ?thesis using recover [OF _ _ N, of ?s2 pdu pduLen] run by (blast intro: rtranclp_trans)
qed

text \<open>A run in which everything the server sends at the start gets lost.\<close>

lemma lossy_start:
  assumes init: "sys_init n b F s0" and N: "sizes_ok n b F" and cl: "clean (cl s0)" and sv: "quiet (sv s0)"
    and short: "nchunks b F < n"
  obtains s where "(sys_step pdu pduLen)\<^sup>*\<^sup>* s0 s" "calm n b F s" "spc s = Wait 0" "atEOF (sv s)"
proof -
  obtain s1 where 1: "(sys_step pdu pduLen)\<^sup>*\<^sup>* s0 s1" and s1: "round_start n b F 0 s1"
    using begin_transfer [OF init cl sv] by blast
  have "calm n b F s1"
    using s1 reach_inv [OF N init 1] by (auto simp: round_start_def both_at_def in_order_def calm_def)
  moreover have "spc s1 = Fill" "srv_core n b F 0 0 (sv s1)" using s1 by (simp_all add: round_start_def)
  ultimately obtain s2 C where s2: "(sys_step pdu pduLen)\<^sup>*\<^sup>* s1 s2" "calm n b F s2" "spc s2 = Wait 0"
    "srv_core n b F 0 C (sv s2)" "atEOF (sv s2) \<or> C = 0 + n" using fill_up [OF _ _ _ N, of s1 0 0 pdu pduLen] by blast
  from s2(4,5) short have "atEOF (sv s2)" by (auto simp: srv_core_def)
  with that rtranclp_trans [OF 1 s2(1)] s2(2,3) show ?thesis by blast
qed

end
