(* ===== verification/Args.thy ===== *)
theory Args
  imports Handshake
begin

text \<open>
  The command lines: \<open>checkArgs\<close> and \<open>main\<close> of \<open>rcopy.c\<close> and of \<open>server.c\<close>. \<open>argv\<close> is a list
  with, for every argument, the memory from its first byte on; \<open>argc\<close> is its length.
\<close>

section \<open>The client\<close>

abbreviation (input) MAX_REMOTE_MACHINE_NAME_LEN :: nat where "MAX_REMOTE_MACHINE_NAME_LEN \<equiv> 1000"

text \<open>The parameters as \<open>main\<close> declares them.\<close>

definition zero_parameters :: Parameters where
  "zero_parameters = \<lparr>fromFilename = replicate (MAX_FILENAME_LENGTH + 1) 0, fromFilenameLen = 0,
     toFilename = replicate (MAX_FILENAME_LENGTH + 1) 0, toFilenameLen = 0, windowSize = 0, bufferSize = 0,
     errorRate = Num 0, remoteMachine = replicate MAX_REMOTE_MACHINE_NAME_LEN 0, portNumber = 0\<rparr>"

text \<open>
  \<open>strlen\<close> is cut to an \<open>int\<close>. The name of the remote machine is copied as 1000 bytes from
  wherever it stands.
\<close>

definition rcopy_checkArgs :: "byte list list \<Rightarrow> Parameters \<Rightarrow> halt + Parameters" where
  "rcopy_checkArgs argv par =
     (if length argv \<noteq> 8 then Inl (Exit 1)
      else
        bindE (c_string (argv ! 1)) (\<lambda>from.
        bindE (c_string (argv ! 2)) (\<lambda>to.
        let fromLen = wrap32 (int (length from)); toLen = wrap32 (int (length to)) in
        if int MAX_FILENAME_LENGTH < fromLen \<or> int MAX_FILENAME_LENGTH < toLen then Inl (Exit 1)
        else
          bindE (memcpy (fromFilename par) 0 (argv ! 1) (fromLen + 1)) (\<lambda>fromName.
          bindE (memcpy (toFilename par) 0 (argv ! 2) (toLen + 1)) (\<lambda>toName.
          bindE (c_string (argv ! 3)) (\<lambda>size3.
          bindE (c_string (argv ! 4)) (\<lambda>size4.
          let wSize = atoi size3; bSize = atoi size4 in
          if bSize < 1 \<or> 1400 < bSize then Inl (Exit 1)
          else
            bindE (c_string (argv ! 5)) (\<lambda>rate.
            if fle (Num 1) (atof rate) then Inl (Exit 1)
            else
              bindE (memcpy (remoteMachine par) 0 (argv ! 6) (int MAX_REMOTE_MACHINE_NAME_LEN)) (\<lambda>remote.
              bindE (c_string (argv ! 7)) (\<lambda>port.
                Inr \<lparr>fromFilename = fromName, fromFilenameLen = fromLen, toFilename = toName, toFilenameLen = toLen,
                     windowSize = wSize, bufferSize = bSize, errorRate = atof rate, remoteMachine = remote,
                     portNumber = atoi port\<rparr>))))))))))"

text \<open>
  \<open>main\<close>: \<open>l\<close> is the library after its constructors, \<open>now\<close> and \<open>now'\<close> are the times that
  \<open>sendErr_init\<close> sees. The result \<open>Ret 0\<close> is the return from \<open>main\<close>.
\<close>

definition rcopy_prepare :: "int \<Rightarrow> int \<Rightarrow> library \<Rightarrow> byte list list \<Rightarrow> rcopy \<Rightarrow> (rcopy, unit) outcome" where
  "rcopy_prepare now now' l argv c =
     bindO (liftO (rcopy_checkArgs argv (myParameters c)) c) (\<lambda>par c.
       let l = sendErr_init (errorRate par) True True 1 True now now' l in
       Ret () (c\<lparr>myParameters := par, pm := pktMgr l\<rparr>))"

definition rcopy_main ::
  "nat \<Rightarrow> int \<Rightarrow> int \<Rightarrow> library \<Rightarrow> byte list list \<Rightarrow> rcopy \<Rightarrow> (rcopy, int) outcome option" where
  "rcopy_main fuel now now' l argv c =
     (case rcopy_prepare now now' l argv c of
        Stop h c \<Rightarrow> Some (Stop h c)
      | Ret _ c \<Rightarrow> map_option (\<lambda>r. bindO r (\<lambda>_. Ret 0)) (processFile fuel c))"

section \<open>The server\<close>

text \<open>The error rate and the port.\<close>

definition server_checkArgs :: "byte list list \<Rightarrow> cfloat \<times> int \<Rightarrow> halt + cfloat \<times> int" where
  "server_checkArgs argv args =
     (if length argv \<noteq> 3 \<and> length argv \<noteq> 2 then Inl (Exit 1)
      else
        bindE (c_string (argv ! 1)) (\<lambda>rate.
        if fle (Num 1) (atof rate) then Inl (Exit 1)
        else if length argv = 3
        then bindE (c_string (argv ! 2)) (\<lambda>port. Inr (atof rate, atoi port))
        else Inr (atof rate, snd args)))"

text \<open>
  The library of a child after its call of \<open>sendErr_init\<close>.
\<close>

definition server_child :: "cfloat \<Rightarrow> int \<Rightarrow> int \<Rightarrow> library \<Rightarrow> library" where
  "server_child rate now now' l = sendErr_init rate True True 1 True now now' l"

text \<open>
  \<open>main\<close>: the children with their requests and libraries; child \<open>k\<close> sees the times
  \<open>clock k\<close>. The parent itself never calls \<open>sendErr_init\<close>.
\<close>

definition server_main ::
  "(nat \<Rightarrow> int \<times> int) \<Rightarrow> byte list list \<Rightarrow> int \<Rightarrow> byte list \<Rightarrow> library \<Rightarrow> int list \<Rightarrow> proc
   \<Rightarrow> (sockaddr_in6 \<times> byte list \<times> int \<times> library) list \<times> halt" where
  "server_main clock argv bind_result pdu l pids p =
     (case server_checkArgs argv (Num 0, 0) of
        Inl h \<Rightarrow> ([], h)
      | Inr (rate, port) \<Rightarrow>
          (case udpServerSetup bind_result port p of
             Stop h p \<Rightarrow> ([], h)
           | Ret _ p \<Rightarrow>
               (case processServer pdu l pids (net_in p) of (children, h) \<Rightarrow>
                  (map (\<lambda>(k, a, pdu, n, l). (a, pdu, n, server_child rate (fst (clock k)) (snd (clock k)) l))
                     (enumerate 0 children), h))))"

text \<open>
  The handler of \<open>SIGCHLD\<close>: \<open>waits\<close> is what the coming calls of \<open>waitpid\<close> return; the result is
  the list of the children reaped and the calls that are left.
\<close>

fun handleZombies :: "int list \<Rightarrow> int list \<times> int list" where
  "handleZombies [] = ([], [])"
| "handleZombies (pid # waits) =
     (if 0 < pid then (case handleZombies waits of (reaped, rest) \<Rightarrow> (pid # reaped, rest)) else ([], waits))"

section \<open>What is accepted\<close>

text \<open>The type of the parameters: the arrays have their lengths, the names their ends, the block size its bounds.\<close>

definition parameters_ok :: "Parameters \<Rightarrow> bool" where
  "parameters_ok par \<longleftrightarrow> length (fromFilename par) = MAX_FILENAME_LENGTH + 1
     \<and> length (toFilename par) = MAX_FILENAME_LENGTH + 1
     \<and> length (remoteMachine par) = MAX_REMOTE_MACHINE_NAME_LEN
     \<and> (\<exists>name. c_string (fromFilename par) = Inr name \<and> fromFilenameLen par = int (length name))
     \<and> (\<exists>name. c_string (toFilename par) = Inr name \<and> toFilenameLen par = int (length name))
     \<and> 1 \<le> bufferSize par \<and> bufferSize par \<le> 1400
     \<and> - (2 ^ 31) \<le> windowSize par \<and> windowSize par < 2 ^ 31 \<and> \<not> fle (Num 1) (errorRate par)"

lemma wrap32_range: "- (2 ^ 31) \<le> wrap32 i" "wrap32 i < 2 ^ 31"
  using sint_range_size [of "word_of_int i :: 32 word"] by (simp_all add: wrap32_def word_size)

text \<open>No string of the command line is longer than an \<open>int\<close> can say; the kernel sees to that.\<close>

definition args_fit :: "byte list list \<Rightarrow> bool" where
  "args_fit argv \<longleftrightarrow> (\<forall>m \<in> set argv. \<forall>s. c_string m = Inr s \<longrightarrow> length s < 2 ^ 31)"

lemma name_stored:
  assumes "c_string m = Inr s" "length s < 2 ^ 31" "wrap32 (int (length s)) \<le> 100"
    and "memcpy (replicate 101 0) 0 m (wrap32 (int (length s)) + 1) = Inr name"
  shows "length s \<le> 100 \<and> wrap32 (int (length s)) = int (length s) \<and> name = s @ 0 # replicate (100 - length s) 0
    \<and> c_string name = Inr s"
proof -
  obtain rest where m: "m = s @ 0 # rest" "0 \<notin> set s" using c_string_split [OF assms(1)] by blast
  have "int (length s) < 2 ^ 31" using assms(2) by (metis of_nat_less_iff of_nat_numeral of_nat_power)
  then have w: "wrap32 (int (length s)) = int (length s)" by (intro wrap32_seq) simp_all
  have l: "length s \<le> 100" using assms(3) unfolding w by simp
  moreover have "nat (int (length s) + 1) = Suc (length s)" by simp
  ultimately have name: "name = s @ 0 # replicate (100 - length s) 0"
    using assms(4) by (simp add: w m memcpy_def split: if_splits)
  show ?thesis unfolding name using w l c_string_ok [OF m(2)] by simp
qed

text \<open>A command line that is accepted, taken apart.\<close>

lemma rcopy_checkArgs_Inr:
  assumes "rcopy_checkArgs argv par0 = Inr par"
  obtains from_name to_name size3 size4 rate port where
    "length argv = 8" "c_string (argv ! 1) = Inr from_name" "c_string (argv ! 2) = Inr to_name"
    "wrap32 (int (length from_name)) \<le> 100" "wrap32 (int (length to_name)) \<le> 100"
    "memcpy (fromFilename par0) 0 (argv ! 1) (wrap32 (int (length from_name)) + 1) = Inr (fromFilename par)"
    "memcpy (toFilename par0) 0 (argv ! 2) (wrap32 (int (length to_name)) + 1) = Inr (toFilename par)"
    "memcpy (remoteMachine par0) 0 (argv ! 6) 1000 = Inr (remoteMachine par)"
    "c_string (argv ! 3) = Inr size3" "c_string (argv ! 4) = Inr size4" "c_string (argv ! 5) = Inr rate"
    "c_string (argv ! 7) = Inr port" "fromFilenameLen par = wrap32 (int (length from_name))"
    "toFilenameLen par = wrap32 (int (length to_name))" "windowSize par = atoi size3" "bufferSize par = atoi size4"
    "1 \<le> atoi size4" "atoi size4 \<le> 1400" "\<not> fle (Num 1) (atof rate)" "errorRate par = atof rate" "portNumber par = atoi port"
  using assms unfolding rcopy_checkArgs_def Let_def
  by (auto simp: run_simps not_less split: if_splits)

text \<open>
  C15. What \<open>checkArgs\<close> of the client accepts is well formed: both names are
  terminated strings of the stored length in arrays of 101 bytes, the block size is between 1 and
  1400, the window size is an \<open>int\<close>, and the error rate is not 1 or more.
\<close>

theorem accepted_parameters:
  assumes "rcopy_checkArgs argv zero_parameters = Inr par" "args_fit argv"
  shows "parameters_ok par"
proof -
  from rcopy_checkArgs_Inr [OF assms(1)] obtain from_name to_name size3 size4 rate where
    argv: "length argv = 8" "c_string (argv ! 1) = Inr from_name" "c_string (argv ! 2) = Inr to_name"
      "wrap32 (int (length from_name)) \<le> 100" "wrap32 (int (length to_name)) \<le> 100"
    and names: "memcpy (fromFilename zero_parameters) 0 (argv ! 1) (wrap32 (int (length from_name)) + 1) = Inr (fromFilename par)"
      "memcpy (toFilename zero_parameters) 0 (argv ! 2) (wrap32 (int (length to_name)) + 1) = Inr (toFilename par)"
      "memcpy (remoteMachine zero_parameters) 0 (argv ! 6) 1000 = Inr (remoteMachine par)"
    and par: "fromFilenameLen par = wrap32 (int (length from_name))" "toFilenameLen par = wrap32 (int (length to_name))"
      "windowSize par = atoi size3" "bufferSize par = atoi size4" "1 \<le> atoi size4" "atoi size4 \<le> 1400"
      "\<not> fle (Num 1) (atof rate)" "errorRate par = atof rate" by metis
  have "length from_name < 2 ^ 31" "length to_name < 2 ^ 31"
    using assms(2) argv(1-3) by (auto simp: args_fit_def)
  moreover have "fromFilename zero_parameters = replicate 101 0" "toFilename zero_parameters = replicate 101 0"
    by (simp_all add: zero_parameters_def)
  ultimately have "c_string (fromFilename par) = Inr from_name \<and> fromFilenameLen par = int (length from_name)"
    "c_string (toFilename par) = Inr to_name \<and> toFilenameLen par = int (length to_name)"
    using name_stored [of "argv ! 1" from_name "fromFilename par"] name_stored [of "argv ! 2" to_name "toFilename par"]
      argv names par by auto
  moreover have "length (fromFilename par) = 101" "length (toFilename par) = 101" "length (remoteMachine par) = 1000"
    using memcpy_length [OF names(1)] memcpy_length [OF names(2)] memcpy_length [OF names(3)]
    by (simp_all add: zero_parameters_def)
  ultimately show ?thesis using par wrap32_range [of "atol size3"] by (auto simp: parameters_ok_def atoi_def)
qed

section \<open>A command line in decimal\<close>

text \<open>The argument \<open>s\<close> in memory, followed by \<open>rest\<close>.\<close>

abbreviation (input) arg :: "byte list \<Rightarrow> byte list \<Rightarrow> byte list" where
  "arg s rest \<equiv> s @ 0 # rest"

definition command_line ::
  "byte list \<Rightarrow> byte list \<Rightarrow> nat \<Rightarrow> nat \<Rightarrow> byte list \<Rightarrow> byte list \<Rightarrow> nat \<Rightarrow> byte list \<Rightarrow> byte list list" where
  "command_line from_name to_name n b rate host port rest =
     [arg [114, 99, 111, 112, 121] rest, arg from_name rest, arg to_name rest, arg (decimal n) rest,
      arg (decimal b) rest, arg rate rest, arg host rest, arg (decimal port) rest]"

lemma command_line_args:
  assumes names: "length from_name \<le> 100" "0 \<notin> set from_name" "length to_name \<le> 100" "0 \<notin> set to_name"
    and sizes: "n < 2 ^ 31" "1 \<le> b" "b \<le> 1400"
    and rate: "0 \<notin> set rate" "\<not> fle (Num 1) (atof rate)"
  shows "rcopy_checkArgs (command_line from_name to_name n b rate host port rest) zero_parameters =
    bindE (memcpy (replicate 1000 0) 0 (host @ 0 # rest) 1000) (\<lambda>remote.
      Inr \<lparr>fromFilename = from_name @ 0 # replicate (100 - length from_name) 0, fromFilenameLen = int (length from_name),
        toFilename = to_name @ 0 # replicate (100 - length to_name) 0, toFilenameLen = int (length to_name),
        windowSize = int n, bufferSize = int b, errorRate = atof rate, remoteMachine = remote,
        portNumber = atoi (decimal port)\<rparr>)"
proof -
  let ?cl = "command_line from_name to_name n b rate host port rest"
  have len: "wrap32 (int (length from_name)) = int (length from_name)" "wrap32 (int (length to_name)) = int (length to_name)"
    using names by (simp_all add: wrap32_seq)
  have suc: "nat (int k + 1) = Suc k" for k by simp
  have copy: "memcpy (replicate 101 0) 0 (s @ 0 # rest) (int (length s) + 1) = Inr (s @ 0 # replicate (100 - length s) 0)"
    if "length s \<le> 100" for s :: "byte list"
    using that by (simp add: memcpy_def suc)
  have nth: "?cl ! 1 = arg from_name rest" "?cl ! 2 = arg to_name rest" "?cl ! 3 = arg (decimal n) rest"
    "?cl ! 4 = arg (decimal b) rest" "?cl ! 5 = arg rate rest" "?cl ! 6 = arg host rest"
    "?cl ! 7 = arg (decimal port) rest" "length ?cl = 8"
    by (simp_all add: command_line_def)
  have strings: "c_string (arg from_name rest) = Inr from_name" "c_string (arg to_name rest) = Inr to_name"
    "c_string (arg (decimal k) rest) = Inr (decimal k)" "c_string (arg rate rest) = Inr rate" for k
    using names rate(1) decimal_no_zero by (simp_all add: c_string_ok)
  have atois: "atoi (decimal n) = int n" "atoi (decimal b) = int b" using sizes by (simp_all add: atoi_decimal)
  have zp: "fromFilename zero_parameters = replicate 101 0" "toFilename zero_parameters = replicate 101 0"
    "remoteMachine zero_parameters = replicate 1000 0" by (simp_all add: zero_parameters_def)
  have small: "\<not> int 100 < int (length from_name)" "\<not> int 100 < int (length to_name)" "\<not> int b < 1" "\<not> 1400 < int b"
    "int 1000 = 1000"
    using names sizes by simp_all
  show ?thesis
    unfolding rcopy_checkArgs_def nth strings bindE.simps len Let_def zp atois
    using names sizes by (simp add: small copy rate(2) del: of_nat_numeral)
qed

lemma command_line_read:
  assumes names: "length from_name \<le> 100" "0 \<notin> set from_name" "length to_name \<le> 100" "0 \<notin> set to_name"
    and sizes: "n < 2 ^ 31" "1 \<le> b" "b \<le> 1400" "port < 2 ^ 31"
    and rate: "0 \<notin> set rate" "\<not> fle (Num 1) (atof rate)"
    and host: "0 \<notin> set host" "length host < 1000" "1000 \<le> length host + 1 + length rest"
  shows "\<exists>par. rcopy_checkArgs (command_line from_name to_name n b rate host port rest) zero_parameters = Inr par
    \<and> asks_for b n from_name par \<and> errorRate par = atof rate \<and> c_string (remoteMachine par) = Inr host
    \<and> portNumber par = int port \<and> c_string (toFilename par) = Inr to_name"
proof -
  let ?host = "host @ 0 # take (999 - length host) rest"
  let ?par = "\<lparr>fromFilename = from_name @ 0 # replicate (100 - length from_name) 0, fromFilenameLen = int (length from_name),
    toFilename = to_name @ 0 # replicate (100 - length to_name) 0, toFilenameLen = int (length to_name),
    windowSize = int n, bufferSize = int b, errorRate = atof rate, remoteMachine = ?host, portNumber = int port\<rparr>"
  have "take 1000 (host @ 0 # rest) = ?host" using host(2) by (simp add: take_Cons' diff_diff_eq)
  then have "memcpy (replicate 1000 0) 0 (host @ 0 # rest) 1000 = Inr ?host" using host(3) by (simp add: memcpy_def)
  then have "rcopy_checkArgs (command_line from_name to_name n b rate host port rest) zero_parameters = Inr ?par"
    unfolding command_line_args [OF names sizes(1-3) rate] by (simp add: atoi_decimal [OF sizes(4)])
  moreover have "asks_for b n from_name ?par" using names by (simp add: asks_for_def)
  moreover have "c_string ?host = Inr host" "c_string (to_name @ 0 # replicate (100 - length to_name) 0) = Inr to_name"
    using host(1) names(4) by (simp_all add: c_string_ok)
  ultimately show ?thesis by (intro exI [of _ ?par]) simp
qed

text \<open>The sample command line is \<open>rcopy f g 4 2 0 h 80\<close>.\<close>

definition sample_argv :: "byte list list" where
  "sample_argv = command_line [102] [103] 4 2 [48] [104] 80 (replicate 1000 0)"

lemma args_fit_short: "\<forall>m \<in> set argv. length m < 2 ^ 31 \<Longrightarrow> args_fit argv"
  by (auto simp: args_fit_def elim!: c_string_split)

lemma sample_rate: "\<not> fle (Num 1) (atof [48])"
  by code_simp

theorem accepted_parameters_witness:
  "\<exists>par. rcopy_checkArgs sample_argv zero_parameters = Inr par \<and> parameters_ok par"
proof -
  obtain par where par: "rcopy_checkArgs sample_argv zero_parameters = Inr par"
    using command_line_read [of "[102]" "[103]" 4 2 80 "[48]" "[104]" "replicate 1000 0"] sample_rate
    unfolding sample_argv_def by auto
  moreover have "args_fit sample_argv"
    by (rule args_fit_short) (simp add: sample_argv_def command_line_def decimal.simps)
  ultimately show ?thesis using accepted_parameters [OF par] by blast
qed

section \<open>The client ends\<close>

text \<open>The process when \<open>main\<close> is called.\<close>

abbreviation (input) rcopy_start ::
  "event list \<Rightarrow> bool list \<Rightarrow> PacketManager \<Rightarrow> nat \<Rightarrow> int list \<Rightarrow> int \<Rightarrow> resolver \<Rightarrow> rcopy" where
  "rcopy_start \<equiv> rcopy_boot zero_parameters"

lemma rcopy_prepare_eq:
  "rcopy_prepare now now' l argv (rcopy_start reports errs manager memory descriptors opened resolve) =
    (case rcopy_checkArgs argv zero_parameters of
       Inl h \<Rightarrow> Stop h (rcopy_start reports errs manager memory descriptors opened resolve)
     | Inr par \<Rightarrow> Ret () (rcopy_boot par reports errs
         (pktMgr (sendErr_init (errorRate par) True True 1 True now now' l)) memory descriptors opened resolve))"
  by (cases "rcopy_checkArgs argv zero_parameters") (simp_all add: rcopy_prepare_def Let_def rcopy_boot_def)

text \<open>
  C12. The client program does not run for ever, whatever its command line and its environment
  say: with fuel for \<open>7n + 6\<close> passes, where \<open>n\<close> is the number of reports
  of the kernel, \<open>main\<close> has returned, has exited, has faulted (while it read its
  arguments, or later, as at a datagram shorter than the header), or stands waiting for a report.
  The sockets the kernel gives the process do not have the number 0.
\<close>

theorem rcopy_main_ends:
  assumes "started getenv l" "\<forall>s \<in> set descriptors. s \<noteq> 0"
  shows "\<exists>r. rcopy_main (7 * length reports + 6) now now' l argv
    (rcopy_start reports errs (pktMgr l) memory descriptors opened resolve) = Some r"
proof (cases "rcopy_checkArgs argv zero_parameters")
  case (Inl h)
  then show ?thesis unfolding rcopy_main_def rcopy_prepare_eq by simp
next
  case (Inr par)
  let ?m = "pktMgr (sendErr_init (errorRate par) True True 1 True now now' l)"
  obtain r where "processFile (7 * length reports + 6) (rcopy_boot par reports errs ?m memory descriptors opened resolve) = Some r"
    using processFile_ends [OF started_pm_ok [OF assms(1)] assms(2)] by blast
  with Inr show ?thesis unfolding rcopy_main_def rcopy_prepare_eq by simp
qed

theorem rcopy_main_ends_witness:
  "\<exists>r. rcopy_main (7 * length [Timeout] + 6) 7 7 (library_boot (\<lambda>_. None) 0 3)
     sample_argv
    (rcopy_start [Timeout] [] (pktMgr (library_boot (\<lambda>_. None) 0 3)) 5664 [3] 4 (\<lambda>_ _. None)) = Some r"
  by (rule rcopy_main_ends [where getenv = "\<lambda>_. None"]) (simp_all add: started_boot)

section \<open>Without errors\<close>

text \<open>
  \<open>checkArgs\<close> has no lower bound for the error rate. A negative rate, or none that is a number, is
  the one way to turn the injection off from the command line.
\<close>

lemma started_clean:
  assumes "started (\<lambda>_. None) l" "no_errors (narrow rate)"
  shows "pm_clean (pktMgr (sendErr_init rate drop_flag flip_flag debug_flag random_flag now now' l))"
proof -
  obtain m where m: "configured (\<lambda>_. None) m l" "m_ErrorCase_Constant m = env_constant (\<lambda>_. None)"
    using started_configured [OF assms(1)] by blast
  show ?thesis
    unfolding sendErr_init_configured [OF m(1)]
    using m(2) assms(2) by (simp add: pm_clean_def env_rate_def env_constant_def env_list_def new_infoSeqNo_def)
qed

text \<open>
  With a time for a seed, the number of the child makes no difference: children that call
  \<open>sendErr_init\<close> in the same second draw the same numbers.
\<close>

lemma server_child_rand:
  assumes "started getenv l" "env_seed getenv = None"
  shows "rand (pktMgr (server_child rate now now' l)) = srand48 now"
proof -
  obtain m where "configured getenv m l" using started_configured [OF assms(1)] by blast
  from sendErr_init_configured [OF this] show ?thesis by (simp add: server_child_def assms(2))
qed

text \<open>A server with one request; the kernel chooses the port.\<close>

lemma server_main_one:
  assumes "0 \<notin> set rate" "\<not> fle (Num 1) (atof rate)" "sockets p = s # ss" "0 \<le> s" "0 \<le> bind_result"
    and "processServer pdu l pids (net_in p) = ([(a, pdu', n, l')], h)"
  shows "server_main clock [prog, arg rate rest] bind_result pdu l pids p =
    ([(a, pdu', n, server_child (atof rate) (fst (clock 0)) (snd (clock 0)) l')], h)"
proof -
  have "server_checkArgs [prog, arg rate rest] (Num 0, 0) = Inr (atof rate, 0)"
    using assms(1,2) by (simp add: server_checkArgs_def c_string_ok)
  moreover obtain x where "udpServerSetup bind_result 0 p = Ret x (p\<lparr>sockets := ss\<rparr>)"
    using assms(3-5) by (simp add: udpServerSetup_def socket_call_def Let_def)
  ultimately show ?thesis
    using assms(6) by (simp add: server_main_def split_def)
qed

section \<open>The name of the remote machine\<close>

text \<open>
  C33. \<open>checkArgs\<close> of the client copies 1000 bytes from the name of the remote
  machine, however short it is: with an otherwise good command line, when fewer bytes stand behind
  the name in memory, the copy runs out of bounds.
\<close>

theorem short_memory_faults:
  assumes names: "length from_name \<le> 100" "0 \<notin> set from_name" "length to_name \<le> 100" "0 \<notin> set to_name"
    and sizes: "n < 2 ^ 31" "1 \<le> b" "b \<le> 1400"
    and rate: "0 \<notin> set rate" "\<not> fle (Num 1) (atof rate)"
    and host: "length host + 1 + length rest < 1000"
  shows "rcopy_checkArgs (command_line from_name to_name n b rate host port rest) zero_parameters = Inl (Fault OutOfBounds)"
proof -
  note args = command_line_args [OF names sizes rate, where host = host and port = port and rest = rest]
  have "memcpy (replicate 1000 0) 0 (host @ 0 # rest) 1000 = Inl (Fault OutOfBounds)"
    using host by (simp add: memcpy_def)
  then show ?thesis unfolding args by simp
qed

theorem short_memory_faults_witness:
  "rcopy_checkArgs (command_line [102] [103] 4 2 [48] [104] 80 (replicate 500 0)) zero_parameters = Inl (Fault OutOfBounds)"
  by (rule short_memory_faults) (simp_all add: sample_rate)

end
