(* ===== verification/Unchecked.thy ===== *)
theory Unchecked
  imports Args
begin

text \<open>
  What the server does not check: it takes the size of the window and of the blocks from the
  request as they are, it takes every acknowledgment for news, and it does not tell a child that
  has delivered from one that has given up.
\<close>

section \<open>A window of size zero\<close>

lemma processClient_serves:
  assumes s: "can_serve b n name F s" "n < 2 ^ 31" "length name \<le> 93" "0 \<notin> set name" "7 \<le> length junk"
    and net: "net_in s = Arrive a d # es" "dgram_ok d"
    and pdu: "drop 7 pdu = request b n name @ junk"
  shows "\<exists>t. processClient (Suc (Suc (Suc fuel))) pdu (int (16 + length name)) s = processClient_loop fuel pdu (int (16 + length name)) SEND_DATA t
    \<and> win t = fresh_window n \<and> srvBufferSize t = of_nat b \<and> fileLeft t = F \<and> proc_ok t \<and> quiet t
    \<and> \<not> atEOF t \<and> \<not> waitingForLastRR t \<and> net_in t = es"
proof -
  let ?s = "s\<lparr>dataFile := 0, srvBufferSize := 0, srvWindowSize := 0, serverSeqNum := START_SEQ_NUM\<rparr>"
  have "can_serve b n name F ?s" using s(1) by (simp add: can_serve_def quiet_def clean_def)
  from processFilename_serves [OF this s(2-5)] obtain t where
    t: "processFilename (request b n name @ junk) (int (16 + length name)) ?s = Ret WAIT_ON_FILENAME_OK_ACK t"
      "win t = fresh_window n" "srvBufferSize t = of_nat b" "fileLeft t = F" "proc_ok t" "quiet t"
      "\<not> atEOF t" "\<not> waitingForLastRR t" "net_in t = net_in ?s" by blast
  let ?t = "t\<lparr>net_in := es, clientConn := (clientConn t)\<lparr>info := a\<rparr>\<rparr>"
  have "server_filenameOk t = Ret SEND_DATA ?t"
    using server_filenameOk_arrives [OF t(5) _ net(2)] t(9) net(1) by simp
  then have "processClient (Suc (Suc (Suc fuel))) pdu (int (16 + length name)) s
      = processClient_loop fuel pdu (int (16 + length name)) SEND_DATA ?t"
    using t(1) by (simp add: processClient_def pdu)
  moreover have "proc_ok ?t" "quiet ?t" using t(5,6) by (simp_all add: proc_ok_def quiet_def clean_def)
  ultimately show ?thesis using t by (intro exI [of _ ?t]) simp
qed

lemma sendData_zero_window:
  assumes "win s = fresh_window 0" "net_in s = Timeout # es" "\<not> atEOF s"
  shows "sendData s = Stop (Fault DivByZero) (s\<lparr>net_in := es\<rparr>)"
proof -
  have w: "\<not> isWindowOpen (win s)" "isWindowClosed (win s)"
    using assms(1) by (simp_all add: isWindowOpen_def isWindowClosed_def fresh_window_def)
  have "wait_body 0 s = Stop (Fault DivByZero) (s\<lparr>net_in := es\<rparr>)"
    using processPoll_timeout [OF assms(2), of 0 SHORT_TIME 10 RESEND_LOWEST RESPONSE_RECV QUIT] assms(1)
    by (simp add: wait_body_def getLowestSeqNumData_def getIndex_def fresh_window_def)
  then have "wait_loop 0 s = Stop (Fault DivByZero) (s\<lparr>net_in := es\<rparr>)"
    using w by (simp add: wait_loop.simps [of 0 s])
  with w assms(3) show ?thesis by (simp add: sendData_def fill_loop.simps [of s] eof_check_def)
qed

text \<open>
  C22. A window of size zero, which both programs accept, makes the child divide by zero at its
  first timeout.
\<close>

theorem zero_window_divides_by_zero:
  assumes "can_serve b 0 name F s" "length name \<le> 93" "0 \<notin> set name" "7 \<le> length junk"
    and "net_in s = Arrive a d # Timeout # es" "dgram_ok d" "drop 7 pdu = request b 0 name @ junk"
  shows "\<exists>s'. processClient 4 pdu (int (16 + length name)) s = Some (Stop (Fault DivByZero) s')"
proof -
  obtain t where t: "processClient (Suc (Suc (Suc 1))) pdu (int (16 + length name)) s =
      processClient_loop 1 pdu (int (16 + length name)) SEND_DATA t"
    "win t = fresh_window 0" "\<not> atEOF t" "net_in t = Timeout # es"
    using processClient_serves [OF assms(1) _ assms(2-7), of 1] by auto
  have four: "(4::nat) = Suc (Suc (Suc 1))" by simp
  show ?thesis unfolding four t(1) using sendData_zero_window [OF t(2,4,3)] by simp
qed

text \<open>A child for a file of the name \<open>f\<close>, and a request for it; any datagram acknowledges the answer.\<close>

definition sample_child :: "byte list \<Rightarrow> event list \<Rightarrow> server" where
  "sample_child F es = state_of (setupPollSet (server_boot zero_sockaddr_in6 es [] (g_PktMgr 0) 5752 [5] [] 0
     (\<lambda>name. if name = [102] then (6, F) else (- 1, []))))"

lemma sample_child_eq:
  "sample_child F es = (server_boot zero_sockaddr_in6 es [] (g_PktMgr 0) 5672 [5] [] 0
     (\<lambda>name. if name = [102] then (6, F) else (- 1, [])))\<lparr>polled := fresh_pollset\<rparr>"
  unfolding sample_child_def by (subst setupPollSet_eq) (simp_all add: server_boot_def)

lemma sample_child_serves: "n \<le> 4 \<Longrightarrow> can_serve b n [102] F (sample_child F es)"
  unfolding sample_child_eq using fresh_pollset_ok
  by (simp add: can_serve_def server_boot_def quiet_def clean_def pm_clean_def g_PktMgr_def)
    (simp add: fresh_pollset_def poll_memory_def)

lemma sample_child_net: "net_in (sample_child F es) = es"
  by (simp add: sample_child_eq server_boot_def)

theorem zero_window_divides_by_zero_witness:
  "\<exists>s'. processClient 4 (replicate 7 0 @ request 2 0 [102] @ replicate 7 0) (int (16 + length [102 :: byte]))
     (sample_child [1, 2, 3] [Arrive zero_sockaddr_in6 (replicate 7 0), Timeout]) = Some (Stop (Fault DivByZero) s')"
  by (rule zero_window_divides_by_zero [OF sample_child_serves, where junk = "replicate 7 0" and d = "replicate 7 0"])
    (simp_all add: sample_child_net dgram_ok_def)

section \<open>A block that is too large\<close>

text \<open>
  C21. The server takes the block size from the request unchecked: with more than 1400 bytes and a
  file that is long enough, the first read overflows the payload array of the child.
\<close>

theorem large_block_overflows:
  assumes "can_serve b n name F s" "0 < n" "n < 2 ^ 31" "length name \<le> 93" "0 \<notin> set name" "7 \<le> length junk"
    and "net_in s = Arrive a d # es" "dgram_ok d" "drop 7 pdu = request b n name @ junk"
    and "MAX_PAYLOAD_SIZE < b" "b < 2 ^ 31" "MAX_PAYLOAD_SIZE < length F"
  shows "\<exists>s'. processClient 4 pdu (int (16 + length name)) s = Some (Stop (Fault OutOfBounds) s')"
proof -
  obtain t where t: "processClient (Suc (Suc (Suc 1))) pdu (int (16 + length name)) s =
      processClient_loop 1 pdu (int (16 + length name)) SEND_DATA t"
    "win t = fresh_window n" "\<not> atEOF t" "srvBufferSize t = of_nat b" "fileLeft t = F" "quiet t"
    using processClient_serves [OF assms(1,3-9), of 1] by auto
  have open_win: "isWindowOpen (win t)" using t(2) assms(2) by (simp add: isWindowOpen_def fresh_window_def)
  have "read_errs t = []" using t(6) by (simp add: quiet_def)
  then obtain t' where "read_file t = Stop (Fault OutOfBounds) t'"
    using t(4,5) assms(10-12) by (simp add: read_file_def s32_seq [OF assms(11)] Let_def)
  then have "fill_loop t = Stop (Fault OutOfBounds) t'"
    using open_win t(3) by (simp add: fill_loop.simps [of t] fill_send_def)
  then have fault: "sendData t = Stop (Fault OutOfBounds) t'" by (simp add: sendData_def)
  have four: "(4::nat) = Suc (Suc (Suc 1))" by simp
  show ?thesis unfolding four t(1) using fault by simp
qed

theorem large_block_overflows_witness:
  "\<exists>s'. processClient 4 (replicate 7 0 @ request 1401 4 [102] @ replicate 7 0) (int (16 + length [102 :: byte]))
     (sample_child (replicate 2000 1) [Arrive zero_sockaddr_in6 (replicate 7 0)]) = Some (Stop (Fault OutOfBounds) s')"
  by (rule large_block_overflows [OF sample_child_serves, where junk = "replicate 7 0" and d = "replicate 7 0"
        and b = 1401 and n = 4])
    (simp_all add: sample_child_net dgram_ok_def)

section \<open>Giving up\<close>

text \<open>
  C23. A child that has given up exits with the status of success: when nothing comes after its
  answer to the file name, it exits with 0 without having read a byte of the file.
\<close>

theorem given_up_child_exits_0:
  assumes "setupPollSet s = Ret () s1" "can_serve b n name F s1" "n < 2 ^ 31" "length name \<le> 93" "0 \<notin> set name"
    and "7 \<le> length junk" "net_in s1 = Timeout # es" "drop 7 pdu = request b n name @ junk"
  shows "\<exists>t. child_main 3 pdu (int (16 + length name)) s = Some (Stop (Exit 0) t) \<and> fileLeft t = F \<and> net_in t = es"
proof -
  let ?s = "s1\<lparr>dataFile := 0, srvBufferSize := 0, srvWindowSize := 0, serverSeqNum := START_SEQ_NUM\<rparr>"
  have "can_serve b n name F ?s" using assms(2) by (simp add: can_serve_def quiet_def clean_def)
  from processFilename_serves [OF this assms(3-6)] obtain t where
    t: "processFilename (request b n name @ junk) (int (16 + length name)) ?s = Ret WAIT_ON_FILENAME_OK_ACK t"
      "fileLeft t = F" "net_in t = net_in ?s" by blast
  have "net_in t = Timeout # es" using t(3) assms(7) by simp
  then have "server_filenameOk t = Ret DONE_SERVER (t\<lparr>net_in := es\<rparr>)"
    by (simp add: server_filenameOk_def pollCall_timeout)
  then have "processClient 3 pdu (int (16 + length name)) s1 = Some (Ret () (t\<lparr>net_in := es\<rparr>))"
    using t(1) by (simp add: processClient_def assms(8) numeral_3_eq_3)
  with assms(1) t(2) show ?thesis by (simp add: child_main_def)
qed

theorem given_up_child_exits_0_witness:
  "\<exists>t. child_main 3 (replicate 7 0 @ request 2 4 [102] @ replicate 7 0) (int (16 + length [102 :: byte]))
     (server_boot zero_sockaddr_in6 [Timeout] [] (g_PktMgr 0) 5752 [5] [] 0
        (\<lambda>name. if name = [102] then (6, [1, 2, 3]) else (- 1, []))) = Some (Stop (Exit 0) t)
   \<and> fileLeft t = [1, 2, 3] \<and> net_in t = []"
proof (rule given_up_child_exits_0)
  show "setupPollSet (server_boot zero_sockaddr_in6 [Timeout] [] (g_PktMgr 0) 5752 [5] [] 0
      (\<lambda>name. if name = [102] then (6, [1, 2, 3]) else (- 1, []))) = Ret () (sample_child [1, 2, 3] [Timeout])"
    unfolding sample_child_eq by (subst setupPollSet_eq) (simp_all add: server_boot_def)
  show "can_serve 2 4 [102] [1, 2, 3] (sample_child [1, 2, 3] [Timeout])" by (rule sample_child_serves) simp
qed (simp_all add: sample_child_net)

section \<open>An acknowledgment that is older than the window\<close>

text \<open>
  \<open>updateLower\<close> takes any number, and \<open>isWindowOpen\<close> compares for equality: once the upper edge
  lies below the next number, the window stays open to the end of the file.
\<close>

lemma fill_loop_floods:
  assumes "at_block n b F C s" "sizes_ok n b F" "quiet s" "\<not> atEOF s" "upper (win s) < int C"
    and "C + m = nchunks b F" "net_in s = replicate (Suc m) Timeout"
  shows "\<exists>s'. fill_loop s = Ret False s' \<and> at_block n b F (nchunks b F) s' \<and> quiet s' \<and> atEOF s'
    \<and> net_out s' = net_out s @ map (\<lambda>k. (info (clientConn s), enc (flag_code DATA, of_nat k, chunk b F k))) [C..<nchunks b F]"
  using assms
proof (induction m arbitrary: C s)
  case 0
  let ?s = "s\<lparr>read_errs := [], fileLeft := drop (Suc C * b) F, atEOF := True, lastDataSeqNum := serverSeqNum s - 1, net_in := []\<rparr>"
  have b: "0 < b" "C = nchunks b F" using 0 by (simp_all add: sizes_ok_def)
  then have end_reached: "chunk b F C = []" "drop (Suc C * b) F = drop (C * b) F"
    using chunk_empty_iff [of b F C] nchunks_le_iff [of b F C] by auto
  have open_win: "isWindowOpen (win s)" using 0(1,5) by (simp add: isWindowOpen_def at_block_def)
  have "read_file s = Ret (0, []) (s\<lparr>read_errs := [], fileLeft := drop (Suc C * b) F\<rparr>)"
    using read_at_block [OF 0(1,2)] 0(3) end_reached(1) by (simp add: quiet_def)
  then have "fill_loop s = Ret False ?s"
    using open_win 0(4,7) by (simp add: fill_loop.simps fill_send_def fill_poll_def pollCall_timeout)
  moreover have "at_block n b F (nchunks b F) ?s" using 0(1) b(2) end_reached(2) by (simp add: at_block_def)
  ultimately show ?case using 0(3) b(2) by (intro exI [of _ ?s]) (simp add: quiet_def clean_def)
next
  case (Suc m)
  have open_win: "isWindowOpen (win s)" using Suc.prems(1,5) by (simp add: isWindowOpen_def at_block_def)
  have lt: "C < nchunks b F" using Suc.prems(6) by simp
  from fill_send_quiet [OF Suc.prems(1,2) open_win lt Suc.prems(3)] obtain t where
    t: "fill_send s = Ret False t" "at_block n b F (Suc C) t" "quiet t" "upper (win t) = upper (win s)"
      "clientConn t = clientConn s" "atEOF t = atEOF s" "net_in t = net_in s"
      "net_out t = net_out s @ [(info (clientConn s), enc (flag_code DATA, of_nat C, chunk b F C))]" by blast
  let ?t = "t\<lparr>net_in := replicate (Suc m) Timeout\<rparr>"
  have "fill_poll t = Ret () ?t" using t(7) Suc.prems(7) by (simp add: fill_poll_def pollCall_timeout)
  then have loop: "fill_loop s = fill_loop ?t"
    using open_win Suc.prems(4) t(1) by (simp add: fill_loop.simps [of s])
  have "\<exists>s'. fill_loop ?t = Ret False s' \<and> at_block n b F (nchunks b F) s' \<and> quiet s' \<and> atEOF s'
    \<and> net_out s' = net_out ?t @ map (\<lambda>k. (info (clientConn ?t), enc (flag_code DATA, of_nat k, chunk b F k)))
        [Suc C..<nchunks b F]"
  proof (rule Suc.IH)
    show "at_block n b F (Suc C) ?t" using t(2) by (simp add: at_block_def)
    show "quiet ?t" using t(3) by (simp add: quiet_def clean_def)
  qed (use Suc.prems t in simp_all)
  then show ?case unfolding loop using t(5,8) lt by (simp add: upt_conv_Cons del: enc.simps)
qed

text \<open>A block whose slot has been given to a later one is answered with the later one.\<close>

lemma overwritten_block:
  assumes core: "at_block n b F C s" and N: "sizes_ok n b F" and C: "C \<le> nchunks b F" and q: "quiet s"
    and k: "k + n < C"
  shows "\<exists>k' s'. k < k' \<and> k' < C \<and> k' mod n = k mod n
    \<and> respond (s\<lparr>net_in := [Arrive a (enc (ack SREJ r k))]\<rparr>) = Ret () s'
    \<and> net_out s' = net_out s @ [(a, enc (flag_code RESENT_DATA_SREJ, of_nat k, chunk b F k'))]"
proof -
  have n: "0 < n" "b \<le> MAX_PAYLOAD_SIZE" "k < 2 ^ 31" using N C k by (auto simp: sizes_ok_def)
  define k' where "k' = k + n * ((C - 1 - k) div n)"
  have le: "n * ((C - 1 - k) div n) \<le> C - 1 - k" "C - 1 - k < n * ((C - 1 - k) div n) + n"
    using mult_div_mod_eq [of n "C - 1 - k"] mod_less_divisor [OF n(1), of "C - 1 - k"] by linarith+
  have k': "k < k'" "k' < C" "C \<le> k' + n" using le k unfolding k'_def by linarith+
  have same_slot: "k' mod n = k mod n" by (simp add: k'_def)
  have w: "win_ok (win s)" "win_cap (win s) = n" using core by (simp_all add: at_block_def)
  have "win_look k (win s) = win_look k' (win s)" using same_slot w(2) by (simp add: win_look_def)
  also have "\<dots> = Some (of_nat k', chunk b F k')" using core k' by (simp add: at_block_def win_holds_def)
  finally have look: "win_look k (win s) = Some (of_nat k', chunk b F k')" .
  let ?d = "enc (ack SREJ r k)" and ?blk = "chunk b F k'"
  let ?data = "?blk @ drop (length ?blk) (replicate MAX_PAYLOAD_SIZE 0)"
  have get: "getDataFromWindow (of_nat k) (replicate MAX_PAYLOAD_SIZE 0) (win s) = Inr (?data, int (length ?blk))"
    and len: "length ?blk \<le> MAX_PAYLOAD_SIZE"
    using getDataFromWindow_ok [OF w(1) n(3) length_replicate look] by simp_all
  have d: "dgram_ok ?d" "in_cksum ?d = 0" "dec ?d = Some (ack SREJ r k)"
    using dgram_enc [of "bytes32 (htonl (of_nat k))" "flag_code SREJ" r] by (simp_all add: ack_def)
  then have h: "?d ! 6 = flag_code SREJ" "drop 7 ?d = bytes32 (htonl (of_nat k))"
    by (auto simp: dec_def ack_def split: if_splits)
  let ?s = "s\<lparr>net_in := [], clientConn := (clientConn s)\<lparr>info := a\<rparr>\<rparr>"
  have "quiet ?s" using q by (simp add: quiet_def clean_def)
  from quiet_sendPDU [OF this len, of ?data "clientConn ?s" "flag_code RESENT_DATA_SREJ" "of_nat k"]
  obtain m' where m': "sendPDU (clientConn ?s) ?data (int (length ?blk)) (flag_code RESENT_DATA_SREJ) (of_nat k) ?s
    = Ret () (?s\<lparr>pm := m', net_out := net_out ?s @ [(info (clientConn ?s),
        enc (flag_code RESENT_DATA_SREJ, of_nat k, ?blk))], send_errs := []\<rparr>)" by auto
  have net: "net_in (s\<lparr>net_in := [Arrive a ?d]\<rparr>) = [] @ Arrive a ?d # []" "set [] \<subseteq> {Timeout, Hangup}"
    by simp_all
  show ?thesis
  proof (intro exI conjI)
    show "respond (s\<lparr>net_in := [Arrive a ?d]\<rparr>) = Ret () (?s\<lparr>pm := m', net_out := net_out ?s @ [(info (clientConn ?s),
        enc (flag_code RESENT_DATA_SREJ, of_nat k, ?blk))], send_errs := [], waitingForLastRR := waitingForLastRR s\<rparr>)"
      using d h get m' unfolding respond_def processResponse_eq [OF net d(1)] response_act_def
      by (simp add: Let_def crc_of_def word32_bytes32 ntohl_htonl del: enc.simps)
  qed (use k' same_slot in simp_all)
qed

text \<open>The answer to it: the child goes back to reading.\<close>

lemma stale_RR_heard:
  assumes core: "srv_core n b F lo (lo + n) s" and N: "sizes_ok n b F" and fl: "\<not> atEOF s" and v: "v < lo"
    and net: "net_in s = Arrive a (enc (ack RR q v)) # es" and qs: "quiet s"
  shows "\<exists>s'. sendData s = Ret SEND_DATA s' \<and> at_block n b F (lo + n) s' \<and> quiet s' \<and> \<not> atEOF s'
    \<and> upper (win s') = int (v + n) \<and> net_in s' = es \<and> net_out s' = net_out s \<and> info (clientConn s') = a"
proof -
  let ?d = "enc (ack RR q v)"
  have d: "dgram_ok ?d" "in_cksum ?d = 0" "dec ?d = Some (ack RR q v)"
    using dgram_enc [of "bytes32 (htonl (of_nat v))" "flag_code RR" q] by (simp_all add: ack_def)
  then have h: "?d ! 6 = flag_code RR" "drop 7 ?d = bytes32 (htonl (of_nat v))"
    by (auto simp: dec_def ack_def split: if_splits)
  have net': "net_in s = [] @ Arrive a ?d # es" "set [] \<subseteq> {Timeout, Hangup}" using net by simp_all
  let ?s' = "s\<lparr>net_in := es, clientConn := (clientConn s)\<lparr>info := a\<rparr>, win := updateLower (of_nat v) (win s),
    waitingForLastRR := False\<rparr>"
  have facts: "proc_ok s" "win_ok (win s)" "win_cap (win s) = n" "v + win_cap (win s) < 2 ^ 31" "\<not> waitingForLastRR s"
    using core N v fl by (auto simp: srv_core_def sizes_ok_def)
  note u = updateLower_ok [OF facts(2,4)]
  have "respond s = Ret () ?s'"
    using d h facts(5) unfolding respond_def processResponse_eq [OF net' d(1)] response_act_def
    by (simp add: Let_def crc_of_def word32_bytes32 ntohl_htonl del: enc.simps)
  then have "wait_body 0 s = Ret (Some 0) ?s'"
    using processPoll_ready [OF facts(1) net, of 0 SHORT_TIME 10 RESEND_LOWEST RESPONSE_RECV QUIT]
    by (simp add: wait_body_def)
  moreover have win: "isWindowClosed (win s)" "\<not> isWindowOpen (win s)"
    using win_closed_iff [OF core] by simp_all
  moreover have at: "at_block n b F (lo + n) ?s'"
    using srv_core_at_block [OF core] u facts(3) by (simp add: at_block_def win_holds_def)
  moreover have "\<not> isWindowClosed (win ?s')" using u at v facts(3) by (simp add: isWindowClosed_def at_block_def)
  ultimately have "sendData s = Ret SEND_DATA ?s'"
    using fl facts(5) by (simp add: sendData_def fill_loop.simps [of s] eof_check_def wait_loop.simps)
  with at u facts(3) qs fl show ?thesis by (intro exI [of _ ?s']) (simp add: quiet_def clean_def)
qed

text \<open>
  C31. One acknowledgment that is older than the window defeats the flow control: a child whose
  window is full takes it, finds the window open from then on, because the test compares the next
  number with the upper edge for equality, and sends the rest of the file without a further
  acknowledgment. The blocks that were not yet acknowledged are overwritten in the window, and a
  client that asks for one of them again is sent another block under its number.
\<close>

theorem stale_RR_loses_blocks:
  assumes "srv_core n b F lo (lo + n) s" "sizes_ok n b F" "\<not> atEOF s" "quiet s" "v < lo"
    and "net_in s = Arrive a (enc (ack RR q v)) # replicate (Suc (nchunks b F - (lo + n))) Timeout"
  shows "\<exists>s1 s2. sendData s = Ret SEND_DATA s1 \<and> fill_loop s1 = Ret False s2 \<and> atEOF s2
    \<and> net_out s2 = net_out s @ map (\<lambda>k. (a, enc (flag_code DATA, of_nat k, chunk b F k))) [lo + n..<nchunks b F]
    \<and> (\<forall>k. lo \<le> k \<and> k + n < nchunks b F \<longrightarrow>
        (\<exists>k' s3. k < k' \<and> k' < nchunks b F \<and> k' mod n = k mod n
          \<and> respond (s2\<lparr>net_in := [Arrive a (enc (ack SREJ r k))]\<rparr>) = Ret () s3
          \<and> net_out s3 = net_out s2 @ [(a, enc (flag_code RESENT_DATA_SREJ, of_nat k, chunk b F k'))]))"
proof -
  from stale_RR_heard [OF assms(1-3,5,6,4)] obtain s1 where
    s1: "sendData s = Ret SEND_DATA s1" "at_block n b F (lo + n) s1" "quiet s1" "\<not> atEOF s1"
      "upper (win s1) = int (v + n)" "net_in s1 = replicate (Suc (nchunks b F - (lo + n))) Timeout"
      "net_out s1 = net_out s" "info (clientConn s1) = a" by blast
  have "lo + n + (nchunks b F - (lo + n)) = nchunks b F" using assms(1) by (simp add: srv_core_def)
  moreover have "upper (win s1) < int (lo + n)" using s1(5) assms(5) by simp
  ultimately obtain s2 where
    s2: "fill_loop s1 = Ret False s2" "at_block n b F (nchunks b F) s2" "quiet s2" "atEOF s2"
      "net_out s2 = net_out s1 @ map (\<lambda>k. (info (clientConn s1), enc (flag_code DATA, of_nat k, chunk b F k)))
        [lo + n..<nchunks b F]"
    using fill_loop_floods [OF s1(2) assms(2) s1(3,4) _ _ s1(6)] by blast
  have lost: "\<exists>k' s3. k < k' \<and> k' < nchunks b F \<and> k' mod n = k mod n
      \<and> respond (s2\<lparr>net_in := [Arrive a (enc (ack SREJ r k))]\<rparr>) = Ret () s3
      \<and> net_out s3 = net_out s2 @ [(a, enc (flag_code RESENT_DATA_SREJ, of_nat k, chunk b F k'))]"
    if "k + n < nchunks b F" for k
    using overwritten_block [OF s2(2) assms(2) le_refl s2(3) that, of a r] by blast
  have out: "net_out s2 = net_out s @ map (\<lambda>k. (a, enc (flag_code DATA, of_nat k, chunk b F k))) [lo + n..<nchunks b F]"
    using s2(5) s1(7,8) by (simp del: enc.simps)
  show ?thesis
    by (rule exI [of _ s1], rule exI [of _ s2]) (use s1(1) s2(1,4) out lost in blast)
qed

text \<open>Blocks of one byte and a window of one: block 1 is waiting for its acknowledgment.\<close>

definition sample_full :: server where
  "sample_full = (sample_server 1 [4, 5, 6])
     \<lparr>net_in := [Arrive zero_sockaddr_in6 (enc (ack RR 0 0)), Timeout, Timeout],
      win := \<lparr>window = [\<lparr>w_seqNum = 1, w_data = 5 # replicate 1399 0, w_dataLen = 1\<rparr>], myWindowSize = 1,
        upper = 2, lower = 1, current = 2\<rparr>,
      serverSeqNum := 2, fileLeft := [6]\<rparr>"

lemma sample_full_core: "srv_core 1 1 [4, 5, 6] 1 (1 + 1) sample_full"
proof -
  have w: "win sample_full = \<lparr>window = [\<lparr>w_seqNum = 1, w_data = 5 # replicate 1399 0, w_dataLen = 1\<rparr>],
      myWindowSize = 1, upper = 2, lower = 1, current = 2\<rparr>" by (simp add: sample_full_def)
  have "proc_ok (sample_server 1 [4, 5, 6])"
    using sample_sys_init [of 1 "[4, 5, 6]"] by (simp add: sys_init_def sample_sys_def srv_core_def)
  then have "proc_ok sample_full" by (simp add: sample_full_def proc_ok_def)
  moreover have "win_holds 1 1 [4, 5, 6] (1 + 1) (win sample_full)"
    by (simp add: w win_holds_def win_look_def win_cap_def chunk_def less_Suc_eq numeral_2_eq_2)
  ultimately show ?thesis
    by (simp add: srv_core_def win_ok_def wslot_ok_def win_cap_def nchunks_def)
      (simp add: sample_full_def sample_server_def server_boot_def)
qed

theorem stale_RR_loses_blocks_witness:
  "\<exists>s1 s2 s3. sendData sample_full = Ret SEND_DATA s1 \<and> fill_loop s1 = Ret False s2
    \<and> respond (s2\<lparr>net_in := [Arrive zero_sockaddr_in6 (enc (ack SREJ 0 1))]\<rparr>) = Ret () s3
    \<and> net_out s3 = [(zero_sockaddr_in6, enc (flag_code DATA, 2, [6])),
        (zero_sockaddr_in6, enc (flag_code RESENT_DATA_SREJ, 1, [6]))]"
proof -
  have sz: "sizes_ok 1 1 [4, 5, 6]" by (simp add: sizes_ok_def nchunks_def)
  have s: "\<not> atEOF sample_full" "quiet sample_full" "(0::nat) < 1" "net_out sample_full = []"
    "nchunks 1 [4, 5, 6] = 3" "net_in sample_full = Arrive zero_sockaddr_in6 (enc (ack RR 0 0))
      # replicate (Suc (nchunks 1 [4, 5, 6] - (1 + 1))) Timeout"
    by (simp_all add: nchunks_def sample_full_def sample_server_def server_boot_def quiet_def clean_def
        pm_clean_def g_PktMgr_def numeral_2_eq_2 del: enc.simps)
  let ?answers = "\<lambda>s2 k k' s3. respond (s2\<lparr>net_in := [Arrive zero_sockaddr_in6 (enc (ack SREJ 0 k))]\<rparr>) = Ret () s3
    \<and> net_out s3 = net_out s2 @ [(zero_sockaddr_in6, enc (flag_code RESENT_DATA_SREJ, of_nat k, chunk 1 [4, 5, 6] k'))]"
  from stale_RR_loses_blocks [OF sample_full_core sz s(1-3,6), of 0] obtain s1 s2 where
    s2: "sendData sample_full = Ret SEND_DATA s1" "fill_loop s1 = Ret False s2"
      "net_out s2 = net_out sample_full @
        map (\<lambda>k. (zero_sockaddr_in6, enc (flag_code DATA, of_nat k, chunk 1 [4, 5, 6] k))) [1 + 1..<nchunks 1 [4, 5, 6]]"
      and lost: "\<forall>k. 1 \<le> k \<and> k + 1 < nchunks 1 [4, 5, 6] \<longrightarrow> (\<exists>k' s3. k < k' \<and> k' < nchunks 1 [4, 5, 6] \<and> k' mod 1 = k mod 1
        \<and> ?answers s2 k k' s3)"
    by blast
  have "1 + 1 < nchunks 1 [4, 5, 6 :: byte]" unfolding s(5) by simp
  with lost obtain k' s3 where s3: "1 < k'" "k' < 3"
    "respond (s2\<lparr>net_in := [Arrive zero_sockaddr_in6 (enc (ack SREJ 0 1))]\<rparr>) = Ret () s3"
    "net_out s3 = net_out s2 @ [(zero_sockaddr_in6, enc (flag_code RESENT_DATA_SREJ, of_nat 1, chunk 1 [4, 5, 6] k'))]"
    unfolding s(5) by blast
  have "k' = 2" "[1 + 1..<3] = [2::nat]" using s3(1,2) by (simp_all add: upt_rec)
  then have "net_out s3 = [(zero_sockaddr_in6, enc (flag_code DATA, 2, [6])),
      (zero_sockaddr_in6, enc (flag_code RESENT_DATA_SREJ, 1, [6]))]"
    using s3(4) s2(3) unfolding s(4,5) by (simp add: chunk_def del: enc.simps)
  with s2(1,2) s3(3) show ?thesis by blast
qed

end
