(* ===== verification/Parent.thy ===== *)
theory Parent
  imports Args
begin

text \<open>
  The parent of the server against a reference definition: it serves exactly the datagrams with
  a good checksum, each by a child of its own, in the order they come.
\<close>

section \<open>The requests that are served\<close>

text \<open>The reference: no buffer, no processes, only the datagrams.\<close>

fun good_requests :: "event list \<Rightarrow> (sockaddr_in6 \<times> byte list) list" where
  "good_requests [] = []"
| "good_requests (Arrive a d # es) =
     (let d = take MAX_PDU_SIZE d in if in_cksum d = 0 then (a, d) # good_requests es else good_requests es)"
| "good_requests (e # es) = good_requests es"

text \<open>What a child sees of its request, and the number its library will seed a child of its own with.\<close>

fun child_request :: "sockaddr_in6 \<times> byte list \<times> int \<times> library \<Rightarrow> sockaddr_in6 \<times> byte list" where
  "child_request (a, pdu, n, l) = (a, take (nat n) pdu)"

fun child_seed :: "sockaddr_in6 \<times> byte list \<times> int \<times> library \<Rightarrow> int" where
  "child_seed (a, pdu, n, l) = nextSeed l"

lemma forkMod_nextSeed: "nextSeed (snd (forkMod pid l)) = nextSeed l + 1"
  by (simp add: forkMod_def setUserMode_SeedRand_def Let_def)

lemma crc_received: "checkChecksum (d @ junk) (int (length d)) = CRC_ERROR \<longleftrightarrow> in_cksum d \<noteq> 0"
  by (simp add: checkChecksum_def)

lemma child_request_received: "child_request (a, d @ junk, int (length d), l) = (a, d)"
  by simp

lemma processServer_serves:
  assumes "length pdu = MAX_PDU_SIZE" "SysErr \<notin> set es" "\<forall>p \<in> set pids. 0 < p"
    and "length (good_requests es) \<le> length pids"
  shows "\<exists>children. processServer pdu l pids es = (children, Waiting)
    \<and> map child_request children = good_requests es
    \<and> map child_seed children = map (\<lambda>k. nextSeed l + 1 + int k) [0..<length children]"
  using assms
proof (induction es arbitrary: pdu l pids)
  case (Cons e es)
  show ?case
  proof (cases e)
    case (Arrive a d)
    let ?d = "take MAX_PDU_SIZE d"
    let ?pdu = "?d @ drop (length ?d) pdu"
    have len: "length ?pdu = MAX_PDU_SIZE" using Cons.prems(1) by simp
    have crc: "checkChecksum ?pdu (int (length ?d)) = CRC_ERROR \<longleftrightarrow> in_cksum ?d \<noteq> 0"
      by (rule crc_received)
    show ?thesis
    proof (cases "in_cksum ?d = 0")
      case False
      then have "processServer pdu l pids (e # es) = processServer ?pdu l pids es"
        using crc by (simp add: Arrive Let_def)
      moreover have "good_requests (e # es) = good_requests es" using False by (simp add: Arrive Let_def)
      ultimately show ?thesis using Cons.IH [OF len, of pids l] Cons.prems by simp
    next
      case True
      then have good: "good_requests (e # es) = (a, ?d) # good_requests es" by (simp add: Arrive Let_def)
      with Cons.prems(4) obtain pid rest where pids: "pids = pid # rest" by (cases pids) auto
      from Cons.prems(3) pids have pid: "0 < pid" by simp
      let ?l = "snd (forkMod pid l)"
      obtain children where ch: "processServer ?pdu ?l rest es = (children, Waiting)"
        "map child_request children = good_requests es"
        "map child_seed children = map (\<lambda>k. nextSeed ?l + 1 + int k) [0..<length children]"
        using Cons.IH [OF len, of rest ?l] Cons.prems good pids by auto
      let ?child = "(a, ?pdu, int (length ?d), snd (forkMod 0 l))"
      have "processServer pdu l pids (e # es) = (?child # children, Waiting)"
        using crc True pid ch(1) by (simp add: Arrive pids Let_def)
      moreover have "child_request ?child = (a, ?d)" by (rule child_request_received)
      moreover have "map child_seed (?child # children) = map (\<lambda>k. nextSeed l + 1 + int k) [0..<Suc (length children)]"
        using ch(3) by (simp only: map_upt_Suc list.map forkMod_nextSeed) (simp add: forkMod_nextSeed add_ac)
      ultimately show ?thesis using ch(2) good by (intro exI [of _ "?child # children"]) simp
    qed
  qed (use Cons in auto)
qed simp

text \<open>
  C14. The parent of the server does what a loop without buffers and processes does: whatever
  arrives, it forks one child for every datagram with a good checksum and none for any other, in
  the order of arrival; every child finds the bytes of its request at the start of its buffer, and
  the library numbers the children consecutively.
\<close>

theorem parent_serves_good_datagrams:
  assumes "length pdu = MAX_PDU_SIZE" "SysErr \<notin> set es" "\<forall>p \<in> set pids. 0 < p"
    and "length (good_requests es) \<le> length pids"
  shows "\<exists>children. processServer pdu l pids es = (children, Waiting)
    \<and> map child_request children = good_requests es
    \<and> map child_seed children = map (\<lambda>k. nextSeed l + 1 + int k) [0..<length children]"
  by (rule processServer_serves [OF assms])

text \<open>A damaged datagram, a timeout and a packet that is its own checksum.\<close>

definition sample_events :: "event list" where
  "sample_events = [Arrive zero_sockaddr_in6 [1], Timeout, Arrive zero_sockaddr_in6 [255, 255]]"

lemma sample_good: "good_requests sample_events = [(zero_sockaddr_in6, [255, 255])]"
proof -
  have "in_cksum [255, 255] = 0" "in_cksum [1] \<noteq> 0" by code_simp+
  then show ?thesis by (simp add: sample_events_def)
qed

theorem parent_serves_good_datagrams_witness:
  "\<exists>children. processServer (replicate 1407 0) (library_boot (\<lambda>_. None) 0 3) [7] sample_events = (children, Waiting)
    \<and> map child_request children = good_requests sample_events
    \<and> map child_seed children = map (\<lambda>k. nextSeed (library_boot (\<lambda>_. None) 0 3) + 1 + int k) [0..<length children]"
  by (rule parent_serves_good_datagrams) (simp_all add: sample_good, simp add: sample_events_def)

section \<open>The draws of the children\<close>

text \<open>
  The number that \<open>forkMod\<close> gives a child makes no difference: two children in a
  row that call \<open>sendErr_init\<close> in the same second draw the same random numbers,
  unless the environment sets the seed.
\<close>

theorem children_share_draws:
  assumes "started getenv l" "env_seed getenv = None"
  shows "rand (pktMgr (server_child rate now now' (snd (forkMod 0 l))))
    = rand (pktMgr (server_child rate now now' (snd (forkMod 0 (snd (forkMod pid l))))))"
  using server_child_rand [OF started_fork [OF assms(1)] assms(2)]
    server_child_rand [OF started_fork [OF started_fork [OF assms(1)]] assms(2)] by simp

theorem children_share_draws_witness:
  "rand (pktMgr (server_child (Num 0) 9 9 (snd (forkMod 0 (library_boot (\<lambda>_. None) 0 3)))))
    = rand (pktMgr (server_child (Num 0) 9 9 (snd (forkMod 0 (snd (forkMod 7 (library_boot (\<lambda>_. None) 0 3)))))))"
  by (rule children_share_draws [OF started_boot]) (simp add: env_seed_def)

end
