(* ===== verification/DropList.thy ===== *)
theory DropList
  imports Hooks Completion
begin

text \<open>
  The list of packets to drop that \<open>CPE464_OVERRIDE_ERR_DROP\<close> can hold: what is written into
  the variable in decimal is what the programs drop.
\<close>

section \<open>The list in the environment\<close>

text \<open>The numbers in decimal, with commas between them.\<close>

fun commas :: "nat list \<Rightarrow> byte list" where
  "commas [] = []"
| "commas [n] = decimal n"
| "commas (n # m # ns) = decimal n @ 44 # commas (m # ns)"

lemma decimal_no_comma: "d \<in> set (decimal n) \<Longrightarrow> d \<noteq> 44"
  using decimal_digits(1) [of n] isdigit_plain by blast

lemma strtok_r_decimal:
  "strtok_r 44 (decimal n @ 44 # rest) = Some (decimal n, rest)"
  "strtok_r 44 (decimal n) = Some (decimal n, [])"
proof -
  obtain d ds where d: "decimal n = d # ds" using decimal_digits(2) [of n] by (cases "decimal n") auto
  have no: "\<forall>x \<in> set (decimal n). x \<noteq> 44" using decimal_no_comma by blast
  have "d \<noteq> 44" using no d by simp
  then have skip: "dropWhile (\<lambda>b. b = 44) (decimal n @ r) = decimal n @ r" for r by (simp add: d)
  have tw: "takeWhile (\<lambda>b. b \<noteq> 44) (decimal n @ r) = decimal n @ takeWhile (\<lambda>b. b \<noteq> 44) r"
    "dropWhile (\<lambda>b. b \<noteq> 44) (decimal n @ r) = dropWhile (\<lambda>b. b \<noteq> 44) r" for r
    using no by (simp_all add: takeWhile_append2 dropWhile_append2)
  show "strtok_r 44 (decimal n @ 44 # rest) = Some (decimal n, rest)"
    using decimal_digits(2) [of n] by (simp add: strtok_r_def skip tw)
  show "strtok_r 44 (decimal n) = Some (decimal n, [])"
    using decimal_digits(2) [of n] skip [of "[]"] tw(1) [of "[]"] no
    by (simp add: strtok_r_def Let_def dropWhile_eq_Nil_conv [THEN iffD2])
qed

lemma token_loop_commas:
  assumes "\<forall>n \<in> set ns. n < 2 ^ 32"
  shows "token_loop (commas ns) l count = (count + int (length ns), l @ map int ns)"
  using assms
proof (induction ns arbitrary: l count rule: commas.induct)
  case 1
  then show ?case by (simp add: token_loop.simps strtok_r_def)
next
  case (2 n)
  then have "strtol (decimal n) = Some (int n)" using strtol_decimal [of n "[]"] by simp
  moreover have "token_loop [] l' c = (c, l')" for l' c by (simp add: token_loop.simps strtok_r_def)
  ultimately show ?case by (simp add: token_loop.simps [of "decimal n"] strtok_r_decimal)
next
  case (3 n m ns)
  then have "strtol (decimal n) = Some (int n)" using strtol_decimal [of n "[]"] by simp
  with 3 show ?case by (simp add: token_loop.simps [of "decimal n @ 44 # commas (m # ns)"] strtok_r_decimal)
qed

lemma parserLong2Uint32_nat: "parserLong2Uint32 (map int ns) = map of_nat ns"
  by (induction ns) simp_all

lemma drop_list_read:
  assumes "getenv ''CPE464_OVERRIDE_ERR_DROP'' = Some (commas ns)" "\<forall>n \<in> set ns. n < 2 ^ 32"
  shows "env_drop getenv = Some (map of_nat ns)"
  using assms by (simp add: env_list_def parser2ListLong_def token_loop_commas parserLong2Uint32_nat)

section \<open>What is dropped\<close>

text \<open>A manager that drops from the list and otherwise keeps its journal, with its rate.\<close>

definition drops :: "u32 list \<Rightarrow> cfloat \<Rightarrow> PacketManager \<Rightarrow> bool" where
  "drops ns rate m \<longleftrightarrow> (\<exists>h c. m_ErrorCase_Constant m = [ErrorDrop False ns, InfoSeqNo h c]) \<and> m_ErrorRate m = rate"

lemma sendto_Err_drops:
  assumes "drops ns rate m" "no_errors rate" "buf \<noteq> []"
  shows "\<exists>m'. sendto_Err buf m = Inr (if m_MsgNo m + 1 \<in> set ns then None else Some buf, m')
    \<and> drops ns rate m' \<and> m_MsgNo m' = m_MsgNo m + 1"
proof -
  obtain h c where const: "m_ErrorCase_Constant m = [ErrorDrop False ns, InfoSeqNo h c]" and rate: "m_ErrorRate m = rate"
    using assms(1) by (auto simp: drops_def)
  let ?m = "m\<lparr>m_MsgNo := m_MsgNo m + 1\<rparr>"
  obtain x r where d: "drand48 (rand m) = (x, r)" by fastforce
  have no: "\<not> fle (to_float (of_nat x / 2 ^ 48)) rate" using no_errors_fle [OF assms(2)] by simp
  show ?thesis
  proof (cases "m_MsgNo m + 1 \<in> set ns")
    case True
    then have "processEvents buf (m_MsgNo ?m) ?m = (2, buf, ?m\<lparr>m_ErrorCase_Constant := [ErrorDrop False ns, InfoSeqNo h c], rand := r\<rparr>)"
      using const rate d no by (simp add: processEvents_def errorDrop_run_def Let_def)
    with True assms(3) rate show ?thesis by (simp add: sendto_Err_def drops_def)
  next
    case False
    obtain h' c' where "infoSeqNo_run h c buf = (0, InfoSeqNo h' c')" by (simp add: infoSeqNo_run_def Let_def)
    with False have "processEvents buf (m_MsgNo ?m) ?m = (0, buf, ?m\<lparr>m_ErrorCase_Constant := [ErrorDrop False ns, InfoSeqNo h' c'], rand := r\<rparr>)"
      using const rate d no by (simp add: processEvents_def errorDrop_run_def Let_def)
    with False assms(3) rate show ?thesis by (simp add: sendto_Err_def drops_def)
  qed
qed

lemma listed_iff:
  assumes "k < 2 ^ 32" "\<forall>n \<in> set ns. n < 2 ^ 32"
  shows "(of_nat k :: u32) \<in> set (map of_nat ns) \<longleftrightarrow> k \<in> set ns"
proof -
  have unat: "unat (of_nat n :: u32) = n" if "n < 2 ^ 32" for n
    using that by (simp add: unat_of_nat take_bit_nat_eq_self)
  show ?thesis using unat assms by (auto, metis)
qed

lemma send_all_drops:
  assumes "drops (map of_nat ns) rate m" "no_errors rate" "[] \<notin> set bufs" "m_MsgNo m = of_nat k"
    and "k + length bufs < 2 ^ 32" "\<forall>n \<in> set ns. n < 2 ^ 32"
  shows "\<exists>m'. send_all sendto_Err bufs m = Inr (map (\<lambda>(i, buf). if Suc i \<in> set ns then None else Some buf) (enumerate k bufs), m')"
  using assms
proof (induction bufs arbitrary: k m)
  case (Cons buf bufs)
  have ne: "buf \<noteq> []" using Cons.prems(3) by auto
  obtain m1 where m1: "sendto_Err buf m = Inr (if m_MsgNo m + 1 \<in> set (map of_nat ns) then None else Some buf, m1)"
    "drops (map of_nat ns) rate m1" "m_MsgNo m1 = m_MsgNo m + 1"
    using sendto_Err_drops [OF Cons.prems(1,2) ne] by blast
  have no: "m_MsgNo m + 1 = of_nat (Suc k)" using Cons.prems(4) by simp
  have "(of_nat (Suc k) :: u32) \<in> set (map of_nat ns) \<longleftrightarrow> Suc k \<in> set ns"
    using Cons.prems(5,6) by (intro listed_iff) simp_all
  then have first: "sendto_Err buf m = Inr (if Suc k \<in> set ns then None else Some buf, m1)"
    using m1(1) unfolding no by presburger
  have rest: "[] \<notin> set bufs" "Suc k + length bufs < 2 ^ 32" using Cons.prems(3,5) by simp_all
  obtain m2 where "send_all sendto_Err bufs m1 =
      Inr (map (\<lambda>(i, buf). if Suc i \<in> set ns then None else Some buf) (enumerate (Suc k) bufs), m2)"
    using Cons.IH [OF m1(2) Cons.prems(2) rest(1) _ rest(2) Cons.prems(6)] m1(3) no by auto
  with first show ?case by (intro exI [of _ m2]) simp
qed simp

text \<open>
  C39. A list of numbers written in decimal into \<open>CPE464_OVERRIDE_ERR_DROP\<close> is read
  back as it is: with a rate that makes no errors by chance, the programs drop exactly the packets
  with these numbers, counted from 1 over all their sends, and deliver all others unchanged.
\<close>

theorem listed_packets_are_dropped:
  assumes "getenv ''CPE464_OVERRIDE_ERR_DROP'' = Some (commas ns)" "ns \<noteq> []" "\<forall>n \<in> set ns. n < 2 ^ 32"
    and "no_errors (case env_rate getenv of None \<Rightarrow> narrow error_rate | Some r \<Rightarrow> r)" "started getenv l"
    and "[] \<notin> set bufs" "length bufs < 2 ^ 32"
  shows "\<exists>m'. send_all sendto_Err bufs (pktMgr (sendErr_init error_rate drop_flag flip_flag debug_flag random_flag now now' l)) =
    Inr (map (\<lambda>(i, buf). if Suc i \<in> set ns then None else Some buf) (enumerate 0 bufs), m')"
proof -
  let ?m = "pktMgr (sendErr_init error_rate drop_flag flip_flag debug_flag random_flag now now' l)"
  obtain m where m: "configured getenv m l" "m_ErrorCase_Constant m = env_constant getenv" "m_ErrorCase_Chance m = env_chance getenv"
    "m_ErrorRate m = (case env_rate getenv of None \<Rightarrow> Num 0 | Some r \<Rightarrow> r)" "m_MsgNo m = 0"
    using started_configured [OF assms(5)] by (elim exE conjE) (rule that)
  obtain n ns' where ns: "ns = n # ns'" using assms(2) by (cases ns) auto
  have "env_constant getenv = [ErrorDrop False (map of_nat ns)]"
    unfolding env_constant_def drop_list_read [of getenv ns, OF assms(1,3)] by (simp add: ns)
  then have "drops (map of_nat ns) (case env_rate getenv of None \<Rightarrow> narrow error_rate | Some r \<Rightarrow> r) ?m" "m_MsgNo ?m = 0"
    unfolding sendErr_init_configured [OF m(1)]
    using m(2-5) by (simp_all add: drops_def new_infoSeqNo_def split: option.split)
  from send_all_drops [OF this(1) assms(4,6) _ _ assms(3), of 0] this(2) assms(7) show ?thesis by simp
qed

text \<open>The second and the third of four packets, at a rate that is no number.\<close>

theorem listed_packets_are_dropped_witness:
  "let getenv = (\<lambda>name. if name = ''CPE464_OVERRIDE_ERR_DROP'' then Some [50, 44, 51] else None) in
   \<exists>m'. send_all sendto_Err [[1], [2], [3], [4]] (pktMgr (sendErr_init NaN True True 1 True 7 7 (library_boot getenv 0 3))) =
    Inr ([Some [1], None, None, Some [4]], m')"
proof -
  let ?e = "\<lambda>name. if name = ''CPE464_OVERRIDE_ERR_DROP'' then Some [50, 44, 51 :: byte] else None"
  have list: "?e ''CPE464_OVERRIDE_ERR_DROP'' = Some (commas [2, 3])" by (simp add: decimal.simps)
  have rate: "no_errors (case env_rate ?e of None \<Rightarrow> narrow NaN | Some r \<Rightarrow> r)"
    by (simp add: env_rate_def no_errors_def)
  have "\<exists>m'. send_all sendto_Err [[1], [2], [3], [4]] (pktMgr (sendErr_init NaN True True 1 True 7 7 (library_boot ?e 0 3))) =
    Inr (map (\<lambda>(i, buf). if Suc i \<in> set [2, 3] then None else Some buf) (enumerate 0 [[1], [2], [3], [4]]), m')"
    by (rule listed_packets_are_dropped [OF list _ _ rate started_boot]) simp_all
  then show ?thesis by simp
qed

end
