(* ===== verification/Tcp.thy ===== *)
theory Tcp
  imports Hooks Completion
begin

text \<open>
  The rest of the network code: the TCP functions of \<open>networks.c\<close>, \<open>safeSend\<close> and \<open>safeRecv\<close>, the
  printing helpers of \<open>gethostbyname.c\<close>, and the two skeleton programs \<open>myClient.c\<close> and
  \<open>myServer.c\<close> over them. The answers of \<open>bind\<close>, \<open>getsockname\<close>, \<open>listen\<close>, \<open>accept\<close> and \<open>connect\<close> are
  parameters.
\<close>

section \<open>Streams\<close>

text \<open>
  A process with one connection: what the coming calls of \<open>recv\<close> find (\<open>None\<close> for a failure, an
  empty piece when the other side has closed), the bytes written, and the standard input. A call
  of \<open>send\<close> that does not fail takes the whole buffer, as a blocking socket does.
\<close>

record tcp = proc +
  peer_in :: "byte list option list"
  peer_out :: "byte list"
  stdin :: "byte list"

text \<open>The count and the buffer of the caller afterwards; \<open>buf\<close> is the buffer before.\<close>

definition safeRecv :: "nat \<Rightarrow> byte list \<Rightarrow> tcp \<Rightarrow> (tcp, int \<times> byte list) outcome" where
  "safeRecv len buf p =
     (case peer_in p of
        [] \<Rightarrow> Stop Waiting p
      | None # es \<Rightarrow> Stop (Exit (- 1)) (p\<lparr>peer_in := es\<rparr>)
      | Some piece # es \<Rightarrow>
          let got = take len piece; buf = got @ drop (length got) buf;
              returnValue = fst (recvErr buf (int (length got))) in
          Ret (returnValue, buf) (p\<lparr>peer_in := (if len < length piece then Some (drop len piece) # es else es)\<rparr>))"

definition kernel_send :: "tcp \<Rightarrow> byte list \<Rightarrow> int" where
  "kernel_send p buf = (case send_errs p of True # fs \<Rightarrow> - 1 | _ \<Rightarrow> int (length buf))"

definition safeSend :: "byte list \<Rightarrow> tcp \<Rightarrow> (tcp, int) outcome" where
  "safeSend buf p =
     bindO (liftO (send_Err (kernel_send p) buf (pm p)) p) (\<lambda>(returnValue, given, pm') p.
       let p = p\<lparr>pm := pm', send_errs := (if given = None then send_errs p else drop 1 (send_errs p))\<rparr> in
       if returnValue < 0 then Stop (Exit (- 1)) p
       else Ret returnValue (p\<lparr>peer_out := peer_out p @ (case given of None \<Rightarrow> [] | Some d \<Rightarrow> d)\<rparr>))"

section \<open>Addresses in print\<close>

text \<open>\<open>inet_ntop\<close> is the function of the C library that prints an address.\<close>

type_synonym printer = "int \<Rightarrow> byte list \<Rightarrow> string"

definition getIPAddressString46 :: "printer \<Rightarrow> byte list option \<Rightarrow> int \<Rightarrow> string" where
  "getIPAddressString46 inet_ntop ipAddress addressFamily =
     (case ipAddress of Some a \<Rightarrow> inet_ntop addressFamily a | None \<Rightarrow> ''(IP not found)'')"

definition getIPAddressString4 :: "printer \<Rightarrow> byte list option \<Rightarrow> string" where
  "getIPAddressString4 inet_ntop ipAddress = getIPAddressString46 inet_ntop ipAddress AF_INET"

definition getIPAddressString6 :: "printer \<Rightarrow> byte list option \<Rightarrow> string" where
  "getIPAddressString6 inet_ntop ipAddress = getIPAddressString46 inet_ntop ipAddress AF_INET6"

definition ipAddressToString :: "printer \<Rightarrow> sockaddr_in6 \<Rightarrow> string" where
  "ipAddressToString inet_ntop ipAddressStruct = inet_ntop AF_INET6 (sin6_addr ipAddressStruct)"

text \<open>What is printed: the address and the port.\<close>

definition printIPInfo :: "printer \<Rightarrow> sockaddr_in6 \<Rightarrow> string \<times> u16" where
  "printIPInfo inet_ntop ipAddressStruct =
     (ipAddressToString inet_ntop ipAddressStruct, ntohs (sin6_port ipAddressStruct))"

text \<open>The lines of the test, with the address family; \<open>temp4\<close> and \<open>temp6\<close> are the temporary structures.\<close>

definition gethostbyname_test_lookup ::
  "resolver \<Rightarrow> printer \<Rightarrow> byte list \<Rightarrow> sockaddr_in6 \<Rightarrow> string \<Rightarrow> (int \<times> string \<times> string) list" where
  "gethostbyname_test_lookup resolve inet_ntop temp4 temp6 hostname =
     (let host = map of_char hostname;
          ip6 = fst (gethostbyname6 resolve host temp6);
          ip4 = fst (gethostbyname4 resolve host temp4) in
      (if ip6 \<noteq> None then [(AF_INET6, hostname, getIPAddressString6 inet_ntop ip6)] else []) @
      (if ip4 \<noteq> None then [(AF_INET, hostname, getIPAddressString4 inet_ntop ip4)] else []))"

definition gethostbyname_test ::
  "resolver \<Rightarrow> printer \<Rightarrow> byte list \<Rightarrow> sockaddr_in6 \<Rightarrow> (int \<times> string \<times> string) list" where
  "gethostbyname_test resolve inet_ntop temp4 temp6 =
     concat (map (gethostbyname_test_lookup resolve inet_ntop temp4 temp6)
       [''www.google.com'', ''ipv6.google.com'', ''my.calpoly.edu'', ''does not exist''])"

section \<open>TCP sockets\<close>

definition tcpServerSetup ::
  "int \<Rightarrow> int \<Rightarrow> int \<Rightarrow> int \<Rightarrow> 'm proc_scheme \<Rightarrow> ('m proc_scheme, int \<times> sockaddr_in6) outcome" where
  "tcpServerSetup bind_result sockname_result listen_result serverPort p =
     (case socket_call p of (mainServerSocket, p) \<Rightarrow>
        if mainServerSocket < 0 then Stop (Exit 1) p
        else
          let serverAddress = zero_sockaddr_in6\<lparr>sin6_port := htons (word_of_int serverPort)\<rparr> in
          if bind_result < 0 then Stop (Exit (- 1)) p
          else if sockname_result < 0 then Stop (Exit (- 1)) p
          else if listen_result < 0 then Stop (Exit (- 1)) p
          else Ret (mainServerSocket, serverAddress) p)"

text \<open>The client's socket, and what is printed when the flag is set.\<close>

definition tcpAccept ::
  "printer \<Rightarrow> int \<times> sockaddr_in6 \<Rightarrow> bool \<Rightarrow> 'm proc_scheme \<Rightarrow> ('m proc_scheme, int \<times> (string \<times> u16) option) outcome" where
  "tcpAccept inet_ntop accept_result debugFlag p =
     (case accept_result of (client_socket, clientAddress) \<Rightarrow>
        if client_socket < 0 then Stop (Exit (- 1)) p
        else Ret (client_socket,
          if debugFlag then Some (getIPAddressString6 inet_ntop (Some (sin6_addr clientAddress)), ntohs (sin6_port clientAddress))
          else None) p)"

definition tcpClientSetup ::
  "resolver \<Rightarrow> int \<Rightarrow> byte list \<Rightarrow> byte list \<Rightarrow> 'm proc_scheme \<Rightarrow> ('m proc_scheme, int \<times> sockaddr_in6) outcome" where
  "tcpClientSetup resolve connect_result serverName serverPort p =
     (case socket_call p of (socket_num, p) \<Rightarrow>
        if socket_num < 0 then Stop (Exit (- 1)) p
        else
          bindO (liftO (c_string serverPort) p) (\<lambda>port p.
          let serverAddress = zero_sockaddr_in6\<lparr>sin6_port := htons (word_of_int (atoi port))\<rparr> in
          bindO (liftO (c_string serverName) p) (\<lambda>host p.
          case gethostbyname6 resolve host serverAddress of
            (None, serverAddress) \<Rightarrow> Stop (Exit (- 1)) p
          | (Some ipAddress, serverAddress) \<Rightarrow>
              if connect_result < 0 then Stop (Exit (- 1)) p else Ret (socket_num, serverAddress) p)))"

section \<open>The skeleton client\<close>

abbreviation (input) MAXBUF :: nat where "MAXBUF \<equiv> 1024"

text \<open>\<open>getchar\<close>; the end of the input is \<open>- 1\<close>, cut to a \<open>char\<close>.\<close>

fun getchar :: "byte list \<Rightarrow> byte \<times> byte list" where
  "getchar [] = (255, [])"
| "getchar (c # s) = (c, s)"

function read_loop :: "byte list \<Rightarrow> nat \<Rightarrow> byte \<Rightarrow> byte list \<Rightarrow> byte list \<times> nat \<times> byte list" where
  "read_loop buf inputLen aChar s =
     (if inputLen < MAXBUF - 1 \<and> aChar \<noteq> 10 then
        (case getchar s of (aChar, s) \<Rightarrow>
           if aChar \<noteq> 10 then read_loop (buf[inputLen := aChar]) (inputLen + 1) aChar s
           else read_loop buf inputLen aChar s)
      else (buf, inputLen, s))"
  by pat_completeness auto
termination
  by (relation "measure (\<lambda>(buf, n, c, s). 2 * (MAXBUF - 1 - n) + (if c = 10 then 0 else 1))")
    (auto split: prod.splits)

declare read_loop.simps [simp del]

text \<open>The buffer, the length with the terminating zero, and the rest of the input.\<close>

definition readFromStdin :: "byte list \<Rightarrow> byte list \<Rightarrow> byte list \<times> int \<times> byte list" where
  "readFromStdin buf s =
     (case read_loop (buf[0 := 0]) 0 0 s of (buf, inputLen, s) \<Rightarrow>
        (buf[inputLen := 0], int inputLen + 1, s))"

text \<open>\<open>sendBuf\<close> is the uninitialised array.\<close>

definition sendToServer :: "byte list \<Rightarrow> tcp \<Rightarrow> (tcp, unit) outcome" where
  "sendToServer sendBuf p =
     (case readFromStdin sendBuf (stdin p) of (sendBuf, sendLen, s) \<Rightarrow>
        bindO (safeSend (take (nat sendLen) sendBuf) (p\<lparr>stdin := s\<rparr>)) (\<lambda>sent p.
          if sent < 0 then Stop (Exit (- 1)) p else Ret () p))"

definition myClient_checkArgs :: "byte list list \<Rightarrow> halt + unit" where
  "myClient_checkArgs argv = (if length argv \<noteq> 3 then Inl (Exit 1) else Inr ())"

definition myClient_main :: "resolver \<Rightarrow> int \<Rightarrow> byte list \<Rightarrow> byte list list \<Rightarrow> tcp \<Rightarrow> (tcp, int) outcome" where
  "myClient_main resolve connect_result sendBuf argv p =
     bindO (liftO (myClient_checkArgs argv) p) (\<lambda>_ p.
     bindO (tcpClientSetup resolve connect_result (argv ! 1) (argv ! 2) p) (\<lambda>_ p.
     bindO (sendToServer sendBuf p) (\<lambda>_. Ret 0)))"

section \<open>The skeleton server\<close>

text \<open>What is printed: the length and the data, \<open>None\<close> when the connection is closed.\<close>

definition recvFromClient :: "byte list \<Rightarrow> tcp \<Rightarrow> (tcp, (int \<times> byte list) option) outcome" where
  "recvFromClient dataBuffer p =
     bindO (safeRecv MAXBUF dataBuffer p) (\<lambda>(messageLen, dataBuffer) p.
       if messageLen < 0 then Stop (Exit (- 1)) p
       else if 0 < messageLen then
         bindO (liftO (c_string dataBuffer) p) (\<lambda>data. Ret (Some (messageLen, data)))
       else Ret None p)"

definition myServer_checkArgs :: "byte list list \<Rightarrow> halt + int" where
  "myServer_checkArgs argv =
     (if 2 < length argv then Inl (Exit (- 1))
      else if length argv = 2 then bindE (c_string (argv ! 1)) (\<lambda>port. Inr (atoi port))
      else Inr 0)"

definition myServer_main ::
  "printer \<Rightarrow> int \<Rightarrow> int \<Rightarrow> int \<Rightarrow> int \<times> sockaddr_in6 \<Rightarrow> byte list \<Rightarrow> byte list list \<Rightarrow> tcp
   \<Rightarrow> (tcp, (int \<times> byte list) option) outcome" where
  "myServer_main inet_ntop bind_result sockname_result listen_result accept_result dataBuffer argv p =
     bindO (liftO (myServer_checkArgs argv) p) (\<lambda>portNumber p.
     bindO (tcpServerSetup bind_result sockname_result listen_result portNumber p) (\<lambda>_ p.
     bindO (tcpAccept inet_ntop accept_result True p) (\<lambda>_ p.
     recvFromClient dataBuffer p)))"

section \<open>Reading a line\<close>

text \<open>The reference: the line up to the newline, or \<open>m\<close> bytes, filled up with 255 where the input ends.\<close>

definition typed_line :: "nat \<Rightarrow> byte list \<Rightarrow> byte list \<times> byte list" where
  "typed_line m s =
     (let line = takeWhile (\<lambda>c. c \<noteq> 10) s in
      if 10 \<in> set s \<and> length line < m then (line, drop (length line + 1) s)
      else (take m (line @ replicate m 255), drop m s))"

lemma take_one_more: "k \<le> m \<Longrightarrow> take k (x # replicate m x) = replicate k x"
  by (simp flip: replicate_Suc)

lemma typed_line_simps:
  "typed_line 0 s = ([], s)"
  "typed_line (Suc m) [] = (255 # fst (typed_line m []), snd (typed_line m []))"
  "typed_line (Suc m) (10 # s) = ([], s)"
  "c \<noteq> 10 \<Longrightarrow> typed_line (Suc m) (c # s) = (c # fst (typed_line m s), snd (typed_line m s))"
  by (auto simp: typed_line_def Let_def take_one_more)

lemma typed_line_length: "length (fst (typed_line m s)) \<le> m"
  by (auto simp: typed_line_def Let_def)

lemma read_loop_typed:
  assumes "n + m = 1023" "length buf = MAXBUF" "c \<noteq> 10"
  shows "read_loop buf n c s = (take n buf @ fst (typed_line m s) @ drop (n + length (fst (typed_line m s))) buf,
    n + length (fst (typed_line m s)), snd (typed_line m s))"
  using assms
proof (induction m arbitrary: n buf c s)
  case 0
  then show ?case by (simp add: read_loop.simps [of buf 1023] typed_line_simps)
next
  case (Suc m)
  have more: "n < MAXBUF - 1 \<and> c \<noteq> 10" using Suc.prems by simp
  obtain d s' where d: "getchar s = (d, s')" by fastforce
  show ?case
  proof (cases "d = 10")
    case True
    then have s: "s = 10 # s'" using d by (cases s) simp_all
    have "read_loop buf n 10 s' = (buf, n, s')" by (simp add: read_loop.simps [of buf n 10])
    with more d True show ?thesis by (simp add: read_loop.simps [of buf n c] s typed_line_simps)
  next
    case False
    have l: "length (buf[n := d]) = MAXBUF" "n + 1 + m = 1023" using Suc.prems by simp_all
    have t: "typed_line (Suc m) s = (d # fst (typed_line m s'), snd (typed_line m s'))"
      using d False by (cases s) (auto simp: typed_line_simps)
    have "read_loop buf n c s = read_loop (buf[n := d]) (n + 1) d s'"
      using more d False by (simp add: read_loop.simps [of buf n c])
    also have "\<dots> = (take (n + 1) (buf[n := d]) @ fst (typed_line m s') @ drop (n + 1 + length (fst (typed_line m s'))) (buf[n := d]),
        n + 1 + length (fst (typed_line m s')), snd (typed_line m s'))"
      by (rule Suc.IH [OF l(2,1) False])
    also have "take (n + 1) (buf[n := d]) = take n buf @ [d]"
      using Suc.prems by (simp add: take_Suc_conv_app_nth)
    finally show ?thesis by (simp add: t)
  qed
qed

text \<open>The array is never overrun, and what is in it is a string if nothing in the line is zero.\<close>

lemma readFromStdin_typed:
  assumes "length buf = MAXBUF"
  shows "\<exists>buf'. readFromStdin buf s = (buf', int (length (fst (typed_line 1023 s))) + 1, snd (typed_line 1023 s))
    \<and> length buf' = MAXBUF \<and> take (length (fst (typed_line 1023 s)) + 1) buf' = fst (typed_line 1023 s) @ [0]"
proof -
  let ?line = "fst (typed_line 1023 s)"
  have len: "length ?line \<le> 1023" by (rule typed_line_length)
  have "read_loop (buf[0 := 0]) 0 0 s = (?line @ drop (length ?line) (buf[0 := 0]), length ?line, snd (typed_line 1023 s))"
    using read_loop_typed [of 0 1023 "buf[0 := 0]" 0 s] assms by simp
  then have "readFromStdin buf s = ((?line @ drop (length ?line) (buf[0 := 0]))[length ?line := 0], int (length ?line) + 1,
      snd (typed_line 1023 s))"
    by (simp add: readFromStdin_def)
  moreover obtain x xs where "drop (length ?line) (buf[0 := 0]) = x # xs"
    using len assms by (cases "drop (length ?line) (buf[0 := 0])") auto
  moreover from this have "length (x # xs) = 1024 - length ?line" using assms by (metis length_drop length_list_update)
  ultimately show ?thesis using len by (intro exI [of _ "?line @ 0 # xs"]) (simp add: list_update_append)
qed

section \<open>From the keyboard to the screen\<close>

lemma send_Err_clean:
  assumes "pm_clean m" "buf \<noteq> []" "send buf = int (length buf)"
  shows "\<exists>m'. pm_clean m' \<and> send_Err send buf m = Inr (int (length buf), Some buf, m')"
proof -
  let ?m = "m\<lparr>m_MsgNo := m_MsgNo m + 1\<rparr>"
  obtain m' where m': "processEvents buf (m_MsgNo ?m) ?m = (0, buf, m')" "pm_clean m'"
    using processEvents_clean [of ?m buf "m_MsgNo ?m"] assms(1) by auto
  then show ?thesis using assms(2,3) by (intro exI [of _ m']) (simp add: send_Err_def Let_def)
qed

lemma tcpClientSetup_ok:
  assumes "sockets p = s # ss" "0 \<le> s" "c_string host_arg = Inr host" "c_string port_arg = Inr port"
    and "resolve AF_INET6 host = Some addr" "0 \<le> connect_result"
  shows "\<exists>a. tcpClientSetup resolve connect_result host_arg port_arg p = Ret (s, a) (p\<lparr>sockets := ss\<rparr>)"
  using assms by (simp add: tcpClientSetup_def socket_call_def gethostbyname6_def getIPAddress46_def Let_def)

text \<open>
  C40. A line of up to 1022 bytes typed into \<open>myClient\<close> is sent with a terminating
  zero, and \<open>myServer\<close> prints it with its length when it arrives in one piece.
\<close>

theorem typed_line_is_printed:
  assumes "length sendBuf = MAXBUF" "stdin p = line @ 10 # rest" "0 \<notin> set line" "10 \<notin> set line" "length line < MAXBUF - 1"
    and "sockets p = s # ss" "0 \<le> s" "c_string host_arg = Inr host" "c_string port_arg = Inr port"
      "resolve AF_INET6 host = Some addr" "0 \<le> connect_result"
    and "pm_clean (pm p)" "send_errs p = []" "peer_out p = []"
    and "length dataBuffer = MAXBUF" "sockets q = t # ts" "0 \<le> t" "0 \<le> bind_result" "0 \<le> sockname_result" "0 \<le> listen_result"
      "0 \<le> client_socket"
  shows "\<exists>p' q'. myClient_main resolve connect_result sendBuf [prog, host_arg, port_arg] p = Ret 0 p' \<and> stdin p' = rest
    \<and> myServer_main inet_ntop bind_result sockname_result listen_result (client_socket, client_address) dataBuffer [prog']
        (q\<lparr>peer_in := [Some (peer_out p')]\<rparr>) = Ret (Some (int (length line) + 1, line)) q'"
proof -
  have "takeWhile (\<lambda>c. c \<noteq> 10) (line @ 10 # rest) = line"
    using assms(4) by (subst takeWhile_append2) auto
  then have typed: "typed_line 1023 (stdin p) = (line, rest)"
    using assms(2,5) by (simp add: typed_line_def)
  obtain buf where buf: "readFromStdin sendBuf (stdin p) = (buf, int (length line) + 1, rest)" "length buf = MAXBUF"
    "take (length line + 1) buf = line @ [0]"
    using readFromStdin_typed [OF assms(1), of "stdin p"] by (auto simp: typed)
  obtain a where conn: "tcpClientSetup resolve connect_result host_arg port_arg p = Ret (s, a) (p\<lparr>sockets := ss\<rparr>)"
    using tcpClientSetup_ok [where resolve = resolve, OF assms(6-11)] by blast
  let ?p = "p\<lparr>sockets := ss, stdin := rest\<rparr>"
  have k: "kernel_send ?p (line @ [0]) = int (length (line @ [0]))" using assms(13) by (simp add: kernel_send_def)
  obtain m' where m': "send_Err (kernel_send ?p) (line @ [0]) (pm p) = Inr (int (length (line @ [0])), Some (line @ [0]), m')"
    using send_Err_clean [where send = "kernel_send ?p", OF assms(12) _ k] by auto
  have nat: "nat (int (length line) + 1) = length line + 1" by simp
  let ?p' = "?p\<lparr>pm := m', send_errs := [], peer_out := line @ [0]\<rparr>"
  have "safeSend (line @ [0]) ?p = Ret (int (length (line @ [0]))) ?p'"
    unfolding safeSend_def using m' assms(13,14) by simp
  then have "sendToServer sendBuf (p\<lparr>sockets := ss\<rparr>) = Ret () ?p'"
    using buf by (simp add: sendToServer_def nat)
  then have client: "myClient_main resolve connect_result sendBuf [prog, host_arg, port_arg] p = Ret 0 ?p'"
    using conn by (simp add: myClient_main_def myClient_checkArgs_def)
  let ?q = "q\<lparr>peer_in := [Some (line @ [0])], sockets := ts\<rparr>"
  have str: "c_string ((line @ [0]) @ drop (length line + 1) dataBuffer) = Inr line"
    using c_string_ok [OF assms(3)] by simp
  have "safeRecv MAXBUF dataBuffer ?q = Ret (int (length line) + 1, (line @ [0]) @ drop (length line + 1) dataBuffer) (?q\<lparr>peer_in := []\<rparr>)"
    using assms(5) by (simp add: safeRecv_def recvErr_def recv_Mod_def Let_def)
  then have "recvFromClient dataBuffer ?q = Ret (Some (int (length line) + 1, line)) (?q\<lparr>peer_in := []\<rparr>)"
    unfolding recvFromClient_def using str by simp
  then have "myServer_main inet_ntop bind_result sockname_result listen_result (client_socket, client_address) dataBuffer [prog']
      (q\<lparr>peer_in := [Some (peer_out ?p')]\<rparr>) = Ret (Some (int (length line) + 1, line)) (?q\<lparr>peer_in := []\<rparr>)"
    using assms(16-21)
    by (simp add: myServer_main_def myServer_checkArgs_def tcpServerSetup_def socket_call_def tcpAccept_def Let_def)
  with client show ?thesis by (intro exI [of _ ?p'] exI [of _ "?q\<lparr>peer_in := []\<rparr>"]) simp
qed

text \<open>The line \<open>hi\<close>.\<close>

definition sample_tcp :: "byte list \<Rightarrow> tcp" where
  "sample_tcp typed = \<lparr>net_in = [], net_out = [], send_errs = [], pm = g_PktMgr 0, polled = static_pollset, udp_sock = 0,
     heap = 0, sockets = [3], peer_in = [], peer_out = [], stdin = typed\<rparr>"

theorem typed_line_is_printed_witness:
  "\<exists>p' q'. myClient_main (\<lambda>_ _. Some (replicate 16 0)) 0 (replicate 1024 7) [[99, 0], [104, 0], [56, 48, 0]]
      (sample_tcp [104, 105, 10]) = Ret 0 p' \<and> stdin p' = []
    \<and> myServer_main (\<lambda>_ _. ''::1'') 0 0 0 (4, zero_sockaddr_in6) (replicate 1024 7) [[115, 0]]
        ((sample_tcp [])\<lparr>peer_in := [Some (peer_out p')]\<rparr>) = Ret (Some (int (length [104, 105 :: byte]) + 1, [104, 105])) q'"
  by (rule typed_line_is_printed [where host = "[104]" and port = "[56, 48]" and addr = "replicate 16 0"
        and s = 3 and ss = "[]" and t = 3 and ts = "[]" and resolve = "\<lambda>_ _. Some (replicate 16 0)"])
    (simp_all add: sample_tcp_def c_string_def pm_clean_def g_PktMgr_def)

end
