(* ===== verification/Spec2Isabelle.thy ===== *)
theory Spec2Isabelle
  imports Recovery Unchecked Parent DropList Tcp
begin

text \<open>
  A verification development for \<open>udp-reliable-transfer\<close>: a file transfer over UDP with
  selective-reject ARQ, written in C, over a library that injects errors into what is sent.

  \<^bold>\<open>The program.\<close> \<open>rcopy\<close> (the client, \<open>src/rcopy.c\<close>) asks \<open>server\<close> (\<open>src/server.c\<close>) for a
  file. The parent of the server forks a child for every request; the child opens the file,
  answers, and sends it in numbered blocks through a send window (\<open>src/slidingWindow.c\<close>). The
  client writes blocks that come in order, buffers those that come early (\<open>src/buffer.c\<close>),
  acknowledges with \<open>RR\<close> and asks again with \<open>SREJ\<close>. Both are state machines that wait in
  \<open>poll\<close> (\<open>src/pollLib.c\<close>) and exchange PDUs (\<open>src/pduHelpers.c\<close>) with an Internet checksum
  (\<open>lib/libcpe464/checksum.c\<close>) through the checked system calls of \<open>src/safeUtil.c\<close>. Every
  \<open>sendto\<close>, \<open>send\<close>, \<open>fork\<close>, \<open>select\<close> of the two is one of \<open>lib/libcpe464\<close>, where a packet manager
  drops and damages packets by chance or by a list of their numbers, as the arguments and the
  environment (\<open>SettingsManager.cpp\<close>) say.

  \<^bold>\<open>The model of a process.\<close> A handler is a function from a record to an \<open>outcome\<close> (\<open>Prelude\<close>):
  it returns a value and the record updated, or stops with the reason: exit code, a fault of
  memory or arithmetic, or waiting for a report that has not come. The record \<open>proc\<close>
  (\<open>Process\<close>) holds what is common: the reports of the kernel still to come (a datagram, an
  expired timer, a failing call, a condition on the standard input, which the unused entries of the
  poll set name), the datagrams sent, the poll set, the packet manager, the heap left. \<open>rcopy\<close> and \<open>server\<close> extend it by the parameters, buffers, and the static variables of
  their functions. What the kernel and the resolver answer is a parameter everywhere.

  \<^bold>\<open>The theories\<close>, lower ones first:
  \<^item> \<open>Prelude\<close>: machine integers, byte order, \<open>memcpy\<close>, the outcome monad, the constants and flags
    of \<open>include/sharedConstants.h\<close>. \<open>SlotStore\<close>: the interface of the two circular arrays.
  \<^item> \<open>CString\<close>, \<open>Floats\<close>: the string functions of the C library the sources call, and \<open>float\<close>.
  \<^item> \<open>Checksum\<close>: \<open>in_cksum\<close>. \<open>ErrorInjection\<close>: \<open>PacketManager.cpp\<close> with \<open>errorDrop.cpp\<close>,
    \<open>errorFlipBits.cpp\<close>, \<open>infoSeqNo.cpp\<close>. \<open>Settings\<close>: \<open>SettingsManager.cpp\<close>, \<open>dbg_print.c\<close>.
    \<open>Hooks\<close>: \<open>network-hooks.c\<close>. \<open>DropList\<close>: the list of packets to drop, from the text to the link.
  \<^item> \<open>PollLib\<close>: the poll set of \<open>pollLib.c\<close> as data; \<open>Process\<close>: its operations, which need memory and
    reports, and \<open>safeUtil.c\<close>; \<open>PduHelpers\<close>, \<open>Buffer\<close>, \<open>SlidingWindow\<close>: the files of these names;
    \<open>Networks\<close>: the UDP part of \<open>networks.c\<close>, the lookups of \<open>gethostbyname.c\<close>.
  \<^item> \<open>Rcopy\<close>: the handlers of the client; \<open>RcopyLoop\<close>: its loop ends, and what its timers do;
    \<open>RcopyData\<close>: what its data states keep; \<open>RcopySteps\<close>: the client cut at the points where it
    waits; \<open>Receiver\<close>: its data states refine an abstract receiver.
  \<^item> \<open>Server\<close>: the handlers of the child, and the parent; \<open>ServerLoop\<close>: small steps, the order of the
    states, the end of the child; \<open>ServerData\<close>, \<open>ServerExit\<close>: what it keeps, how it exits;
    \<open>Parent\<close>: which requests are served; \<open>Unchecked\<close>: sizes and acknowledgments the server takes
    as they come.
  \<^item> \<open>FileBlocks\<close>, \<open>Channels\<close>, \<open>Protocol\<close>, \<open>ProtocolInv\<close>, \<open>FileTransfer\<close>, \<open>Completion\<close>, \<open>Recovery\<close>: client,
    child and link as one system (\<open>sys_step\<close>), its invariant (\<open>sys_inv\<close>), its refinement, its
    completion, and how it recovers from loss.
  \<^item> \<open>Handshake\<close>: the exchange of the name. \<open>Args\<close>: \<open>checkArgs\<close> and \<open>main\<close> of both programs. \<open>Tcp\<close>:
    the TCP functions, \<open>safeSend\<close> and \<open>safeRecv\<close>, and the skeletons \<open>myClient.c\<close>, \<open>myServer.c\<close>.

  \<^bold>\<open>The interfaces.\<close> \<open>slot_store\<close> and \<open>slot_cache\<close> (numbers modulo the size), interpreted on the
  window as \<open>sw\<close> and on the buffer as \<open>rb\<close>; \<open>codec\<close> and \<open>detecting_codec\<close> (what is encoded is
  decoded, what is damaged is not), interpreted on the PDUs as \<open>pdu\<close>; \<open>lossy_sender\<close> (a packet is
  lost, arrives, or is damaged so that it shows), interpreted on \<open>sendto_Err\<close> as \<open>injection\<close>; \<open>kept\<close>
  and \<open>refines\<close> (an invariant along a run, a simulation), interpreted on the system as \<open>transfer\<close>.

  \<^bold>\<open>What is shown.\<close> Safety: whatever the link loses, repeats or damages and whenever timers expire
  or the standard input hangs up, the output is a prefix of the file, and it is the file when the client has acknowledged the end
  or the child exits on that acknowledgment (\<open>shalt = Some (Exit 0)\<close>, the \<open>exit(0)\<close> of
  \<open>processResponse\<close>); neither side faults; the window keeps its bounds. All this is for sizes in
  order (below) and a link that does not reorder (below). Liveness: from every start
  there is a run to that exit, and the programs started with two command lines get there; it can
  also be reached from every state in which datagrams have been lost, as long as the side whose
  turn it is has a try left (\<open>recovers_from_loss\<close>). Termination: on every sequence of reports the client comes to its end (a
  return, an exit, a fault, or waiting for more), and so does the child. The
  layers below are shown to be what these rest on: the checksum against its definition in RFC
  1071, round trips of PDUs, buffer, window and drop list, detection of damage, harmlessness of
  the injection. Where the code does not do what
  it means to, the failure is a theorem, too: reordering, a repeated answer to the name, an
  acknowledgment older than the window, after which blocks not acknowledged are lost, a time limit
  that only a hang-up of the standard input sets off, an answer whose flag is not looked at, a
  window of size zero, blocks and names that are too large, datagrams that are too short, a child
  that has given up and exits as if it had not.

  \<^bold>\<open>Bounds and fuel.\<close> \<open>sizes_ok n b F\<close> asks for a window of \<open>n > 0\<close> blocks of \<open>0 < b \<le> 1400\<close> bytes and
  for a file whose number of blocks plus \<open>n\<close> is below \<open>2 ^ 31\<close>, so that the counters, which are C
  \<open>int\<close>s, do not wrap. Names have at most 93 bytes where the child must understand them (beyond
  that \<open>processFilename\<close> overflows its array). \<open>processFile\<close> runs with fuel; \<open>7 n + 6\<close> passes
  suffice for \<open>n\<close> reports, because a pass takes a report or moves forward among at most seven
  states, and \<open>rcopy_always_ends\<close> proves it. For the child the loop is shown to end
  with some fuel, by a measure on the order of its states. \<open>sendData\<close>'s loops are \<open>function\<close>s with
  termination proofs on the reports and the file that are left.

  \<^bold>\<open>The link.\<close> In \<open>sys_step\<close> each direction is a queue whose head may be lost or repeated; damage
  comes from the injection in the sends. Reordering is not part of the link: with it the safety
  statements are false, as \<open>reordering_corrupts_the_file\<close> shows on the client alone. The
  initial states (\<open>sys_init\<close>) have no message of an earlier exchange under way; what a
  repeated answer to the file name does is \<open>repeated_answer_is_written\<close>. The small steps of
  \<open>sys_step\<close> are the handlers cut where the process waits: composed they are the handlers again
  (\<open>handlers_are_runs_of_small_steps\<close>, \<open>client_handlers_are_runs_of_small_steps\<close>).

  \<^bold>\<open>Not modelled.\<close> Formatting of \<open>printf\<close>, beyond the addresses \<open>gethostbyname.c\<close> prints; the results of
  \<open>write\<close> and \<open>close\<close>, which the code ignores; hexadecimal floating constants in \<open>strtod\<close>; the
  bytes that \<open>strtok_r\<close> overwrites in the environment; streams that split what one \<open>send\<close> has
  written; build files, and the precompiled libraries, whose sources are modelled instead.
  What is left of the sources beside these are comments, includes, prototypes, class declarations
  and debug output; every function with a body is modelled but the \<open>getName\<close> of the three events,
  which only names them in an error message.
\<close>

section \<open>The transfer\<close>

text \<open>The sample transfers a file of five bytes in blocks of two.\<close>

lemma sample_sizes: "sizes_ok 4 2 [1, 2, 3, 4, 5]"
  by (simp add: sizes_ok_def nchunks_def)

lemma sample_clean: "clean (cl (sample_sys b F))" "quiet (sv (sample_sys b F))"
  by (simp_all add: sample_sys_def sample_client_def rcopy_boot_def sample_server_def server_boot_def
      clean_def quiet_def pm_clean_def g_PktMgr_def)

lemma sample_run:
  obtains s where "(sys_step [] 0)\<^sup>*\<^sup>* (sample_sys 2 [1, 2, 3, 4, 5]) s" "shalt s = Some (Exit 0)"
  using complete [OF sample_sizes sample_sys_init sample_clean] by blast

text \<open>
  C1. If the server takes the transfer as done then the client has written exactly the file: in
  every run of client, server child and a link that loses, damages and duplicates datagrams and
  lets timers expire at any time, the \<open>exit(0)\<close> of \<open>processResponse\<close>,
  the one in answer to an EOF_ACK, implies that the output is \<open>F\<close>, byte for byte.
\<close>

theorem success_means_delivered:
  assumes "sizes_ok n b F" "sys_init n b F s0" "(sys_step pdu pduLen)\<^sup>*\<^sup>* s0 s" "shalt s = Some (Exit 0)"
  shows "outputFile (cl s) = F"
proof -
  have inv: "sys_inv n b F s" by (rule reach_inv [OF assms(1-3)])
  show ?thesis
    using sys_inv_output(2) [OF inv assms(1)] sys_inv_output(3) [OF inv assms(1,4)] by blast
qed

theorem success_means_delivered_witness:
  "\<exists>s. (sys_step [] 0)\<^sup>*\<^sup>* (sample_sys 2 [1, 2, 3, 4, 5]) s \<and> shalt s = Some (Exit 0)
    \<and> outputFile (cl s) = [1, 2, 3, 4, 5]"
proof -
  obtain s where s: "(sys_step [] 0)\<^sup>*\<^sup>* (sample_sys 2 [1, 2, 3, 4, 5]) s" "shalt s = Some (Exit 0)"
    by (rule sample_run)
  with success_means_delivered [OF sample_sizes sample_sys_init s] show ?thesis by blast
qed

text \<open>
  C2. In every reachable state of the transfer over a link that delivers each direction in order
  and may lose, damage and repeat datagrams, but does not reorder them, what the client has
  written is a prefix of the file: no block is written twice, out of order or damaged. This is for
  a window of at least one block, blocks of 1 to 1400 bytes, fewer than 2^31 blocks in file and
  window together, and nothing of an earlier exchange under way at the start. Timers may expire
  and the standard input may hang up at any time.
\<close>

theorem output_is_a_prefix:
  assumes "sizes_ok n b F" "sys_init n b F s0" "(sys_step pdu pduLen)\<^sup>*\<^sup>* s0 s"
  shows "prefix (outputFile (cl s)) F"
  using sys_inv_output(1) [OF reach_inv [OF assms] assms(1)] by (auto simp: take_is_prefix)

theorem output_is_a_prefix_witness:
  "\<exists>s. (sys_step [] 0)\<^sup>*\<^sup>* (sample_sys 2 [1, 2, 3, 4, 5]) s \<and> shalt s = Some (Exit 0)
    \<and> prefix (outputFile (cl s)) [1, 2, 3, 4, 5]"
proof -
  obtain s where s: "(sys_step [] 0)\<^sup>*\<^sup>* (sample_sys 2 [1, 2, 3, 4, 5]) s" "shalt s = Some (Exit 0)"
    by (rule sample_run)
  with output_is_a_prefix [OF sample_sizes sample_sys_init s(1)] show ?thesis by blast
qed

text \<open>
  C3. Over a link that delivers each direction in order and may lose, damage and repeat datagrams,
  but does not reorder them, the client enters the state in which it acknowledges the end of the
  file only when its output is the whole file. This is for a window of at least one block, blocks
  of 1 to 1400 bytes, fewer than 2^31 blocks in file and window together, and nothing of an
  earlier exchange under way at the start.
\<close>

theorem end_of_file_means_delivered:
  assumes "sizes_ok n b F" "sys_init n b F s0" "(sys_step pdu pduLen)\<^sup>*\<^sup>* s0 s"
    and "dataState (cl s) = DATA_STATE_DONE"
  shows "outputFile (cl s) = F"
  by (rule sys_inv_output(2) [OF reach_inv [OF assms(1-3)] assms(1,4)])

theorem end_of_file_means_delivered_witness:
  "\<exists>s. (sys_step [] 0)\<^sup>*\<^sup>* (sample_sys 2 [1, 2, 3, 4, 5]) s \<and> dataState (cl s) = DATA_STATE_DONE
    \<and> outputFile (cl s) = [1, 2, 3, 4, 5]"
proof -
  obtain s where s: "(sys_step [] 0)\<^sup>*\<^sup>* (sample_sys 2 [1, 2, 3, 4, 5]) s" "shalt s = Some (Exit 0)"
    by (rule sample_run)
  have "dataState (cl s) = DATA_STATE_DONE"
    by (rule sys_inv_output(3) [OF reach_inv [OF sample_sizes sample_sys_init s(1)] sample_sizes s(2)])
  with end_of_file_means_delivered [OF sample_sizes sample_sys_init s(1)] s(1) show ?thesis by blast
qed

text \<open>
  C9. When the sizes are in order, neither side accesses memory out of bounds or divides by zero
  during the transfer: a side that has stopped has called \<open>exit\<close>. This is for a
  window of at least one block, blocks of 1 to 1400 bytes, fewer than 2^31 blocks in file and
  window together, and nothing of an earlier exchange under way at the start, and for a link that
  delivers each direction in order and may lose, damage and repeat datagrams of the two programs,
  but neither reorders them nor brings datagrams of others (a window of zero, larger blocks and
  datagrams shorter than the header do lead to faults).
\<close>

theorem transfer_never_faults:
  assumes "sizes_ok n b F" "sys_init n b F s0" "(sys_step pdu pduLen)\<^sup>*\<^sup>* s0 s"
  shows "chalt s \<noteq> Some (Fault f) \<and> shalt s \<noteq> Some (Fault f)"
  using sys_inv_output(4) [OF reach_inv [OF assms] assms(1)] by (auto simp: no_fault_def)

theorem transfer_never_faults_witness:
  "\<exists>s. (sys_step [] 0)\<^sup>*\<^sup>* (sample_sys 2 [1, 2, 3, 4, 5]) s \<and> shalt s = Some (Exit 0)
    \<and> chalt s \<noteq> Some (Fault OutOfBounds) \<and> shalt s \<noteq> Some (Fault OutOfBounds)"
proof -
  obtain s where s: "(sys_step [] 0)\<^sup>*\<^sup>* (sample_sys 2 [1, 2, 3, 4, 5]) s" "shalt s = Some (Exit 0)"
    by (rule sample_run)
  with transfer_never_faults [OF sample_sizes sample_sys_init s(1)] show ?thesis by blast
qed

text \<open>
  C4. The transfer of every file can be completed: without error injection and failing system
  calls there is a run from the start to the exit of the server on the EOF_ACK, with the whole
  file written.
\<close>

theorem transfer_can_complete:
  assumes "sizes_ok n b F" "sys_init n b F s" "clean (cl s)" "quiet (sv s)"
  shows "\<exists>s'. (sys_step pdu pduLen)\<^sup>*\<^sup>* s s' \<and> shalt s' = Some (Exit 0) \<and> outputFile (cl s') = F"
proof -
  obtain s' where s': "(sys_step pdu pduLen)\<^sup>*\<^sup>* s s'" "shalt s' = Some (Exit 0)"
    using complete [OF assms] by blast
  have inv: "sys_inv n b F s'" by (rule reach_inv [OF assms(1,2) s'(1)])
  have "outputFile (cl s') = F"
    using sys_inv_output(2) [OF inv assms(1)] sys_inv_output(3) [OF inv assms(1) s'(2)] by blast
  with s' show ?thesis by blast
qed

theorem transfer_can_complete_witness:
  "\<exists>s'. (sys_step [] 0)\<^sup>*\<^sup>* (sample_sys 2 [1, 2, 3, 4, 5]) s' \<and> shalt s' = Some (Exit 0)
    \<and> outputFile (cl s') = [1, 2, 3, 4, 5]"
  by (rule transfer_can_complete [OF sample_sizes sample_sys_init sample_clean])

text \<open>
  C5. The transfer recovers from loss: from every state of every run in which the client waits for
  data, the server has a try left, and both have read what has reached them, whatever has been
  lost before and whatever of what is still under way gets lost, there is a run to the exit of the
  server on the EOF_ACK with the whole file written, as long as no error is injected from there
  on.
\<close>

theorem recovers_from_loss:
  assumes "sizes_ok n b F" "sys_init n b F s0" "(sys_step pdu pduLen)\<^sup>*\<^sup>* s0 s"
    and "chalt s = None" "shalt s = None" "cpc s \<in> {OkPoll, AtC RECV_DATA}" "has_try (spc s) s"
    and "clean (cl s)" "quiet (sv s)" "net_in (cl s) = []" "net_in (sv s) = []"
  shows "\<exists>s'. (sys_step pdu pduLen)\<^sup>*\<^sup>* s s' \<and> shalt s' = Some (Exit 0) \<and> outputFile (cl s') = F"
proof -
  obtain s' where s': "(sys_step pdu pduLen)\<^sup>*\<^sup>* s s'" "shalt s' = Some (Exit 0)"
    using recover_lossy [OF assms(1) reach_inv [OF assms(1-3)] assms(4-11)] by blast
  have inv: "sys_inv n b F s'" by (rule reach_inv [OF assms(1,2) rtranclp_trans [OF assms(3) s'(1)]])
  have "outputFile (cl s') = F"
    using sys_inv_output(2) [OF inv assms(1)] sys_inv_output(3) [OF inv assms(1) s'(2)] by blast
  with s' show ?thesis by blast
qed

text \<open>
  All three blocks of the sample have been sent and nothing of them has arrived, and the server
  waits for the first answer.
\<close>

theorem recovers_from_loss_witness:
  "\<exists>s. (sys_step [] 0)\<^sup>*\<^sup>* (sample_sys 2 [1, 2, 3, 4, 5]) s \<and> spc s = Wait 0 \<and> atEOF (sv s)
    \<and> (\<exists>s'. (sys_step [] 0)\<^sup>*\<^sup>* s s' \<and> shalt s' = Some (Exit 0) \<and> outputFile (cl s') = [1, 2, 3, 4, 5])"
proof -
  obtain s where s: "(sys_step [] 0)\<^sup>*\<^sup>* (sample_sys 2 [1, 2, 3, 4, 5]) s" "calm 4 2 [1, 2, 3, 4, 5] s"
    "spc s = Wait 0" "atEOF (sv s)"
    by (rule lossy_start [OF sample_sys_init sample_sizes sample_clean]) (auto simp: nchunks_def)
  then have "\<exists>s'. (sys_step [] 0)\<^sup>*\<^sup>* s s' \<and> shalt s' = Some (Exit 0) \<and> outputFile (cl s') = [1, 2, 3, 4, 5]"
    by (intro recovers_from_loss [OF sample_sizes sample_sys_init s(1)]) (simp_all add: calm_def)
  with s show ?thesis by blast
qed

text \<open>
  C6. A file that is asked for can be delivered, from the start of both programs: the client sets
  itself up and sends its request, the parent of the server accepts it and forks a child with it,
  and from there a run of the two leads to the exit of the child on the EOF_ACK and the whole file
  written; the name may have up to 93 bytes.
\<close>

theorem requested_file_is_delivered:
  assumes "asks_for b n name par" "length name \<le> 93" "sizes_ok n b F"
    and "n * sizeof_buffer_Data + poll_memory sock \<le> memory" "pm_clean manager" "0 < sock" "0 \<le> opened"
      "c_string (remoteMachine par) = Inr host" "resolve AF_INET6 host = Some addr" "length addr = 16"
    and "n * sizeof_window_Data + poll_memory sock' \<le> memory'" "pm_clean manager'" "0 < sock'" "opens name = (fd, F)" "0 \<le> fd"
    and "length pdu0 = MAX_PDU_SIZE" "0 \<le> pid"
  shows "\<exists>c0 c1 c2 a d pdu pduLen v s.
    processFile_init (rcopy_boot par [] [] manager memory (sock # socks) opened resolve) = Ret () c0
    \<and> client_small (AtC SETUP_CONNECTION) c0 = Ret (AtC SEND_FILENAME) c1
    \<and> client_small (AtC SEND_FILENAME) c1 = Ret NamePoll c2 \<and> net_out c2 = [(a, d)]
    \<and> processServer pdu0 l [pid] [Arrive src d] = ([(src, pdu, pduLen, snd (forkMod 0 l))], Waiting)
    \<and> setupPollSet (server_boot src [] [] manager' memory' (sock' # socks') [] junk opens) = Ret () v
    \<and> (sys_step pdu pduLen)\<^sup>*\<^sup>* \<lparr>cpc = NamePoll, cl = c2\<lparr>net_out := []\<rparr>, chalt = None, spc = At START,
         sv = v, shalt = None\<rparr> s
    \<and> shalt s = Some (Exit 0) \<and> outputFile (cl s) = F"
  by (rule session [where resolve = resolve and opens = opens and addr = addr, OF assms])

text \<open>The file \<open>f\<close>, five bytes in blocks of two, through a window of four.\<close>

definition sample_parameters :: Parameters where
  "sample_parameters = \<lparr>fromFilename = [102, 0], fromFilenameLen = 1, toFilename = [103, 0], toFilenameLen = 1,
     windowSize = 4, bufferSize = 2, errorRate = Num 0, remoteMachine = [104, 0], portNumber = 80\<rparr>"

theorem requested_file_is_delivered_witness:
  "\<exists>c0 c1 c2 a d pdu pduLen v s.
    processFile_init (rcopy_boot sample_parameters [] [] (g_PktMgr 0) 5768 [3] 4
      (\<lambda>_ _. Some (replicate 16 0))) = Ret () c0
    \<and> client_small (AtC SETUP_CONNECTION) c0 = Ret (AtC SEND_FILENAME) c1
    \<and> client_small (AtC SEND_FILENAME) c1 = Ret NamePoll c2 \<and> net_out c2 = [(a, d)]
    \<and> processServer (replicate 1407 0) (library_boot (\<lambda>_. None) 0 3) [7] [Arrive zero_sockaddr_in6 d] =
      ([(zero_sockaddr_in6, pdu, pduLen, snd (forkMod 0 (library_boot (\<lambda>_. None) 0 3)))], Waiting)
    \<and> setupPollSet (server_boot zero_sockaddr_in6 [] [] (g_PktMgr 0) 5752 [5] [] 0
           (\<lambda>name. if name = [102] then (6, [1, 2, 3, 4, 5]) else (- 1, []))) = Ret () v
    \<and> (sys_step pdu pduLen)\<^sup>*\<^sup>* \<lparr>cpc = NamePoll, cl = c2\<lparr>net_out := []\<rparr>, chalt = None, spc = At START,
         sv = v, shalt = None\<rparr> s
    \<and> shalt s = Some (Exit 0) \<and> outputFile (cl s) = [1, 2, 3, 4, 5]"
  by (rule requested_file_is_delivered [OF _ _ sample_sizes, where name = "[102]" and fd = 6 and host = "[104]"
        and addr = "replicate 16 0" and resolve = "\<lambda>_ _. Some (replicate 16 0)"
        and opens = "\<lambda>name. if name = [102] then (6, [1, 2, 3, 4, 5]) else (- 1, [])"])
    (simp_all add: asks_for_def sample_parameters_def pm_clean_def g_PktMgr_def c_string_def poll_memory_def)

text \<open>
  C7. From the two command lines to the file: with an error rate that is negative (or no number)
  and an empty environment, \<open>main\<close> of the client reads its arguments, sets itself up
  and sends its request, \<open>main\<close> of the server reads its own, accepts the request and
  forks a child, and from there a run of the two leads to the exit of the child on the EOF_ACK and
  the whole file written. The rate is needed because a rate of zero can still drop packets.
\<close>

theorem command_lines_deliver:
  assumes names: "length from_name \<le> 93" "0 \<notin> set from_name" "length to_name \<le> 100" "0 \<notin> set to_name"
    and sizes: "sizes_ok n b F" "port < 2 ^ 31"
    and rate: "0 \<notin> set rate" "\<not> fle (Num 1) (atof rate)" "no_errors (narrow (atof rate))"
    and host: "0 \<notin> set host" "length host < 1000" "1000 \<le> length host + 1 + length rest"
      "resolve AF_INET6 host = Some addr" "length addr = 16"
    and client: "n * sizeof_buffer_Data + poll_memory sock \<le> memory" "0 < sock" "0 \<le> opened"
    and child: "n * sizeof_window_Data + poll_memory sock' \<le> memory'" "0 < sock'" "opens from_name = (fd, F)" "0 \<le> fd"
    and parent: "length pdu0 = MAX_PDU_SIZE" "0 \<le> pid" "0 \<le> bind_result" "sockets (p :: proc) = s0 # ss" "0 \<le> s0"
  shows "\<exists>c c0 c1 c2 a d pdu pduLen l v s.
    rcopy_prepare now now' (library_boot (\<lambda>_. None) m start) (command_line from_name to_name n b rate host port rest)
      (rcopy_start [] [] manager memory (sock # socks) opened resolve) = Ret () c
    \<and> processFile_init c = Ret () c0
    \<and> client_small (AtC SETUP_CONNECTION) c0 = Ret (AtC SEND_FILENAME) c1
    \<and> client_small (AtC SEND_FILENAME) c1 = Ret NamePoll c2 \<and> net_out c2 = [(a, d)]
    \<and> server_main clock [prog, arg rate rest] bind_result pdu0 (library_boot (\<lambda>_. None) m' start') [pid]
        (p\<lparr>net_in := [Arrive src d]\<rparr>) = ([(src, pdu, pduLen, l)], Waiting)
    \<and> setupPollSet (server_boot src [] [] (pktMgr l) memory' (sock' # socks') [] junk opens) = Ret () v
    \<and> (sys_step pdu pduLen)\<^sup>*\<^sup>* \<lparr>cpc = NamePoll, cl = c2\<lparr>net_out := []\<rparr>, chalt = None, spc = At START,
         sv = v, shalt = None\<rparr> s
    \<and> shalt s = Some (Exit 0) \<and> outputFile (cl s) = F"
proof -
  have n: "n < 2 ^ 31" "1 \<le> b" "b \<le> 1400" "length from_name \<le> 100" using sizes(1) names(1) by (auto simp: sizes_ok_def)
  obtain par where par: "rcopy_checkArgs (command_line from_name to_name n b rate host port rest) zero_parameters = Inr par"
    "asks_for b n from_name par" "errorRate par = atof rate" "c_string (remoteMachine par) = Inr host"
    using command_line_read [OF n(4) names(2-4) n(1-3) sizes(2) rate(1,2) host(1-3)] by blast
  let ?l = "library_boot (\<lambda>_. None) m start" and ?l' = "library_boot (\<lambda>_. None) m' start'"
  let ?m = "pktMgr (sendErr_init (atof rate) True True 1 True now now' ?l)"
  let ?child = "server_child (atof rate) (fst (clock 0)) (snd (clock 0)) (snd (forkMod 0 ?l'))"
  have clean: "pm_clean ?m" "pm_clean (pktMgr ?child)"
    using started_clean [OF started_boot rate(3)] started_clean [OF started_fork [OF started_boot] rate(3)] by (simp_all add: server_child_def)
  have prep: "rcopy_prepare now now' ?l (command_line from_name to_name n b rate host port rest)
      (rcopy_start [] [] manager memory (sock # socks) opened resolve)
    = Ret () (rcopy_boot par [] [] ?m memory (sock # socks) opened resolve)"
    unfolding rcopy_prepare_eq par by (simp add: par(3))
  obtain c0 c1 c2 a d pdu pduLen v s where run:
    "processFile_init (rcopy_boot par [] [] ?m memory (sock # socks) opened resolve) = Ret () c0"
    "client_small (AtC SETUP_CONNECTION) c0 = Ret (AtC SEND_FILENAME) c1"
    "client_small (AtC SEND_FILENAME) c1 = Ret NamePoll c2" "net_out c2 = [(a, d)]"
    "processServer pdu0 ?l' [pid] [Arrive src d] = ([(src, pdu, pduLen, snd (forkMod 0 ?l'))], Waiting)"
    "setupPollSet (server_boot src [] [] (pktMgr ?child) memory' (sock' # socks') [] junk opens) = Ret () v"
    "(sys_step pdu pduLen)\<^sup>*\<^sup>* \<lparr>cpc = NamePoll, cl = c2\<lparr>net_out := []\<rparr>, chalt = None, spc = At START,
         sv = v, shalt = None\<rparr> s"
    "shalt s = Some (Exit 0)" "outputFile (cl s) = F"
    using session [where resolve = resolve and opens = opens and src = src and junk = junk and socks = socks
        and socks' = socks' and l = ?l', OF par(2) names(1) sizes(1) client(1) clean(1) client(2,3) par(4)
        host(4,5) child(1) clean(2) child(2-4) parent(1,2)] by blast
  let ?p = "p\<lparr>net_in := [Arrive src d]\<rparr>"
  have "processServer pdu0 ?l' [pid] (net_in ?p) = ([(src, pdu, pduLen, snd (forkMod 0 ?l'))], Waiting)" using run(5) by simp
  moreover have "sockets ?p = s0 # ss" using parent(4) by simp
  ultimately have "server_main clock [prog, arg rate rest] bind_result pdu0 ?l' [pid] ?p = ([(src, pdu, pduLen, ?child)], Waiting)"
    using server_main_one [OF rate(1,2) _ parent(5,3)] by blast
  with prep run show ?thesis by blast
qed

text \<open>\<open>rcopy f g 4 2 -1 h 80\<close> and \<open>server -1\<close>.\<close>

definition sample_proc :: proc where
  "sample_proc = \<lparr>net_in = [], net_out = [], send_errs = [], pm = g_PktMgr 0, polled = static_pollset, udp_sock = 0,
     heap = 0, sockets = [3]\<rparr>"

lemma minus_one: "\<not> fle (Num 1) (atof [45, 49])" "no_errors (narrow (atof [45, 49]))"
proof -
  have "scan_float conv [45, 49] = Some (conv (- 1))" for conv
    by (simp add: scan_float_def isspace_def scan_decimal_def isdigit_def scan_fraction_def digits_val_def
        scan_exponent_def tolower_def Let_def)
  then have "atof [45, 49] = Num (- 1)" by (simp add: atof_def strtod_def to_double_def round_to_minus_one)
  then show "\<not> fle (Num 1) (atof [45, 49])" "no_errors (narrow (atof [45, 49]))"
    by (simp_all add: no_errors_def to_float_def round_to_minus_one)
qed

theorem command_lines_deliver_witness:
  "\<exists>c c0 c1 c2 a d pdu pduLen l v s.
    rcopy_prepare 7 7 (library_boot (\<lambda>_. None) 0 1) (command_line [102] [103] 4 2 [45, 49] [104] 80 (replicate 1000 0))
      (rcopy_start [] [] (g_PktMgr 0) 5768 [3] 4 (\<lambda>_ _. Some (replicate 16 0))) = Ret () c
    \<and> processFile_init c = Ret () c0
    \<and> client_small (AtC SETUP_CONNECTION) c0 = Ret (AtC SEND_FILENAME) c1
    \<and> client_small (AtC SEND_FILENAME) c1 = Ret NamePoll c2 \<and> net_out c2 = [(a, d)]
    \<and> server_main (\<lambda>_. (9, 9)) [[115, 0], arg [45, 49] (replicate 1000 0)] 0 (replicate 1407 0)
        (library_boot (\<lambda>_. None) 0 2) [7] (sample_proc\<lparr>net_in := [Arrive zero_sockaddr_in6 d]\<rparr>)
      = ([(zero_sockaddr_in6, pdu, pduLen, l)], Waiting)
    \<and> setupPollSet (server_boot zero_sockaddr_in6 [] [] (pktMgr l) 5752 [5] [] 0
           (\<lambda>name. if name = [102] then (6, [1, 2, 3, 4, 5]) else (- 1, []))) = Ret () v
    \<and> (sys_step pdu pduLen)\<^sup>*\<^sup>* \<lparr>cpc = NamePoll, cl = c2\<lparr>net_out := []\<rparr>, chalt = None, spc = At START,
         sv = v, shalt = None\<rparr> s
    \<and> shalt s = Some (Exit 0) \<and> outputFile (cl s) = [1, 2, 3, 4, 5]"
  by (rule command_lines_deliver [OF _ _ _ _ sample_sizes _ _ minus_one, where fd = 6 and addr = "replicate 16 0"
        and resolve = "\<lambda>_ _. Some (replicate 16 0)" and ?s0.0 = 3 and ss = "[]"
        and opens = "\<lambda>name. if name = [102] then (6, [1, 2, 3, 4, 5]) else (- 1, [])"])
    (simp_all add: sample_proc_def poll_memory_def)

text \<open>
  C8. The transfer refines an abstract delivery of the file, in which the output only ever grows
  along the file and the server takes it as done only once it is all there.
\<close>

theorem transfer_refines_delivery:
  assumes "sizes_ok n b F" "sys_init n b F s0" "(sys_step pdu pduLen)\<^sup>*\<^sup>* s0 s"
  shows "delivery_init (abs_sys s0) \<and> (delivery_step F)\<^sup>*\<^sup>* (abs_sys s0) (abs_sys s)"
  using transfer.abs_run [of n b F s0 pdu pduLen s] assms by blast

theorem transfer_refines_delivery_witness:
  "\<exists>s. (sys_step [] 0)\<^sup>*\<^sup>* (sample_sys 2 [1, 2, 3, 4, 5]) s \<and> success (abs_sys s)
    \<and> delivery_init (abs_sys (sample_sys 2 [1, 2, 3, 4, 5]))
    \<and> (delivery_step [1, 2, 3, 4, 5])\<^sup>*\<^sup>* (abs_sys (sample_sys 2 [1, 2, 3, 4, 5])) (abs_sys s)"
proof -
  obtain s where s: "(sys_step [] 0)\<^sup>*\<^sup>* (sample_sys 2 [1, 2, 3, 4, 5]) s" "shalt s = Some (Exit 0)"
    by (rule sample_run)
  from s(2) have "success (abs_sys s)" by (simp add: abs_sys_def)
  with transfer_refines_delivery [OF sample_sizes sample_sys_init s(1)] s(1) show ?thesis by blast
qed

text \<open>
  C10. Over a link that delivers each direction in order and may lose, damage and repeat
  datagrams, but does not reorder them, the number the client expects lies between the lower edge
  of the window and the next number to be sent as long as the server runs, and no more than a
  window of blocks is outstanding. This is for a window of at least one block, blocks of 1 to 1400
  bytes, fewer than 2^31 blocks in file and window together, and nothing of an earlier exchange
  under way at the start; an old acknowledgment that comes late breaks the bound.
\<close>

theorem window_bounds:
  assumes "sizes_ok n b F" "sys_init n b F s0" "(sys_step pdu pduLen)\<^sup>*\<^sup>* s0 s" "shalt s = None"
  shows "\<exists>lo E C. lower (win (sv s)) = int lo \<and> expectedSeqNum (cl s) = of_nat E
    \<and> serverSeqNum (sv s) = of_nat C \<and> lo \<le> E \<and> E \<le> C \<and> C \<le> lo + n \<and> C \<le> nchunks b F"
proof -
  obtain lo C E H where "sys_numbers n b F lo C E s" "client_inv n b F C E H s" "server_inv n b F lo C E s"
    using reach_inv [OF assms(1-3)] by (auto simp: sys_inv_def)
  then show ?thesis using assms(4)
    by (intro exI [of _ lo] exI [of _ E] exI [of _ C])
      (simp add: sys_numbers_def client_inv_def client_core_def server_inv_def srv_core_def)
qed

theorem window_bounds_witness:
  "let s = sample_sys 2 [1, 2, 3, 4, 5] in
   \<exists>lo E C. lower (win (sv s)) = int lo \<and> expectedSeqNum (cl s) = of_nat E
    \<and> serverSeqNum (sv s) = of_nat C \<and> lo \<le> E \<and> E \<le> C \<and> C \<le> lo + 4 \<and> C \<le> nchunks 2 [1, 2, 3, 4, 5 :: byte]"
  unfolding Let_def
  by (rule window_bounds [OF sample_sizes sample_sys_init, of "[]" 0]) (simp_all add: sample_sys_def)

end
